(* ===== verification/Prelude.thy ===== *)
theory Prelude
  imports Main "HOL-Library.Word" "HOL-Library.Char_ord" "HOL-Library.List_Lexorder"
begin

text \<open>
  The vocabulary every component shares: identifiers and instants, the wrap-around of
  Go's fixed-width integers, the state-and-error operations in which the store is
  written, and the facts on lists of rows (find, replace by key, sum) that carry the
  proofs about tables.
\<close>

named_theorems op_simps \<open>unfolding rules of the state-and-error combinators\<close>
named_theorems row_simps \<open>rewriting rules on lists of rows\<close>

section \<open>Identifiers, instants, machine integers\<close>

text \<open>
  A Go \<open>uuid.UUID\<close> is an array of 16 bytes compared byte by byte, that is, a 128-bit
  unsigned number. Instants are microseconds since the Unix epoch, the resolution of
  PostgreSQL's \<open>timestamptz\<close>.
\<close>

type_synonym uuid = "128 word"
type_synonym time = int

abbreviation nil_uuid :: uuid where
  "nil_uuid \<equiv> 0"

definition second :: time where
  "second = 1000000"

definition zero_time :: time where
  \<comment> \<open>Go's zero \<open>time.Time\<close>, 0001-01-01 00:00:00 UTC.\<close>
  "zero_time = - 62135596800 * 1000000"

text \<open>The two's complement reading that an \<open>int64\<close> or \<open>int32\<close> result is reduced to.\<close>

definition wrap64 :: "int \<Rightarrow> int" where
  "wrap64 x = (x + 2 ^ 63) mod 2 ^ 64 - 2 ^ 63"

definition wrap32 :: "int \<Rightarrow> int" where
  "wrap32 x = (x + 2 ^ 31) mod 2 ^ 32 - 2 ^ 31"

definition is_int64 :: "int \<Rightarrow> bool" where
  "is_int64 x \<longleftrightarrow> - (2 ^ 63) \<le> x \<and> x < 2 ^ 63"

lemma wrap64_id: "- (2 ^ 63) \<le> x \<Longrightarrow> x < 2 ^ 63 \<Longrightarrow> wrap64 x = x"
  by (simp add: wrap64_def)

lemma wrap32_id: "- (2 ^ 31) \<le> x \<Longrightarrow> x < 2 ^ 31 \<Longrightarrow> wrap32 x = x"
  by (simp add: wrap32_def)

lemma wrap64_range: "is_int64 (wrap64 x)"
proof -
  have "0 \<le> (x + 2 ^ 63) mod 2 ^ 64" and "(x + 2 ^ 63) mod 2 ^ 64 < 2 ^ 64"
    by simp_all
  then show ?thesis by (simp add: is_int64_def wrap64_def)
qed

section \<open>The text of a UUID\<close>

text \<open>
  \<open>UUID.String\<close>: 32 lower-case hexadecimal digits, most significant first, with a dash
  after the 8th, 12th, 16th and 20th. \<open>uuid_chars k n\<close> writes the last \<open>k\<close> digits.
\<close>

definition hex_digit :: "int \<Rightarrow> char" where
  "hex_digit d = char_of (nat (if d < 10 then 48 + d else 87 + d))"

fun uuid_chars :: "nat \<Rightarrow> int \<Rightarrow> string" where
  "uuid_chars 0 n = []"
| "uuid_chars (Suc k) n =
     hex_digit (n div 16 ^ k) #
     (if k = 24 \<or> k = 20 \<or> k = 16 \<or> k = 12 then ''-'' else []) @
     uuid_chars k (n mod 16 ^ k)"

definition uuid_string :: "uuid \<Rightarrow> string" where
  "uuid_string u = uuid_chars 32 (uint u)"

lemma hex_digit_mono:
  assumes "0 \<le> d" "d < e" "e < 16"
  shows "hex_digit d < hex_digit e"
  using assms by (auto simp: hex_digit_def less_char_def)

lemma uuid_chars_mono:
  "0 \<le> n \<Longrightarrow> n < m \<Longrightarrow> m < 16 ^ k \<Longrightarrow> uuid_chars k n < uuid_chars k m"
proof (induction k arbitrary: n m)
  case 0
  then show ?case by simp
next
  case (Suc k)
  let ?b = "(16::int) ^ k"
  have b: "0 < ?b" by simp
  have le: "n div ?b \<le> m div ?b" using Suc.prems(2) b by (intro zdiv_mono1) auto
  have top: "m div ?b < 16"
  proof (rule ccontr)
    assume "\<not> m div ?b < 16"
    then have "16 * ?b \<le> m div ?b * ?b" using b by (intro mult_right_mono) simp_all
    also have "\<dots> \<le> m" using b div_mult_mod_eq[of m ?b] pos_mod_sign[of ?b m] by linarith
    finally show False using Suc.prems(3) by simp
  qed
  have lo: "0 \<le> n div ?b" using Suc.prems(1) b by (simp add: pos_imp_zdiv_nonneg_iff)
  show ?case
  proof (cases "n div ?b < m div ?b")
    case True
    then show ?thesis using hex_digit_mono[OF lo True top] by simp
  next
    case False
    with le have eq: "n div ?b = m div ?b" by simp
    have "n mod ?b < m mod ?b"
      using Suc.prems(2) eq div_mult_mod_eq[of n ?b] div_mult_mod_eq[of m ?b]
      by (metis add_less_cancel_left)
    moreover have "m mod ?b < ?b" and "0 \<le> n mod ?b" using b by simp_all
    ultimately have "uuid_chars k (n mod ?b) < uuid_chars k (m mod ?b)"
      using Suc.IH by blast
    then show ?thesis by (simp add: eq)
  qed
qed

text \<open>
  Comparing the texts of two UUIDs, as the lock order of a transfer does, is comparing
  the UUIDs themselves.
\<close>

lemma uuid_string_less_iff: "uuid_string a < uuid_string b \<longleftrightarrow> a < b"
proof -
  have up: "uuid_string u < uuid_string v" if "u < v" for u v :: uuid
  proof -
    have "uint u < uint v" using that by (simp add: word_less_def)
    moreover have "uint v < 16 ^ 32" using uint_lt2p[of v] by simp
    moreover have "0 \<le> uint u" by simp
    ultimately show ?thesis
      unfolding uuid_string_def by (intro uuid_chars_mono)
  qed
  show ?thesis
  proof (cases a b rule: linorder_cases)
    case less
    then show ?thesis using up[OF less] by simp
  next
    case equal
    then show ?thesis by simp
  next
    case greater
    then show ?thesis using up[OF greater] by (auto dest: less_not_sym)
  qed
qed

section \<open>Operations with state and errors\<close>

text \<open>
  A Go function \<open>func(...) (T, error)\<close> that changes the store is a function from the
  state to a result (an error on the left, a value on the right) and the state after it.
  \<open>andthen\<close> is the idiom \<open>x, err := m(); if err != nil { return err }\<close>; \<open>handle\<close> also
  continues after an error.
\<close>

definition ret :: "'a \<Rightarrow> 's \<Rightarrow> ('e + 'a) \<times> 's" where
  "ret x s = (Inr x, s)"

definition raise :: "'e \<Rightarrow> 's \<Rightarrow> ('e + 'a) \<times> 's" where
  "raise e s = (Inl e, s)"

definition lift_res :: "'e + 'a \<Rightarrow> 's \<Rightarrow> ('e + 'a) \<times> 's" where
  "lift_res r s = (r, s)"

definition handle ::
  "('s \<Rightarrow> ('e + 'a) \<times> 's) \<Rightarrow> ('e \<Rightarrow> 's \<Rightarrow> ('f + 'b) \<times> 's) \<Rightarrow> ('a \<Rightarrow> 's \<Rightarrow> ('f + 'b) \<times> 's)
    \<Rightarrow> 's \<Rightarrow> ('f + 'b) \<times> 's" where
  "handle m h f s = (case m s of (Inl e, s') \<Rightarrow> h e s' | (Inr x, s') \<Rightarrow> f x s')"

definition andthen ::
  "('s \<Rightarrow> ('e + 'a) \<times> 's) \<Rightarrow> ('a \<Rightarrow> 's \<Rightarrow> ('e + 'b) \<times> 's) \<Rightarrow> 's \<Rightarrow> ('e + 'b) \<times> 's" where
  "andthen m f s = (case m s of (Inl e, s') \<Rightarrow> (Inl e, s') | (Inr x, s') \<Rightarrow> f x s')"

definition map_error :: "('e \<Rightarrow> 'f) \<Rightarrow> ('s \<Rightarrow> ('e + 'a) \<times> 's) \<Rightarrow> 's \<Rightarrow> ('f + 'a) \<times> 's" where
  "map_error g m s = (case m s of (Inl e, s') \<Rightarrow> (Inl (g e), s') | (Inr x, s') \<Rightarrow> (Inr x, s'))"

lemmas op_defs [op_simps] = ret_def raise_def lift_res_def handle_def andthen_def map_error_def

lemma andthen_Inr:
  "andthen m f s = (Inr y, s') \<longleftrightarrow> (\<exists>x s1. m s = (Inr x, s1) \<and> f x s1 = (Inr y, s'))"
  by (auto simp: andthen_def split: prod.splits sum.splits)

lemma andthen_InrE:
  assumes "andthen m f s = (Inr y, s')"
  obtains x s1 where "m s = (Inr x, s1)" "f x s1 = (Inr y, s')"
  using assms by (auto simp: andthen_Inr)

lemma andthen_InlE:
  assumes "andthen m f s = (Inl e, s')"
  obtains (here) "m s = (Inl e, s')"
    | (later) x s1 where "m s = (Inr x, s1)" "f x s1 = (Inl e, s')"
  using assms by (auto simp: andthen_def split: prod.splits sum.splits)

lemma map_error_Inr [simp]:
  "map_error g m s = (Inr x, s') \<longleftrightarrow> m s = (Inr x, s')"
  by (auto simp: map_error_def split: prod.splits sum.splits)

lemma map_error_Inl:
  "map_error g m s = (Inl f, s') \<longleftrightarrow> (\<exists>e. m s = (Inl e, s') \<and> f = g e)"
  by (auto simp: map_error_def split: prod.splits sum.splits)

subsection \<open>What an operation keeps\<close>

text \<open>
  \<open>keeps I m\<close>: whatever \<open>m\<close> returns, error or value, it takes a state with \<open>I\<close> to a
  state with \<open>I\<close>. The rules follow the shape of the combinators, so that a whole handler
  is discharged by \<open>intro\<close> from its statements.
\<close>

named_theorems keeps_intros \<open>preservation rules\<close>

definition keeps :: "('s \<Rightarrow> bool) \<Rightarrow> ('s \<Rightarrow> 'r \<times> 's) \<Rightarrow> bool" where
  "keeps I m \<longleftrightarrow> (\<forall>s. I s \<longrightarrow> I (snd (m s)))"

lemma keepsI: "(\<And>s r s'. I s \<Longrightarrow> m s = (r, s') \<Longrightarrow> I s') \<Longrightarrow> keeps I m"
  by (metis keeps_def prod.collapse)

lemma keepsD: "keeps I m \<Longrightarrow> I s \<Longrightarrow> m s = (r, s') \<Longrightarrow> I s'"
  by (metis keeps_def snd_conv)

lemma keeps_ret [keeps_intros]: "keeps I (ret x)"
  by (simp add: keeps_def ret_def)

lemma keeps_raise [keeps_intros]: "keeps I (raise e)"
  by (simp add: keeps_def raise_def)

lemma keeps_lift [keeps_intros]: "keeps I (lift_res r)"
  by (simp add: keeps_def lift_res_def)

lemma keeps_andthen [keeps_intros]:
  "keeps I m \<Longrightarrow> (\<And>x. keeps I (f x)) \<Longrightarrow> keeps I (andthen m f)"
  by (fastforce simp: keeps_def andthen_def split: prod.splits sum.splits)

lemma keeps_handle [keeps_intros]:
  "keeps I m \<Longrightarrow> (\<And>e. keeps I (h e)) \<Longrightarrow> (\<And>x. keeps I (f x)) \<Longrightarrow> keeps I (handle m h f)"
  by (fastforce simp: keeps_def handle_def split: prod.splits sum.splits)

lemma keeps_map_error [keeps_intros]: "keeps I m \<Longrightarrow> keeps I (map_error g m)"
  by (fastforce simp: keeps_def map_error_def split: prod.splits sum.splits)

lemma keeps_if [keeps_intros]:
  "keeps I m \<Longrightarrow> keeps I n \<Longrightarrow> keeps I (if b then m else n)"
  by simp

lemma keeps_case_prod [keeps_intros]:
  "(\<And>x y. keeps I (f x y)) \<Longrightarrow> keeps I (case p of (x, y) \<Rightarrow> f x y)"
  by (cases p) simp

lemma keeps_let [keeps_intros]: "keeps I (f x) \<Longrightarrow> keeps I (let y = x in f y)"
  by simp

section \<open>Lists of rows\<close>

text \<open>
  A table is the list of its rows in insertion order. \<open>replace_by k v f\<close> is an
  \<open>UPDATE ... WHERE k = v\<close>.
\<close>

definition replace_by :: "('r \<Rightarrow> 'k) \<Rightarrow> 'k \<Rightarrow> ('r \<Rightarrow> 'r) \<Rightarrow> 'r list \<Rightarrow> 'r list" where
  "replace_by k v f = map (\<lambda>r. if k r = v then f r else r)"

lemma replace_by_Nil [simp]: "replace_by k v f [] = []"
  by (simp add: replace_by_def)

lemma replace_by_Cons [simp]:
  "replace_by k v f (x # xs) = (if k x = v then f x else x) # replace_by k v f xs"
  by (simp add: replace_by_def)

lemma length_replace_by [simp]: "length (replace_by k v f xs) = length xs"
  by (simp add: replace_by_def)

lemma map_replace_by [row_simps]:
  "(\<And>r. g (f r) = g r) \<Longrightarrow> map g (replace_by k v f xs) = map g xs"
  by (simp add: replace_by_def)

lemma in_set_replace_by:
  "r \<in> set (replace_by k v f xs) \<longleftrightarrow>
     (\<exists>q \<in> set xs. r = (if k q = v then f q else q))"
  by (force simp: replace_by_def)

lemma replace_by_absent: "v \<notin> k ` set xs \<Longrightarrow> replace_by k v f xs = xs"
  by (induction xs) auto

lemma find_Some_set: "find P xs = Some x \<Longrightarrow> x \<in> set xs \<and> P x"
  by (auto simp: find_Some_iff in_set_conv_nth)

lemma find_None_set: "find P xs = None \<longleftrightarrow> (\<forall>x \<in> set xs. \<not> P x)"
  by (auto simp: find_None_iff)

lemma find_append: "find P (xs @ ys) = (case find P xs of Some x \<Rightarrow> Some x | None \<Rightarrow> find P ys)"
  by (induction xs) auto

lemma find_replace_by:
  assumes "\<And>r. k (f r) = k r"
  shows "find (\<lambda>r. k r = w) (replace_by k v f xs) =
    map_option (\<lambda>r. if w = v then f r else r) (find (\<lambda>r. k r = w) xs)"
  by (induction xs) (auto simp: assms)

lemma distinct_key_eq:
  "distinct (map k xs) \<Longrightarrow> x \<in> set xs \<Longrightarrow> y \<in> set xs \<Longrightarrow> k x = k y \<Longrightarrow> x = y"
  by (induction xs) (auto simp: image_iff)

lemma find_key_in:
  "distinct (map k xs) \<Longrightarrow> x \<in> set xs \<Longrightarrow> find (\<lambda>r. k r = k x) xs = Some x"
  by (induction xs) (auto simp: image_iff)

lemma find_key_iff:
  "distinct (map k xs) \<Longrightarrow> find (\<lambda>r. k r = v) xs = Some x \<longleftrightarrow> x \<in> set xs \<and> k x = v"
  using find_key_in find_Some_set by fastforce

lemma find_key_exists:
  "v \<in> k ` set xs \<Longrightarrow> \<exists>x. find (\<lambda>r. k r = v) xs = Some x"
  by (induction xs) auto

lemma sum_list_replace_by:
  fixes g :: "'r \<Rightarrow> int"
  assumes "distinct (map k xs)" "x \<in> set xs" "k x = v"
  shows "sum_list (map g (replace_by k v f xs)) = sum_list (map g xs) - g x + g (f x)"
  using assms
proof (induction xs)
  case Nil
  then show ?case by simp
next
  case (Cons y ys)
  show ?case
  proof (cases "k y = v")
    case True
    with Cons.prems have "x = y" by (auto simp: image_iff)
    moreover have "replace_by k v f ys = ys"
      using Cons.prems True by (intro replace_by_absent) auto
    ultimately show ?thesis using True by simp
  next
    case False
    then show ?thesis using Cons by auto
  qed
qed

section \<open>Instants with an identifier\<close>

text \<open>
  The lists the API shows newest first are ordered by \<open>(created_at, id)\<close>: by instant,
  ties broken by identifier. \<open>stamp\<close> is that pair with SQL's row comparison as its
  order; a notification cursor is a stamp too.
\<close>

datatype stamp = Stamp (stamp_time: time) (stamp_id: uuid)

instantiation stamp :: linorder
begin

definition less_eq_stamp :: "stamp \<Rightarrow> stamp \<Rightarrow> bool" where
  "less_eq_stamp a b \<longleftrightarrow>
     stamp_time a < stamp_time b \<or> (stamp_time a = stamp_time b \<and> stamp_id a \<le> stamp_id b)"

definition less_stamp :: "stamp \<Rightarrow> stamp \<Rightarrow> bool" where
  "less_stamp a b \<longleftrightarrow>
     stamp_time a < stamp_time b \<or> (stamp_time a = stamp_time b \<and> stamp_id a < stamp_id b)"

instance
  by standard (auto simp: less_eq_stamp_def less_stamp_def stamp.expand)

end

text \<open>\<open>ORDER BY created_at DESC, id DESC\<close>\<close>

definition newest_first :: "('r \<Rightarrow> stamp) \<Rightarrow> 'r list \<Rightarrow> 'r list" where
  "newest_first key rows = rev (sort_key key rows)"

lemma set_newest_first [simp]: "set (newest_first key rows) = set rows"
  by (simp add: newest_first_def)

lemma length_newest_first [simp]: "length (newest_first key rows) = length rows"
  by (simp add: newest_first_def)

lemma sorted_newest_first:
  "sorted_wrt (\<lambda>a b. key b \<le> key a) (newest_first key rows)"
proof -
  have "sorted_wrt (\<lambda>a b. key a \<le> key b) (sort_key key rows)"
    using sorted_sort_key [of key rows] by (simp add: sorted_map)
  then show ?thesis by (simp add: newest_first_def sorted_wrt_rev)
qed

end
