(* ===== verification/Currency.thy ===== *)
theory Currency
  imports Prelude
begin

text \<open>
  \<open>internal/currency/currency.go\<close>: the supported currency codes and the largest amount
  of minor units a JSON number carries without loss.
\<close>

definition USD :: string where "USD = ''USD''"
definition EUR :: string where "EUR = ''EUR''"
definition VND :: string where "VND = ''VND''"

definition MaxSafeMinorUnits :: int where
  "MaxSafeMinorUnits = 2 ^ 53 - 1"

definition IsSupported :: "string \<Rightarrow> bool" where
  "IsSupported cur \<longleftrightarrow> cur = USD \<or> cur = EUR \<or> cur = VND"

lemmas currency_codes = USD_def EUR_def VND_def

lemma MaxSafe_numeral: "MaxSafeMinorUnits = 9007199254740991"
  by (simp add: MaxSafeMinorUnits_def)

lemma MaxSafe_pos [simp]: "0 < MaxSafeMinorUnits" "0 \<le> MaxSafeMinorUnits"
  by (simp_all add: MaxSafe_numeral)

text \<open>
  Differences and negations of supported amounts stay far inside \<open>int64\<close>, so the
  wrap-around of Go's arithmetic does not show.
\<close>

lemma wrap64_neg_safe: "0 \<le> a \<Longrightarrow> a \<le> MaxSafeMinorUnits \<Longrightarrow> wrap64 (- a) = - a"
  by (intro wrap64_id) (simp_all add: MaxSafe_numeral)

lemma wrap64_diff_safe:
  "0 \<le> a \<Longrightarrow> a \<le> MaxSafeMinorUnits \<Longrightarrow> is_int64 b \<Longrightarrow> 0 \<le> b \<Longrightarrow> wrap64 (b - a) = b - a"
  by (intro wrap64_id) (simp_all add: MaxSafe_numeral is_int64_def)

lemma MaxSafe_int64 [simp]: "is_int64 MaxSafeMinorUnits"
  by (simp add: is_int64_def MaxSafe_numeral)

end
