(* ===== verification/Go_Errors.thy ===== *)
theory Go_Errors
  imports Prelude
begin

text \<open>
  Errors as values. A Go \<open>error\<close> is one of the store's sentinels
  (\<open>internal/db/errors.go\<close>), a token sentinel (\<open>internal/token/maker.go\<close>), an error of
  the database driver, an API error, or one of these wrapped by \<open>fmt.Errorf("...: %w")\<close>
  or joined by \<open>errors.Join\<close>. \<open>errors_is\<close> and \<open>as_pg_error\<close> are \<open>errors.Is\<close> and
  \<open>errors.AsType[*pgconn.PgError]\<close>, which look through wrapping and joining.
\<close>

datatype go_error =
    ErrNoRows
  | PgError string string \<comment> \<open>SQLSTATE code and constraint name\<close>
  | DriverError string \<comment> \<open>lost connection, cancelled context, deadlock, ...\<close>
  | ErrRecordNotFound
  | ErrUsernameExists
  | ErrEmailExists
  | ErrUniqueViolation
  | ErrForeignKeyViolation
  | ErrInsufficientBalance
  | ErrBalanceLimitExceeded
  | ErrCurrencyMismatch
  | ErrNumericOutOfRange
  | ErrDailyLimitExceeded
  | ErrIdempotencyConflict
  | ErrInvalidSession
  | ErrSessionIDMismatch
  | ErrExpiredToken
  | ErrInvalidToken
  | ApiError int string string \<comment> \<open>status, code, message\<close>
  | HTTPError int \<comment> \<open>an error of the HTTP framework with its status\<close>
  | PlainError string
  | Panic string \<comment> \<open>a run-time panic that reached the boundary of the operation\<close>
  | Wrapped string go_error
  | Joined "go_error list"

fun errors_is :: "go_error \<Rightarrow> go_error \<Rightarrow> bool" where
  "errors_is (Wrapped m e) t \<longleftrightarrow> Wrapped m e = t \<or> errors_is e t"
| "errors_is (Joined es) t \<longleftrightarrow> Joined es = t \<or> (\<exists>e \<in> set es. errors_is e t)"
| "errors_is e t \<longleftrightarrow> e = t"

fun as_pg_error :: "go_error \<Rightarrow> (string \<times> string) option"
  and first_pg_error :: "go_error list \<Rightarrow> (string \<times> string) option" where
  "as_pg_error (PgError code con) = Some (code, con)"
| "as_pg_error (Wrapped m e) = as_pg_error e"
| "as_pg_error (Joined es) = first_pg_error es"
| "as_pg_error e = None"
| "first_pg_error [] = None"
| "first_pg_error (e # es) =
     (case as_pg_error e of Some p \<Rightarrow> Some p | None \<Rightarrow> first_pg_error es)"

definition ClassifyError :: "go_error \<Rightarrow> go_error" where
  "ClassifyError err =
    (if errors_is err ErrNoRows then ErrRecordNotFound
     else case as_pg_error err of
       Some (code, con) \<Rightarrow>
         (if code = ''23505'' then
            (if con = ''users_username_key'' then ErrUsernameExists
             else if con = ''users_email_key'' then ErrEmailExists
             else ErrUniqueViolation)
          else if code = ''23503'' then ErrForeignKeyViolation
          else if code = ''23514'' then
            (if con = ''accounts_balance_javascript_safe'' then ErrBalanceLimitExceeded else err)
          else if code = ''22003'' then ErrNumericOutOfRange
          else err)
     | None \<Rightarrow> err)"

lemma errors_is_refl [simp]: "errors_is e e"
  by (cases e) simp_all

lemma ClassifyError_simps [simp]:
  "ClassifyError ErrNoRows = ErrRecordNotFound"
  "ClassifyError (DriverError m) = DriverError m"
  "ClassifyError ErrRecordNotFound = ErrRecordNotFound"
  "ClassifyError ErrUsernameExists = ErrUsernameExists"
  "ClassifyError ErrEmailExists = ErrEmailExists"
  "ClassifyError ErrUniqueViolation = ErrUniqueViolation"
  "ClassifyError ErrForeignKeyViolation = ErrForeignKeyViolation"
  "ClassifyError ErrInsufficientBalance = ErrInsufficientBalance"
  "ClassifyError ErrBalanceLimitExceeded = ErrBalanceLimitExceeded"
  "ClassifyError ErrCurrencyMismatch = ErrCurrencyMismatch"
  "ClassifyError ErrNumericOutOfRange = ErrNumericOutOfRange"
  "ClassifyError ErrDailyLimitExceeded = ErrDailyLimitExceeded"
  "ClassifyError ErrIdempotencyConflict = ErrIdempotencyConflict"
  "ClassifyError ErrInvalidSession = ErrInvalidSession"
  "ClassifyError ErrSessionIDMismatch = ErrSessionIDMismatch"
  "ClassifyError (ApiError st cd msg) = ApiError st cd msg"
  by (simp_all add: ClassifyError_def)

lemma ClassifyError_cases:
  "ClassifyError e = e \<or>
   ClassifyError e \<in> {ErrRecordNotFound, ErrUsernameExists, ErrEmailExists, ErrUniqueViolation,
     ErrForeignKeyViolation, ErrBalanceLimitExceeded, ErrNumericOutOfRange}"
  by (simp add: ClassifyError_def split: option.split)

text \<open>The handlers classify errors the store has already classified; that changes nothing.\<close>

lemma ClassifyError_idem [simp]: "ClassifyError (ClassifyError e) = ClassifyError e"
  using ClassifyError_cases [of e] by (elim disjE) auto

lemma ClassifyError_PgError [simp]:
  "ClassifyError (PgError ''23505'' con) =
     (if con = ''users_username_key'' then ErrUsernameExists
      else if con = ''users_email_key'' then ErrEmailExists else ErrUniqueViolation)"
  "ClassifyError (PgError ''23503'' con) = ErrForeignKeyViolation"
  "ClassifyError (PgError ''23514'' con) =
     (if con = ''accounts_balance_javascript_safe'' then ErrBalanceLimitExceeded
      else PgError ''23514'' con)"
  "ClassifyError (PgError ''22003'' con) = ErrNumericOutOfRange"
  by (simp_all add: ClassifyError_def)

end
