(* ===== verification/Schema.thy ===== *)
theory Schema
  imports Currency Go_Errors
begin

text \<open>
  The data model: the rows of \<open>internal/db/sqlc/models.go\<close>, the tables created by the
  migrations under \<open>internal/db/migrations\<close>, and \<open>schema_ok\<close>, the conjunction of the
  constraints those migrations leave in force (primary keys, UNIQUE, CHECK, REFERENCES).
\<close>

section \<open>Rows\<close>

record account =
  acc_id :: uuid
  acc_owner :: string
  acc_balance :: int
  acc_currency :: string
  acc_created_at :: time

record entry =
  ent_id :: uuid
  ent_account_id :: uuid
  ent_amount :: int
  ent_created_at :: time

record notification =
  ntf_id :: uuid
  ntf_owner :: string
  ntf_account_id :: uuid
  ntf_transfer_id :: uuid
  ntf_direction :: string
  ntf_amount :: int
  ntf_currency :: string
  ntf_balance :: int
  ntf_read_at :: "time option"
  ntf_created_at :: time

record session =
  ses_id :: uuid
  ses_username :: string
  ses_refresh_token :: string
  ses_user_agent :: string
  ses_client_ip :: string
  ses_is_blocked :: bool
  ses_expires_at :: time
  ses_created_at :: time

record transfer =
  tr_id :: uuid
  tr_from_account_id :: uuid
  tr_to_account_id :: uuid
  tr_amount :: int
  tr_created_at :: time
  tr_idempotency_key :: uuid

record user =
  usr_id :: uuid
  usr_username :: string
  usr_hashed_password :: string
  usr_full_name :: string
  usr_email :: string
  usr_is_email_verified :: bool
  usr_password_changed_at :: time
  usr_created_at :: time

record verify_email =
  ve_id :: uuid
  ve_username :: string
  ve_email :: string
  ve_secret_code :: string
  ve_is_used :: bool
  ve_created_at :: time
  ve_expired_at :: time

text \<open>The payloads of the two background jobs, which River keeps in the same database.\<close>

datatype job =
    SendVerifyEmailArgs string \<comment> \<open>username\<close>
  | SendRegistrationNoticeArgs string \<comment> \<open>email\<close>

section \<open>Tables\<close>

text \<open>
  \<open>notified\<close> is the stream of \<open>pg_notify\<close> messages of committed transactions on the
  channel \<open>balance_notifications\<close>, as (notification id, owner).
\<close>

record db =
  users :: "user list"
  verify_emails :: "verify_email list"
  accounts :: "account list"
  entries :: "entry list"
  transfers :: "transfer list"
  notifications :: "notification list"
  sessions :: "session list"
  jobs :: "job list"
  notified :: "(uuid \<times> string) list"

definition empty_db :: db where
  "empty_db = \<lparr>users = [], verify_emails = [], accounts = [], entries = [], transfers = [],
     notifications = [], sessions = [], jobs = [], notified = []\<rparr>"

section \<open>Constraints\<close>

definition users_ok :: "db \<Rightarrow> bool" where
  "users_ok d \<longleftrightarrow> distinct (map usr_id (users d)) \<and> distinct (map usr_username (users d)) \<and>
     distinct (map usr_email (users d))"

definition verify_emails_ok :: "db \<Rightarrow> bool" where
  "verify_emails_ok d \<longleftrightarrow> distinct (map ve_id (verify_emails d)) \<and>
     (\<forall>v \<in> set (verify_emails d). ve_username v \<in> usr_username ` set (users d))"

definition accounts_ok :: "db \<Rightarrow> bool" where
  "accounts_ok d \<longleftrightarrow> distinct (map acc_id (accounts d)) \<and>
     distinct (map (\<lambda>a. (acc_owner a, acc_currency a)) (accounts d)) \<and>
     (\<forall>a \<in> set (accounts d). 0 \<le> acc_balance a \<and> acc_balance a \<le> MaxSafeMinorUnits \<and>
        acc_owner a \<in> usr_username ` set (users d))"

definition entries_ok :: "db \<Rightarrow> bool" where
  "entries_ok d \<longleftrightarrow> distinct (map ent_id (entries d)) \<and>
     (\<forall>e \<in> set (entries d). - MaxSafeMinorUnits \<le> ent_amount e \<and>
        ent_amount e \<le> MaxSafeMinorUnits \<and> ent_account_id e \<in> acc_id ` set (accounts d))"

definition transfers_ok :: "db \<Rightarrow> bool" where
  "transfers_ok d \<longleftrightarrow> distinct (map tr_id (transfers d)) \<and>
     distinct (map (\<lambda>t. (tr_from_account_id t, tr_idempotency_key t)) (transfers d)) \<and>
     (\<forall>t \<in> set (transfers d). 0 < tr_amount t \<and> tr_amount t \<le> MaxSafeMinorUnits \<and>
        tr_from_account_id t \<in> acc_id ` set (accounts d) \<and>
        tr_to_account_id t \<in> acc_id ` set (accounts d))"

definition notifications_ok :: "db \<Rightarrow> bool" where
  "notifications_ok d \<longleftrightarrow> distinct (map ntf_id (notifications d)) \<and>
     distinct (map (\<lambda>n. (ntf_transfer_id n, ntf_account_id n)) (notifications d)) \<and>
     (\<forall>n \<in> set (notifications d).
        (ntf_direction n = ''sent'' \<or> ntf_direction n = ''received'') \<and>
        0 < ntf_amount n \<and> ntf_amount n \<le> MaxSafeMinorUnits \<and>
        0 \<le> ntf_balance n \<and> ntf_balance n \<le> MaxSafeMinorUnits \<and>
        ntf_owner n \<in> usr_username ` set (users d) \<and>
        ntf_account_id n \<in> acc_id ` set (accounts d) \<and>
        ntf_transfer_id n \<in> tr_id ` set (transfers d))"

definition sessions_ok :: "db \<Rightarrow> bool" where
  "sessions_ok d \<longleftrightarrow> distinct (map ses_id (sessions d)) \<and>
     (\<forall>x \<in> set (sessions d). ses_username x \<in> usr_username ` set (users d))"

definition schema_ok :: "db \<Rightarrow> bool" where
  "schema_ok d \<longleftrightarrow> users_ok d \<and> verify_emails_ok d \<and> accounts_ok d \<and> entries_ok d \<and>
     transfers_ok d \<and> notifications_ok d \<and> sessions_ok d"

lemmas table_ok_defs = users_ok_def verify_emails_ok_def accounts_ok_def entries_ok_def
  transfers_ok_def notifications_ok_def sessions_ok_def

lemmas schema_defs = schema_ok_def table_ok_defs

lemma schema_ok_empty [simp]: "schema_ok empty_db"
  by (simp add: schema_defs empty_db_def)

section \<open>The ledger\<close>

text \<open>
  What double entry promises on top of the schema: the balance of an account is the sum
  of its entries.
\<close>

definition entry_sum :: "db \<Rightarrow> uuid \<Rightarrow> int" where
  "entry_sum d i = sum_list (map ent_amount (filter (\<lambda>e. ent_account_id e = i) (entries d)))"

definition ledger_ok :: "db \<Rightarrow> bool" where
  "ledger_ok d \<longleftrightarrow> (\<forall>a \<in> set (accounts d). acc_balance a = entry_sum d (acc_id a))"

definition total_balance :: "db \<Rightarrow> int" where
  "total_balance d = sum_list (map acc_balance (accounts d))"

text \<open>
  The invariant of the books: the schema's constraints, every balance equal to the sum of
  its entries, and no transfer from an account to itself.
\<close>

definition books_ok :: "db \<Rightarrow> bool" where
  "books_ok d \<longleftrightarrow> schema_ok d \<and> ledger_ok d \<and>
     (\<forall>t \<in> set (transfers d). tr_from_account_id t \<noteq> tr_to_account_id t)"

definition find_account :: "uuid \<Rightarrow> db \<Rightarrow> account option" where
  "find_account i d = find (\<lambda>a. acc_id a = i) (accounts d)"

definition find_transfer_by_key :: "uuid \<Rightarrow> uuid \<Rightarrow> db \<Rightarrow> transfer option" where
  "find_transfer_by_key from key d =
     find (\<lambda>t. tr_from_account_id t = from \<and> tr_idempotency_key t = key) (transfers d)"

lemma find_account_Some: "find_account i d = Some a \<Longrightarrow> a \<in> set (accounts d) \<and> acc_id a = i"
  by (auto simp: find_account_def dest: find_Some_set)

lemma find_account_iff:
  "accounts_ok d \<Longrightarrow> find_account i d = Some a \<longleftrightarrow> a \<in> set (accounts d) \<and> acc_id a = i"
  by (simp add: find_account_def accounts_ok_def find_key_iff)

lemma find_transfer_by_key_Some:
  "find_transfer_by_key from key d = Some t \<Longrightarrow>
     t \<in> set (transfers d) \<and> tr_from_account_id t = from \<and> tr_idempotency_key t = key"
  by (auto simp: find_transfer_by_key_def dest: find_Some_set)

lemma find_transfer_by_key_iff:
  assumes "transfers_ok d"
  shows "find_transfer_by_key from key d = Some t \<longleftrightarrow>
    t \<in> set (transfers d) \<and> tr_from_account_id t = from \<and> tr_idempotency_key t = key"
  using find_key_iff [of "\<lambda>t. (tr_from_account_id t, tr_idempotency_key t)" "transfers d"
      "(from, key)" t] assms
  by (simp add: find_transfer_by_key_def transfers_ok_def)

end
