(* ===== verification/Postgres.thy ===== *)
theory Postgres
  imports Schema
begin

text \<open>
  Running statements and transactions, as \<open>pgx\<close> and PostgreSQL document them and as
  \<open>internal/db/store.go\<close> uses them.

  Everything the database decides by itself is a parameter, the environment \<open>pg_env\<close>,
  read at the number of the statement being run: the identifier \<open>uuidv7()\<close> returns, the
  time of the server's clock, a failure of the driver (a lost connection, a cancelled
  context, a deadlock victim), and how a COMMIT ends. A commit can fail and roll back, or
  take effect while its acknowledgement is lost: then the caller sees an error although
  the change is durable. The theorems hold for every environment unless they say
  otherwise.
\<close>

datatype commit_outcome =
    Committed
  | CommitFailed string \<comment> \<open>rolled back, error reported\<close>
  | CommitLost string \<comment> \<open>durable, error reported\<close>

record pg_env =
  uuid_at :: "nat \<Rightarrow> uuid"
  time_at :: "nat \<Rightarrow> time"
  fault_at :: "nat \<Rightarrow> string option"
  commit_at :: "nat \<Rightarrow> commit_outcome"

text \<open>
  Locks a transaction takes explicitly: a row lock by \<open>SELECT ... FOR [NO KEY] UPDATE\<close>
  and the advisory lock of a notification owner.
\<close>

datatype lock =
    AccountRow uuid
  | SessionRow uuid
  | NotificationOwner string

text \<open>
  The state of a connection: the tables it sees, the number of statements run, and, within
  a transaction, its start time (the value of \<open>now()\<close>), the notifications it will send
  at commit, and the locks it holds, oldest first.
\<close>

record pg =
  tables :: db
  tick :: nat
  tx_start :: "time option"
  pending :: "(uuid \<times> string) list"
  held :: "lock list"

definition connect_db :: "db \<Rightarrow> pg" where
  "connect_db d = \<lparr>tables = d, tick = 0, tx_start = None, pending = [], held = []\<rparr>"

section \<open>Statements\<close>

text \<open>The volatile functions a statement can call.\<close>

record sql_ctx =
  gen_uuid :: uuid \<comment> \<open>\<open>uuidv7()\<close>\<close>
  now :: time \<comment> \<open>\<open>now()\<close>, the start of the transaction\<close>
  clock :: time \<comment> \<open>\<open>clock_timestamp()\<close>\<close>

type_synonym 'a sql = "sql_ctx \<Rightarrow> db \<Rightarrow> go_error + ('a \<times> db)"
type_synonym 'a pg_op = "pg \<Rightarrow> (go_error + 'a) \<times> pg"

definition ctx_of :: "pg_env \<Rightarrow> pg \<Rightarrow> sql_ctx" where
  "ctx_of env s =
     \<lparr>gen_uuid = uuid_at env (tick s),
      now = (case tx_start s of Some t \<Rightarrow> t | None \<Rightarrow> time_at env (tick s)),
      clock = time_at env (tick s)\<rparr>"

definition step_tick :: "pg \<Rightarrow> pg" where
  "step_tick s = s\<lparr>tick := Suc (tick s)\<rparr>"

definition run_sql :: "pg_env \<Rightarrow> 'a sql \<Rightarrow> 'a pg_op" where
  "run_sql env q s =
     (case fault_at env (tick s) of
        Some m \<Rightarrow> (Inl (DriverError m), step_tick s)
      | None \<Rightarrow>
          (case q (ctx_of env s) (tables s) of
             Inl e \<Rightarrow> (Inl e, step_tick s)
           | Inr (x, d) \<Rightarrow> (Inr x, (step_tick s)\<lparr>tables := d\<rparr>)))"

definition hold :: "lock \<Rightarrow> unit pg_op" where
  "hold l s = (Inr (), if l \<in> set (held s) then s else s\<lparr>held := held s @ [l]\<rparr>)"

definition query_row :: "(db \<Rightarrow> 'a option) \<Rightarrow> 'a sql" where
  \<comment> \<open>\<open>QueryRow(...).Scan(...)\<close>: no row is \<open>pgx.ErrNoRows\<close>\<close>
  "query_row f c d = (case f d of None \<Rightarrow> Inl ErrNoRows | Some x \<Rightarrow> Inr (x, d))"

section \<open>Transactions\<close>

text \<open>
  \<open>pgx.BeginTxFunc\<close>: begin, run the function, commit when it returns no error, roll back
  otherwise. A rollback undoes the tables and drops the pending notifications; the
  statement counter, that is time and the supply of identifiers, goes on.
\<close>

definition end_tx :: "pg \<Rightarrow> pg" where
  "end_tx s = s\<lparr>tx_start := None, pending := [], held := []\<rparr>"

definition rollback :: "pg \<Rightarrow> pg \<Rightarrow> pg" where
  "rollback s0 s1 = end_tx (s1\<lparr>tables := tables s0\<rparr>)"

definition publish_pending :: "pg \<Rightarrow> db" where
  "publish_pending s = (tables s)\<lparr>notified := notified (tables s) @ pending s\<rparr>"

definition commit :: "pg \<Rightarrow> pg" where
  "commit s = end_tx (s\<lparr>tables := publish_pending s\<rparr>)"

definition begin_tx :: "pg_env \<Rightarrow> pg \<Rightarrow> pg" where
  "begin_tx env s =
     (step_tick s)\<lparr>tx_start := Some (time_at env (tick s)), pending := [], held := []\<rparr>"

definition BeginTxFunc :: "pg_env \<Rightarrow> 'a pg_op \<Rightarrow> 'a pg_op" where
  "BeginTxFunc env fn s =
     (case fault_at env (tick s) of
        Some m \<Rightarrow> (Inl (DriverError m), step_tick s)
      | None \<Rightarrow>
          (case fn (begin_tx env s) of
             (Inl e, s1) \<Rightarrow> (Inl e, rollback s s1)
           | (Inr x, s1) \<Rightarrow>
               (case commit_at env (tick s1) of
                  Committed \<Rightarrow> (Inr x, commit (step_tick s1))
                | CommitFailed m \<Rightarrow> (Inl (DriverError m), rollback s (step_tick s1))
                | CommitLost m \<Rightarrow> (Inl (DriverError m), commit (step_tick s1)))))"

text \<open>
  \<open>execTxOptions\<close> passes the options on; the isolation levels the store asks for
  (the default, READ COMMITTED, and REPEATABLE READ) do not differ for one transaction at
  a time.
\<close>

datatype iso_level = ReadCommitted | RepeatableRead

definition execTxOptions :: "pg_env \<Rightarrow> iso_level \<Rightarrow> 'a pg_op \<Rightarrow> 'a pg_op" where
  "execTxOptions env opts fn = BeginTxFunc env fn"

definition execTx :: "pg_env \<Rightarrow> 'a pg_op \<Rightarrow> 'a pg_op" where
  "execTx env fn = execTxOptions env ReadCommitted fn"

lemmas execTx_defs = execTx_def execTxOptions_def

lemmas pg_run_defs = run_sql_def BeginTxFunc_def begin_tx_def rollback_def commit_def end_tx_def
  publish_pending_def step_tick_def ctx_of_def hold_def

subsection \<open>Facts about statements\<close>

lemma step_tick_sel [simp]:
  "tables (step_tick s) = tables s" "tick (step_tick s) = Suc (tick s)"
  "tx_start (step_tick s) = tx_start s" "pending (step_tick s) = pending s"
  "held (step_tick s) = held s"
  by (simp_all add: step_tick_def)

lemma begin_tx_sel [simp]:
  "tables (begin_tx env s) = tables s" "tick (begin_tx env s) = Suc (tick s)"
  "tx_start (begin_tx env s) = Some (time_at env (tick s))" "pending (begin_tx env s) = []"
  "held (begin_tx env s) = []"
  by (simp_all add: begin_tx_def)

lemma end_tx_sel [simp]:
  "tables (end_tx s) = tables s" "tick (end_tx s) = tick s" "tx_start (end_tx s) = None"
  "pending (end_tx s) = []" "held (end_tx s) = []"
  by (simp_all add: end_tx_def)

lemma rollback_sel [simp]:
  "tables (rollback s0 s1) = tables s0" "tick (rollback s0 s1) = tick s1"
  "tx_start (rollback s0 s1) = None"
  by (simp_all add: rollback_def)

lemma commit_sel [simp]:
  "tables (commit s) = publish_pending s" "tick (commit s) = tick s" "tx_start (commit s) = None"
  by (simp_all add: commit_def)

lemma run_sql_InrE:
  assumes "run_sql env q s = (Inr x, s')"
  obtains d where "q (ctx_of env s) (tables s) = Inr (x, d)"
    "s' = (step_tick s)\<lparr>tables := d\<rparr>" "fault_at env (tick s) = None"
  using assms by (auto simp: run_sql_def split: option.splits sum.splits prod.splits)

lemma run_sql_Inl:
  "run_sql env q s = (Inl e, s') \<Longrightarrow> s' = step_tick s"
  by (auto simp: run_sql_def split: option.splits sum.splits prod.splits)

lemma run_sql_InlE:
  assumes "run_sql env q s = (Inl e, s')"
  obtains (fault) m where "fault_at env (tick s) = Some m" "e = DriverError m"
    | (sql) "fault_at env (tick s) = None" "q (ctx_of env s) (tables s) = Inl e"
  using assms by (auto simp: run_sql_def split: option.splits sum.splits prod.splits)

lemma run_sql_ok:
  "fault_at env (tick s) = None \<Longrightarrow>
     run_sql env q s =
       (case q (ctx_of env s) (tables s) of
          Inl e \<Rightarrow> (Inl e, step_tick s)
        | Inr (x, d) \<Rightarrow> (Inr x, (step_tick s)\<lparr>tables := d\<rparr>))"
  by (simp add: run_sql_def)

lemma hold_sel [simp]:
  "fst (hold l s) = Inr ()" "tables (snd (hold l s)) = tables s" "tick (snd (hold l s)) = tick s"
  by (simp_all add: hold_def)

lemma query_row_Inr [simp]:
  "query_row f c d = Inr (x, d') \<longleftrightarrow> f d = Some x \<and> d' = d"
  by (auto simp: query_row_def split: option.splits)

lemma query_row_Inl [simp]:
  "query_row f c d = Inl e \<longleftrightarrow> f d = None \<and> e = ErrNoRows"
  by (auto simp: query_row_def split: option.splits)

section \<open>The contract of a transaction\<close>

text \<open>
  \<open>on_tables I\<close> reads a property of the tables off a connection. The locale states what
  a transaction body owes its caller: a property of the tables that it restores whenever
  it returns without an error (nothing is asked of a body that fails, since it is rolled
  back), and that sending the pending notifications does not break. The whole
  transaction then keeps the property however it ends.
\<close>

definition on_tables :: "(db \<Rightarrow> bool) \<Rightarrow> pg \<Rightarrow> bool" where
  "on_tables I s \<longleftrightarrow> I (tables s)"

locale tx_body =
  fixes body :: "'a pg_op"
    and I :: "db \<Rightarrow> bool"
  assumes body_keeps: "body s = (Inr x, s') \<Longrightarrow> I (tables s) \<Longrightarrow> tx_start s \<noteq> None \<Longrightarrow>
      pending s = [] \<Longrightarrow> I (tables s')"
    and notified_free: "I d \<Longrightarrow> I (d\<lparr>notified := ns\<rparr>)"
begin

lemma BeginTxFunc_keeps:
  assumes "I (tables s)" and run: "BeginTxFunc env body s = (r, s')"
  shows "I (tables s')"
proof (cases "fault_at env (tick s)")
  case (Some m)
  with assms show ?thesis by (auto simp: BeginTxFunc_def)
next
  case None
  obtain r1 s1 where b: "body (begin_tx env s) = (r1, s1)" by (cases "body (begin_tx env s)")
  show ?thesis
  proof (cases r1)
    case (Inl e)
    with None b run assms(1) show ?thesis by (auto simp: BeginTxFunc_def)
  next
    case (Inr x)
    with b have "body (begin_tx env s) = (Inr x, s1)" by simp
    then have "I (tables s1)" using assms(1) body_keeps by fastforce
    then have "I (publish_pending (step_tick s1))"
      by (simp add: publish_pending_def notified_free)
    with None b run assms(1) Inr show ?thesis
      by (auto simp: BeginTxFunc_def split: commit_outcome.splits)
  qed
qed

lemma execTx_keeps: "keeps (on_tables I) (execTx env body)"
  by (rule keepsI) (simp add: on_tables_def execTx_defs BeginTxFunc_keeps)

lemma execTxOptions_keeps: "keeps (on_tables I) (execTxOptions env opts body)"
  by (rule keepsI) (simp add: on_tables_def execTx_defs BeginTxFunc_keeps)

end

text \<open>What a transaction that returned a value did.\<close>

lemma execTx_InrE:
  assumes "execTx env body s = (Inr x, s')"
  obtains s1 where "body (begin_tx env s) = (Inr x, s1)" "s' = commit (step_tick s1)"
    "fault_at env (tick s) = None"
  using assms
  by (auto simp: execTx_defs BeginTxFunc_def split: option.splits prod.splits sum.splits
      commit_outcome.splits)

text \<open>A failed transaction left the tables alone, unless its commit was only lost.\<close>

lemma execTx_InlE:
  assumes "execTx env body s = (Inl e, s')"
  obtains (begin_fault) m where "fault_at env (tick s) = Some m" "e = DriverError m"
      "tables s' = tables s"
    | (body_error) s1 where "fault_at env (tick s) = None"
      "body (begin_tx env s) = (Inl e, s1)" "tables s' = tables s"
    | (failed) m where "e = DriverError m" "tables s' = tables s"
    | (lost) m x s1 where "e = DriverError m" "body (begin_tx env s) = (Inr x, s1)"
        "s' = commit (step_tick s1)" "commit_at env (tick s1) = CommitLost m"
  using assms
  by (auto simp: execTx_defs BeginTxFunc_def split: option.splits prod.splits sum.splits
      commit_outcome.splits)

section \<open>A working database\<close>

text \<open>No statement fails and every commit succeeds.\<close>

definition healthy :: "pg_env \<Rightarrow> bool" where
  "healthy env \<longleftrightarrow> (\<forall>n. fault_at env n = None \<and> commit_at env n = Committed)"

lemma healthy_run [simp]:
  "healthy env \<Longrightarrow> run_sql env q s =
     (case q (ctx_of env s) (tables s) of
        Inl e \<Rightarrow> (Inl e, step_tick s)
      | Inr (x, d) \<Rightarrow> (Inr x, (step_tick s)\<lparr>tables := d\<rparr>))"
  by (simp add: run_sql_def healthy_def)

lemma healthy_execTx:
  "healthy env \<Longrightarrow> execTx env fn s =
     (case fn (begin_tx env s) of
        (Inl e, s1) \<Rightarrow> (Inl e, rollback s s1)
      | (Inr x, s1) \<Rightarrow> (Inr x, commit (step_tick s1)))"
  by (simp add: execTx_defs BeginTxFunc_def healthy_def split: prod.split sum.split)

end
