(* ===== verification/Queries.thy ===== *)
theory Queries
  imports Postgres
begin

text \<open>
  The SQL statements of \<open>internal/db/sqlc\<close> (generated from \<open>internal/db/query\<close>) and the
  methods of \<open>Queries\<close> that run them. For each: \<open>xxx_sql\<close> is the statement, with the
  constraint checks in PostgreSQL's order (CHECK by name, unique indexes by age, foreign
  keys), \<open>Xxx\<close> the Go method. \<open>Xxx_InrE\<close> says what a success did to the tables.
\<close>

named_theorems query_defs \<open>definitions of the SQL statements\<close>

section \<open>Accounts\<close>

definition addAccountBalance_sql :: "int \<Rightarrow> uuid \<Rightarrow> account sql" where
  "addAccountBalance_sql amt i c d =
     (case find_account i d of
        None \<Rightarrow> Inl ErrNoRows
      | Some a \<Rightarrow>
          let b = acc_balance a + amt in
          if \<not> is_int64 b then Inl (PgError ''22003'' '''')
          else if \<not> (0 \<le> b \<and> b \<le> 9007199254740991) then Inl ErrNoRows
          else Inr (a\<lparr>acc_balance := b\<rparr>,
                    d\<lparr>accounts := replace_by acc_id i (\<lambda>r. r\<lparr>acc_balance := acc_balance r + amt\<rparr>) (accounts d)\<rparr>))"

definition AddAccountBalance :: "pg_env \<Rightarrow> int \<Rightarrow> uuid \<Rightarrow> account pg_op" where
  "AddAccountBalance env amt i = run_sql env (addAccountBalance_sql amt i)"

definition createAccount_sql :: "string \<Rightarrow> int \<Rightarrow> string \<Rightarrow> account sql" where
  "createAccount_sql owner bal cur c d =
     (if bal > 9007199254740991 then Inl (PgError ''23514'' ''accounts_balance_javascript_safe'')
      else if bal < 0 then Inl (PgError ''23514'' ''accounts_balance_nonnegative'')
      else if gen_uuid c \<in> acc_id ` set (accounts d) then Inl (PgError ''23505'' ''accounts_pkey'')
      else if (owner, cur) \<in> (\<lambda>a. (acc_owner a, acc_currency a)) ` set (accounts d)
        then Inl (PgError ''23505'' ''accounts_owner_currency_key'')
      else if owner \<notin> usr_username ` set (users d)
        then Inl (PgError ''23503'' ''accounts_owner_fkey'')
      else
        let a = \<lparr>acc_id = gen_uuid c, acc_owner = owner, acc_balance = bal, acc_currency = cur,
                 acc_created_at = now c\<rparr>
        in Inr (a, d\<lparr>accounts := accounts d @ [a]\<rparr>))"

definition CreateAccount :: "pg_env \<Rightarrow> string \<Rightarrow> int \<Rightarrow> string \<Rightarrow> account pg_op" where
  "CreateAccount env owner bal cur = run_sql env (createAccount_sql owner bal cur)"

definition GetAccount :: "pg_env \<Rightarrow> uuid \<Rightarrow> account pg_op" where
  "GetAccount env i = run_sql env (query_row (find_account i))"

definition GetAccountForUpdate :: "pg_env \<Rightarrow> uuid \<Rightarrow> account pg_op" where
  "GetAccountForUpdate env i =
     andthen (run_sql env (query_row (find_account i)))
       (\<lambda>a. andthen (hold (AccountRow i)) (\<lambda>_. ret a))"

text \<open>\<open>LIMIT ... OFFSET ...\<close>: a negative number is an error.\<close>

definition page_of :: "int \<Rightarrow> int \<Rightarrow> 'r list \<Rightarrow> go_error + 'r list" where
  "page_of lim off rows =
     (if off < 0 then Inl (PgError ''2201X'' '''')
      else if lim < 0 then Inl (PgError ''2201W'' '''')
      else Inr (take (nat lim) (drop (nat off) rows)))"

definition query_page :: "int \<Rightarrow> int \<Rightarrow> (db \<Rightarrow> 'r list) \<Rightarrow> 'r list sql" where
  "query_page lim off f c d =
     (case page_of lim off (f d) of Inl e \<Rightarrow> Inl e | Inr rs \<Rightarrow> Inr (rs, d))"

definition listAccounts_sql :: "string \<Rightarrow> int \<Rightarrow> int \<Rightarrow> account list sql" where
  "listAccounts_sql owner lim off =
     query_page lim off (\<lambda>d. sort_key acc_id (filter (\<lambda>a. acc_owner a = owner) (accounts d)))"

definition ListAccounts :: "pg_env \<Rightarrow> string \<Rightarrow> int \<Rightarrow> int \<Rightarrow> account list pg_op" where
  "ListAccounts env owner lim off = run_sql env (listAccounts_sql owner lim off)"

section \<open>Entries\<close>

definition createEntry_sql :: "uuid \<Rightarrow> int \<Rightarrow> entry sql" where
  "createEntry_sql acct amt c d =
     (if \<not> (-9007199254740991 \<le> amt \<and> amt \<le> 9007199254740991)
        then Inl (PgError ''23514'' ''entries_amount_javascript_safe'')
      else if gen_uuid c \<in> ent_id ` set (entries d) then Inl (PgError ''23505'' ''entries_pkey'')
      else if acct \<notin> acc_id ` set (accounts d)
        then Inl (PgError ''23503'' ''entries_account_id_fkey'')
      else
        let e = \<lparr>ent_id = gen_uuid c, ent_account_id = acct, ent_amount = amt,
                 ent_created_at = now c\<rparr>
        in Inr (e, d\<lparr>entries := entries d @ [e]\<rparr>))"

definition CreateEntry :: "pg_env \<Rightarrow> uuid \<Rightarrow> int \<Rightarrow> entry pg_op" where
  "CreateEntry env acct amt = run_sql env (createEntry_sql acct amt)"

section \<open>Transfers\<close>

definition createTransfer_sql :: "uuid \<Rightarrow> uuid \<Rightarrow> int \<Rightarrow> uuid \<Rightarrow> transfer sql" where
  "createTransfer_sql from to amt key c d =
     (if \<not> amt > 0 then Inl (PgError ''23514'' ''transfers_amount_check'')
      else if \<not> amt \<le> 9007199254740991
        then Inl (PgError ''23514'' ''transfers_amount_javascript_safe'')
      else if gen_uuid c \<in> tr_id ` set (transfers d) then Inl (PgError ''23505'' ''transfers_pkey'')
      else if (from, key) \<in>
          (\<lambda>t. (tr_from_account_id t, tr_idempotency_key t)) ` set (transfers d)
        then Inl (PgError ''23505'' ''transfers_from_account_id_idempotency_key_key'')
      else if from \<notin> acc_id ` set (accounts d)
        then Inl (PgError ''23503'' ''transfers_from_account_id_fkey'')
      else if to \<notin> acc_id ` set (accounts d)
        then Inl (PgError ''23503'' ''transfers_to_account_id_fkey'')
      else
        let t = \<lparr>tr_id = gen_uuid c, tr_from_account_id = from, tr_to_account_id = to,
                 tr_amount = amt, tr_created_at = now c, tr_idempotency_key = key\<rparr>
        in Inr (t, d\<lparr>transfers := transfers d @ [t]\<rparr>))"

definition CreateTransfer :: "pg_env \<Rightarrow> uuid \<Rightarrow> uuid \<Rightarrow> int \<Rightarrow> uuid \<Rightarrow> transfer pg_op" where
  "CreateTransfer env from to amt key = run_sql env (createTransfer_sql from to amt key)"

definition GetTransferBySourceAndIdempotencyKey :: "pg_env \<Rightarrow> uuid \<Rightarrow> uuid \<Rightarrow> transfer pg_op" where
  "GetTransferBySourceAndIdempotencyKey env from key =
     run_sql env (query_row (find_transfer_by_key from key))"

definition listTransfersByAccount_sql :: "uuid \<Rightarrow> int \<Rightarrow> int \<Rightarrow> transfer list sql" where
  "listTransfersByAccount_sql acct off lim =
     query_page lim off (\<lambda>d. newest_first (\<lambda>t. Stamp (tr_created_at t) (tr_id t))
       (filter (\<lambda>t. tr_from_account_id t = acct \<or> tr_to_account_id t = acct) (transfers d)))"

definition ListTransfersByAccount :: "pg_env \<Rightarrow> uuid \<Rightarrow> int \<Rightarrow> int \<Rightarrow> transfer list pg_op" where
  "ListTransfersByAccount env acct off lim =
     run_sql env (listTransfersByAccount_sql acct off lim)"

definition outgoing_since :: "uuid \<Rightarrow> time \<Rightarrow> db \<Rightarrow> int" where
  "outgoing_since from t d =
     sum_list (map tr_amount
       (filter (\<lambda>x. tr_from_account_id x = from \<and> t \<le> tr_created_at x) (transfers d)))"

definition sumOutgoingTransfersSince_sql :: "uuid \<Rightarrow> int sql" where
  "sumOutgoingTransfersSince_sql from c d =
     Inr (min (outgoing_since from (clock c - 24 * 60 * 60 * second) d) 9007199254740991, d)"

definition SumOutgoingTransfersSince :: "pg_env \<Rightarrow> uuid \<Rightarrow> int pg_op" where
  "SumOutgoingTransfersSince env from = run_sql env (sumOutgoingTransfersSince_sql from)"

section \<open>Notifications\<close>

definition createNotification_sql :: "string \<Rightarrow> uuid \<Rightarrow> uuid \<Rightarrow> notification sql" where
  "createNotification_sql dir transfer acct c d =
     (case (find_account acct d, find (\<lambda>t. tr_id t = transfer) (transfers d)) of
        (Some a, Some t) \<Rightarrow>
          if \<not> ((dir = ''sent'' \<and> tr_from_account_id t = acc_id a) \<or>
                (dir = ''received'' \<and> tr_to_account_id t = acc_id a))
            then Inl ErrNoRows
          else if \<not> (tr_amount t > 0 \<and> tr_amount t \<le> 9007199254740991)
            then Inl (PgError ''23514'' ''notifications_amount_check'')
          else if \<not> (0 \<le> acc_balance a \<and> acc_balance a \<le> 9007199254740991)
            then Inl (PgError ''23514'' ''notifications_balance_check'')
          else if gen_uuid c \<in> ntf_id ` set (notifications d)
            then Inl (PgError ''23505'' ''notifications_pkey'')
          else if (tr_id t, acc_id a) \<in>
              (\<lambda>n. (ntf_transfer_id n, ntf_account_id n)) ` set (notifications d)
            then Inl (PgError ''23505'' ''notifications_transfer_id_account_id_key'')
          else if acc_owner a \<notin> usr_username ` set (users d)
            then Inl (PgError ''23503'' ''notifications_owner_fkey'')
          else
            let n = \<lparr>ntf_id = gen_uuid c, ntf_owner = acc_owner a, ntf_account_id = acc_id a,
                     ntf_transfer_id = tr_id t, ntf_direction = dir, ntf_amount = tr_amount t,
                     ntf_currency = acc_currency a, ntf_balance = acc_balance a,
                     ntf_read_at = None, ntf_created_at = now c\<rparr>
            in Inr (n, d\<lparr>notifications := notifications d @ [n]\<rparr>)
      | _ \<Rightarrow> Inl ErrNoRows)"

definition CreateNotification :: "pg_env \<Rightarrow> string \<Rightarrow> uuid \<Rightarrow> uuid \<Rightarrow> notification pg_op" where
  "CreateNotification env dir transfer acct = run_sql env (createNotification_sql dir transfer acct)"

text \<open>
  \<open>pg_notify\<close> within a transaction is delivered at commit, equal messages once; outside
  one, at the end of its own statement.
\<close>

definition enqueue_notify :: "uuid \<times> string \<Rightarrow> unit pg_op" where
  "enqueue_notify msg s =
     (Inr (), case tx_start s of
        None \<Rightarrow> s\<lparr>tables := (tables s)\<lparr>notified := notified (tables s) @ [msg]\<rparr>\<rparr>
      | Some _ \<Rightarrow> if msg \<in> set (pending s) then s else s\<lparr>pending := pending s @ [msg]\<rparr>)"

definition PublishNotification :: "pg_env \<Rightarrow> uuid \<Rightarrow> string \<Rightarrow> unit pg_op" where
  "PublishNotification env nid owner =
     andthen (run_sql env (\<lambda>c d. Inr ((), d))) (\<lambda>_. enqueue_notify (nid, owner))"

abbreviation ntf_stamp :: "notification \<Rightarrow> stamp" where
  "ntf_stamp n \<equiv> Stamp (ntf_created_at n) (ntf_id n)"

definition notifications_after :: "string \<Rightarrow> stamp option \<Rightarrow> db \<Rightarrow> notification list" where
  "notifications_after owner cursor d =
     newest_first ntf_stamp
       (filter (\<lambda>n. ntf_owner n = owner \<and>
          (case cursor of None \<Rightarrow> True | Some k \<Rightarrow> ntf_stamp n < k)) (notifications d))"

definition listNotifications_sql ::
  "string \<Rightarrow> bool \<Rightarrow> time \<Rightarrow> uuid \<Rightarrow> int \<Rightarrow> notification list sql" where
  "listNotifications_sql owner has_cursor at i lim =
     query_page lim 0 (notifications_after owner (if has_cursor then Some (Stamp at i) else None))"

definition ListNotifications ::
  "pg_env \<Rightarrow> string \<Rightarrow> bool \<Rightarrow> time \<Rightarrow> uuid \<Rightarrow> int \<Rightarrow> notification list pg_op" where
  "ListNotifications env owner has_cursor at i lim =
     run_sql env (listNotifications_sql owner has_cursor at i lim)"

definition unread_of :: "string \<Rightarrow> db \<Rightarrow> notification list" where
  "unread_of owner d = filter (\<lambda>n. ntf_owner n = owner \<and> ntf_read_at n = None) (notifications d)"

definition CountUnreadNotifications :: "pg_env \<Rightarrow> string \<Rightarrow> int pg_op" where
  "CountUnreadNotifications env owner =
     run_sql env (\<lambda>c d. Inr (int (length (unread_of owner d)), d))"

definition LockNotificationOwner :: "pg_env \<Rightarrow> string \<Rightarrow> unit pg_op" where
  "LockNotificationOwner env owner =
     andthen (run_sql env (\<lambda>c d. Inr ((), d))) (\<lambda>_. hold (NotificationOwner owner))"

definition read_at_now :: "time \<Rightarrow> notification \<Rightarrow> notification" where
  \<comment> \<open>\<open>SET read_at = COALESCE(read_at, now())\<close>\<close>
  "read_at_now t n =
     n\<lparr>ntf_read_at := (case ntf_read_at n of None \<Rightarrow> Some t | Some u \<Rightarrow> Some u)\<rparr>"

definition markNotificationRead_sql :: "uuid \<Rightarrow> string \<Rightarrow> notification sql" where
  "markNotificationRead_sql i owner c d =
     (case find (\<lambda>n. ntf_id n = i \<and> ntf_owner n = owner) (notifications d) of
        None \<Rightarrow> Inl ErrNoRows
      | Some n \<Rightarrow>
          Inr (read_at_now (now c) n,
               d\<lparr>notifications :=
                   map (\<lambda>m. if ntf_id m = i \<and> ntf_owner m = owner then read_at_now (now c) m else m)
                     (notifications d)\<rparr>))"

definition MarkNotificationRead :: "pg_env \<Rightarrow> uuid \<Rightarrow> string \<Rightarrow> notification pg_op" where
  "MarkNotificationRead env i owner = run_sql env (markNotificationRead_sql i owner)"

definition markAllNotificationsRead_sql :: "string \<Rightarrow> int sql" where
  "markAllNotificationsRead_sql owner c d =
     Inr (int (length (unread_of owner d)),
          d\<lparr>notifications :=
              map (\<lambda>m. if ntf_owner m = owner \<and> ntf_read_at m = None
                       then m\<lparr>ntf_read_at := Some (now c)\<rparr> else m) (notifications d)\<rparr>)"

definition MarkAllNotificationsRead :: "pg_env \<Rightarrow> string \<Rightarrow> int pg_op" where
  "MarkAllNotificationsRead env owner = run_sql env (markAllNotificationsRead_sql owner)"

section \<open>Sessions\<close>

definition find_session :: "uuid \<Rightarrow> db \<Rightarrow> session option" where
  "find_session i d = find (\<lambda>x. ses_id x = i) (sessions d)"

definition createSession_sql ::
  "uuid \<Rightarrow> string \<Rightarrow> string \<Rightarrow> string \<Rightarrow> string \<Rightarrow> bool \<Rightarrow> time \<Rightarrow> session sql" where
  "createSession_sql i uname token agent ip blocked expires c d =
     (if i \<in> ses_id ` set (sessions d) then Inl (PgError ''23505'' ''sessions_pkey'')
      else if uname \<notin> usr_username ` set (users d)
        then Inl (PgError ''23503'' ''sessions_username_fkey'')
      else
        let x = \<lparr>ses_id = i, ses_username = uname, ses_refresh_token = token,
                 ses_user_agent = agent, ses_client_ip = ip, ses_is_blocked = blocked,
                 ses_expires_at = expires, ses_created_at = now c\<rparr>
        in Inr (x, d\<lparr>sessions := sessions d @ [x]\<rparr>))"

definition CreateSession ::
  "pg_env \<Rightarrow> uuid \<Rightarrow> string \<Rightarrow> string \<Rightarrow> string \<Rightarrow> string \<Rightarrow> bool \<Rightarrow> time \<Rightarrow> session pg_op" where
  "CreateSession env i uname token agent ip blocked expires =
     run_sql env (createSession_sql i uname token agent ip blocked expires)"

definition GetSession :: "pg_env \<Rightarrow> uuid \<Rightarrow> session pg_op" where
  "GetSession env i = run_sql env (query_row (find_session i))"

definition GetSessionForUpdate :: "pg_env \<Rightarrow> uuid \<Rightarrow> session pg_op" where
  "GetSessionForUpdate env i =
     andthen (run_sql env (query_row (find_session i)))
       (\<lambda>x. andthen (hold (SessionRow i)) (\<lambda>_. ret x))"

definition update_session :: "uuid \<Rightarrow> (session \<Rightarrow> session) \<Rightarrow> session sql" where
  "update_session i f c d =
     (case find_session i d of
        None \<Rightarrow> Inl ErrNoRows
      | Some x \<Rightarrow> Inr (f x, d\<lparr>sessions := replace_by ses_id i f (sessions d)\<rparr>))"

definition RotateSession :: "pg_env \<Rightarrow> string \<Rightarrow> time \<Rightarrow> uuid \<Rightarrow> session pg_op" where
  "RotateSession env token expires i =
     run_sql env (update_session i (\<lambda>x. x\<lparr>ses_refresh_token := token, ses_expires_at := expires\<rparr>))"

definition BlockSession :: "pg_env \<Rightarrow> uuid \<Rightarrow> session pg_op" where
  "BlockSession env i = run_sql env (update_session i (\<lambda>x. x\<lparr>ses_is_blocked := True\<rparr>))"

section \<open>Users\<close>

definition find_user :: "string \<Rightarrow> db \<Rightarrow> user option" where
  "find_user uname d = find (\<lambda>u. usr_username u = uname) (users d)"

definition createUser_sql :: "string \<Rightarrow> string \<Rightarrow> string \<Rightarrow> string \<Rightarrow> user sql" where
  "createUser_sql uname hash full email c d =
     (if gen_uuid c \<in> usr_id ` set (users d) then Inl (PgError ''23505'' ''users_pkey'')
      else if uname \<in> usr_username ` set (users d)
        then Inl (PgError ''23505'' ''users_username_key'')
      else if email \<in> usr_email ` set (users d) then Inl (PgError ''23505'' ''users_email_key'')
      else
        let u = \<lparr>usr_id = gen_uuid c, usr_username = uname, usr_hashed_password = hash,
                 usr_full_name = full, usr_email = email, usr_is_email_verified = False,
                 usr_password_changed_at = zero_time, usr_created_at = now c\<rparr>
        in Inr (u, d\<lparr>users := users d @ [u]\<rparr>))"

definition CreateUser :: "pg_env \<Rightarrow> string \<Rightarrow> string \<Rightarrow> string \<Rightarrow> string \<Rightarrow> user pg_op" where
  "CreateUser env uname hash full email = run_sql env (createUser_sql uname hash full email)"

definition GetUser :: "pg_env \<Rightarrow> string \<Rightarrow> user pg_op" where
  "GetUser env uname = run_sql env (query_row (find_user uname))"

definition GetUserByEmail :: "pg_env \<Rightarrow> string \<Rightarrow> user pg_op" where
  "GetUserByEmail env email =
     run_sql env (query_row (\<lambda>d. find (\<lambda>u. usr_email u = email) (users d)))"

definition verifyUserEmail_sql :: "string \<Rightarrow> user sql" where
  "verifyUserEmail_sql uname c d =
     (case find_user uname d of
        None \<Rightarrow> Inl ErrNoRows
      | Some u \<Rightarrow>
          Inr (u\<lparr>usr_is_email_verified := True\<rparr>,
               d\<lparr>users := replace_by usr_username uname
                            (\<lambda>r. r\<lparr>usr_is_email_verified := True\<rparr>) (users d)\<rparr>))"

definition VerifyUserEmail :: "pg_env \<Rightarrow> string \<Rightarrow> user pg_op" where
  "VerifyUserEmail env uname = run_sql env (verifyUserEmail_sql uname)"

section \<open>Verification links\<close>

definition createVerifyEmail_sql :: "string \<Rightarrow> string \<Rightarrow> string \<Rightarrow> verify_email sql" where
  "createVerifyEmail_sql uname email code c d =
     (if gen_uuid c \<in> ve_id ` set (verify_emails d)
        then Inl (PgError ''23505'' ''verify_emails_pkey'')
      else if uname \<notin> usr_username ` set (users d)
        then Inl (PgError ''23503'' ''verify_emails_username_fkey'')
      else
        let v = \<lparr>ve_id = gen_uuid c, ve_username = uname, ve_email = email, ve_secret_code = code,
                 ve_is_used = False, ve_created_at = now c,
                 ve_expired_at = now c + 15 * 60 * second\<rparr>
        in Inr (v, d\<lparr>verify_emails := verify_emails d @ [v]\<rparr>))"

definition CreateVerifyEmail :: "pg_env \<Rightarrow> string \<Rightarrow> string \<Rightarrow> string \<Rightarrow> verify_email pg_op" where
  "CreateVerifyEmail env uname email code = run_sql env (createVerifyEmail_sql uname email code)"

definition ve_live :: "uuid \<Rightarrow> string \<Rightarrow> time \<Rightarrow> verify_email \<Rightarrow> bool" where
  "ve_live i code t v \<longleftrightarrow>
     ve_id v = i \<and> ve_secret_code v = code \<and> \<not> ve_is_used v \<and> ve_expired_at v > t"

definition updateVerifyEmail_sql :: "uuid \<Rightarrow> string \<Rightarrow> verify_email sql" where
  "updateVerifyEmail_sql i code c d =
     (case find (ve_live i code (now c)) (verify_emails d) of
        None \<Rightarrow> Inl ErrNoRows
      | Some v \<Rightarrow>
          Inr (v\<lparr>ve_is_used := True\<rparr>,
               d\<lparr>verify_emails :=
                   map (\<lambda>w. if ve_live i code (now c) w then w\<lparr>ve_is_used := True\<rparr> else w)
                     (verify_emails d)\<rparr>))"

definition UpdateVerifyEmail :: "pg_env \<Rightarrow> uuid \<Rightarrow> string \<Rightarrow> verify_email pg_op" where
  "UpdateVerifyEmail env i code = run_sql env (updateVerifyEmail_sql i code)"

end
