(* ===== verification/Query_Facts.thy ===== *)
theory Query_Facts
  imports Queries
begin

text \<open>
  What the statements keep and do: every statement preserves the schema's constraints,
  whatever its arguments, and a successful statement changed exactly the rows its SQL
  names. The transaction theories build on these facts only.
\<close>

named_theorems sql_keeps \<open>constraint preservation of statements\<close>

lemma keeps_run_sql:
  assumes "\<And>c d x d'. I d \<Longrightarrow> q c d = Inr (x, d') \<Longrightarrow> I d'"
  shows "keeps (on_tables I) (run_sql env q)"
  using assms
  by (intro keepsI) (auto simp: on_tables_def run_sql_def split: option.splits sum.splits prod.splits)

lemma keeps_run_sql_read:
  "(\<And>c d x d'. q c d = Inr (x, d') \<Longrightarrow> d' = d) \<Longrightarrow> keeps (on_tables I) (run_sql env q)"
  by (rule keeps_run_sql) blast

lemma keeps_hold: "keeps (on_tables I) (hold l)"
  by (simp add: keeps_def on_tables_def)

section \<open>Inserts\<close>

lemma createUser_schema:
  "schema_ok d \<Longrightarrow> createUser_sql un h fn em c d = Inr (u, d') \<Longrightarrow> schema_ok d'"
  by (clarsimp simp: createUser_sql_def Let_def split: if_splits) (simp add: schema_defs)

lemma createAccount_schema:
  "schema_ok d \<Longrightarrow> createAccount_sql ow b cur c d = Inr (a, d') \<Longrightarrow> schema_ok d'"
  by (clarsimp simp: createAccount_sql_def Let_def split: if_splits) (simp add: schema_defs MaxSafe_numeral)

lemma createEntry_schema:
  "schema_ok d \<Longrightarrow> createEntry_sql i amt c d = Inr (e, d') \<Longrightarrow> schema_ok d'"
  by (clarsimp simp: createEntry_sql_def Let_def split: if_splits) (simp add: schema_defs MaxSafe_numeral)

lemma createTransfer_schema:
  "schema_ok d \<Longrightarrow> createTransfer_sql f t amt k c d = Inr (x, d') \<Longrightarrow> schema_ok d'"
  by (clarsimp simp: createTransfer_sql_def Let_def split: if_splits) (simp add: schema_defs MaxSafe_numeral)

lemma createSession_schema:
  "schema_ok d \<Longrightarrow> createSession_sql i un tk ag ip bl ex c d = Inr (x, d') \<Longrightarrow> schema_ok d'"
  by (clarsimp simp: createSession_sql_def Let_def split: if_splits) (simp add: schema_defs)

lemma createVerifyEmail_schema:
  "schema_ok d \<Longrightarrow> createVerifyEmail_sql un em code c d = Inr (v, d') \<Longrightarrow> schema_ok d'"
  by (clarsimp simp: createVerifyEmail_sql_def Let_def split: if_splits) (simp add: schema_defs)

text \<open>A notification copies an account and a transfer of the database.\<close>

lemma createNotification_Inr:
  assumes "createNotification_sql dir tid aid c d = Inr (n, d')"
  obtains a t where "a \<in> set (accounts d)" "acc_id a = aid" "t \<in> set (transfers d)" "tr_id t = tid"
    "(dir = ''sent'' \<and> tr_from_account_id t = aid) \<or> (dir = ''received'' \<and> tr_to_account_id t = aid)"
    "0 < tr_amount t" "tr_amount t \<le> MaxSafeMinorUnits"
    "0 \<le> acc_balance a" "acc_balance a \<le> MaxSafeMinorUnits"
    "gen_uuid c \<notin> ntf_id ` set (notifications d)"
    "(tid, aid) \<notin> (\<lambda>n. (ntf_transfer_id n, ntf_account_id n)) ` set (notifications d)"
    "acc_owner a \<in> usr_username ` set (users d)"
    "n = \<lparr>ntf_id = gen_uuid c, ntf_owner = acc_owner a, ntf_account_id = aid,
          ntf_transfer_id = tid, ntf_direction = dir, ntf_amount = tr_amount t,
          ntf_currency = acc_currency a, ntf_balance = acc_balance a,
          ntf_read_at = None, ntf_created_at = now c\<rparr>"
    "d' = d\<lparr>notifications := notifications d @ [n]\<rparr>"
  using assms
  by (auto simp: createNotification_sql_def Let_def MaxSafe_numeral
      split: option.splits if_splits dest!: find_account_Some find_Some_set)

lemma createNotification_schema:
  assumes "schema_ok d" "createNotification_sql dir tid aid c d = Inr (n, d')"
  shows "schema_ok d'"
  using assms(2)
proof (rule createNotification_Inr)
qed (use assms(1) in \<open>auto simp: schema_defs\<close>)

section \<open>Updates\<close>

lemma addAccountBalance_schema:
  assumes "schema_ok d" "addAccountBalance_sql amt i c d = Inr (a, d')"
  shows "schema_ok d'"
proof -
  let ?as' = "replace_by acc_id i (\<lambda>r. r\<lparr>acc_balance := acc_balance r + amt\<rparr>) (accounts d)"
  from assms(2) obtain a0 where a0: "find_account i d = Some a0"
    and b: "0 \<le> acc_balance a0 + amt" "acc_balance a0 + amt \<le> MaxSafeMinorUnits"
    and d': "d' = d\<lparr>accounts := ?as'\<rparr>"
    by (auto simp: addAccountBalance_sql_def Let_def MaxSafe_numeral split: option.splits if_splits)
  have ids: "map acc_id ?as' = map acc_id (accounts d)"
    and keys: "map (\<lambda>a. (acc_owner a, acc_currency a)) ?as' =
      map (\<lambda>a. (acc_owner a, acc_currency a)) (accounts d)"
    by (simp_all add: map_replace_by)
  have idset: "acc_id ` set ?as' = acc_id ` set (accounts d)"
    using arg_cong [OF ids, of set] by (simp only: set_map)
  have rows: "\<forall>a \<in> set ?as'. 0 \<le> acc_balance a \<and> acc_balance a \<le> MaxSafeMinorUnits \<and>
      acc_owner a \<in> usr_username ` set (users d)"
  proof
    fix a assume "a \<in> set ?as'"
    then obtain q where q: "q \<in> set (accounts d)"
      and a: "a = (if acc_id q = i then q\<lparr>acc_balance := acc_balance q + amt\<rparr> else q)"
      by (auto simp: in_set_replace_by)
    have "acc_id q = i \<Longrightarrow> q = a0"
      using q a0 assms(1) by (simp add: schema_ok_def find_account_iff)
        (metis accounts_ok_def distinct_key_eq)
    then show "0 \<le> acc_balance a \<and> acc_balance a \<le> MaxSafeMinorUnits \<and>
        acc_owner a \<in> usr_username ` set (users d)"
      using q a b assms(1) by (auto simp: schema_defs)
  qed
  show ?thesis
    using assms(1) rows unfolding d' schema_defs by (simp add: ids keys idset)
qed

lemma update_session_schema:
  assumes "\<And>x. ses_id (f x) = ses_id x" "\<And>x. ses_username (f x) = ses_username x"
    and "schema_ok d" "update_session i f c d = Inr (x, d')"
  shows "schema_ok d'"
proof -
  let ?ss' = "replace_by ses_id i f (sessions d)"
  have "map ses_id ?ss' = map ses_id (sessions d)"
    by (simp add: map_replace_by assms(1))
  moreover have "\<forall>x \<in> set ?ss'. ses_username x \<in> usr_username ` set (users d)"
    using assms(3) by (auto simp: in_set_replace_by assms(2) schema_defs)
  moreover have "d' = d\<lparr>sessions := ?ss'\<rparr>"
    using assms(4) by (auto simp: update_session_def split: option.splits)
  ultimately show ?thesis using assms(3) by (simp add: schema_defs)
qed

lemma verifyUserEmail_schema:
  assumes "schema_ok d" "verifyUserEmail_sql un c d = Inr (u, d')"
  shows "schema_ok d'"
proof -
  let ?us' = "replace_by usr_username un (\<lambda>r. r\<lparr>usr_is_email_verified := True\<rparr>) (users d)"
  have m: "map usr_id ?us' = map usr_id (users d)" "map usr_username ?us' = map usr_username (users d)"
    "map usr_email ?us' = map usr_email (users d)"
    by (simp_all add: map_replace_by)
  have s: "usr_username ` set ?us' = usr_username ` set (users d)"
    using arg_cong [OF m(2), of set] by (simp only: set_map)
  have "d' = d\<lparr>users := ?us'\<rparr>"
    using assms(2) by (auto simp: verifyUserEmail_sql_def split: option.splits)
  then show ?thesis using assms(1) by (simp add: schema_defs m s)
qed

lemma updateVerifyEmail_schema:
  assumes "schema_ok d" "updateVerifyEmail_sql i code c d = Inr (v, d')"
  shows "schema_ok d'"
proof -
  let ?f = "\<lambda>w. if ve_live i code (now c) w then w\<lparr>ve_is_used := True\<rparr> else w"
  have "ve_id (?f w) = ve_id w" "ve_username (?f w) = ve_username w" for w by simp_all
  moreover have "d' = d\<lparr>verify_emails := map ?f (verify_emails d)\<rparr>"
    using assms(2) by (auto simp: updateVerifyEmail_sql_def split: option.splits)
  ultimately show ?thesis using assms(1) by (auto simp: schema_defs comp_def)
qed

text \<open>Marking notifications read touches \<open>read_at\<close> only.\<close>

lemma mark_map_schema:
  assumes "schema_ok d" and "\<And>n. \<exists>t. f n = n\<lparr>ntf_read_at := t\<rparr>"
  shows "schema_ok (d\<lparr>notifications := map f (notifications d)\<rparr>)"
proof -
  have "ntf_id (f n) = ntf_id n" "ntf_transfer_id (f n) = ntf_transfer_id n"
    "ntf_account_id (f n) = ntf_account_id n" "ntf_direction (f n) = ntf_direction n"
    "ntf_amount (f n) = ntf_amount n" "ntf_balance (f n) = ntf_balance n"
    "ntf_owner (f n) = ntf_owner n" for n
    using assms(2) [of n] by auto
  then show ?thesis using assms(1) by (simp add: schema_defs comp_def)
qed

lemma markNotificationRead_schema:
  assumes "schema_ok d" "markNotificationRead_sql i ow c d = Inr (n, d')"
  shows "schema_ok d'"
proof -
  let ?f = "\<lambda>m. if ntf_id m = i \<and> ntf_owner m = ow then read_at_now (now c) m else m"
  have d': "d' = d\<lparr>notifications := map ?f (notifications d)\<rparr>"
    using assms(2) by (auto simp: markNotificationRead_sql_def split: option.splits)
  have "\<exists>t. ?f n = n\<lparr>ntf_read_at := t\<rparr>" for n
    by (cases "ntf_id n = i \<and> ntf_owner n = ow")
      (auto simp: read_at_now_def intro: exI [of _ "ntf_read_at n"])
  then show ?thesis unfolding d' by (rule mark_map_schema [OF assms(1)])
qed

lemma markAllNotificationsRead_schema:
  assumes "schema_ok d" "markAllNotificationsRead_sql ow c d = Inr (k, d')"
  shows "schema_ok d'"
proof -
  let ?f = "\<lambda>m. if ntf_owner m = ow \<and> ntf_read_at m = None
    then m\<lparr>ntf_read_at := Some (now c)\<rparr> else m"
  have d': "d' = d\<lparr>notifications := map ?f (notifications d)\<rparr>"
    using assms(2) by (auto simp: markAllNotificationsRead_sql_def)
  have "\<exists>t. ?f n = n\<lparr>ntf_read_at := t\<rparr>" for n
    by (cases "ntf_owner n = ow \<and> ntf_read_at n = None")
      (auto intro: exI [of _ "ntf_read_at n"])
  then show ?thesis unfolding d' by (rule mark_map_schema [OF assms(1)])
qed

section \<open>The methods\<close>

lemma query_page_read: "query_page lim off f c d = Inr (x, d') \<Longrightarrow> d' = d"
  by (auto simp: query_page_def split: sum.splits)

lemma reads_keep [sql_keeps]:
  "keeps (on_tables I) (GetAccount env i)"
  "keeps (on_tables I) (GetTransferBySourceAndIdempotencyKey env f k)"
  "keeps (on_tables I) (GetSession env i)"
  "keeps (on_tables I) (GetUser env un)"
  "keeps (on_tables I) (GetUserByEmail env em)"
  "keeps (on_tables I) (CountUnreadNotifications env ow)"
  "keeps (on_tables I) (SumOutgoingTransfersSince env i)"
  "keeps (on_tables I) (ListAccounts env ow lim off)"
  "keeps (on_tables I) (ListTransfersByAccount env i off lim)"
  "keeps (on_tables I) (ListNotifications env ow hc at n lim)"
  unfolding GetAccount_def GetTransferBySourceAndIdempotencyKey_def GetSession_def GetUser_def
    GetUserByEmail_def CountUnreadNotifications_def SumOutgoingTransfersSince_def
    sumOutgoingTransfersSince_sql_def ListAccounts_def listAccounts_sql_def
    ListTransfersByAccount_def listTransfersByAccount_sql_def ListNotifications_def
    listNotifications_sql_def
  by (auto intro!: keeps_run_sql_read dest: query_page_read)

lemma locks_keep [sql_keeps]:
  "keeps (on_tables I) (GetAccountForUpdate env i)"
  "keeps (on_tables I) (GetSessionForUpdate env i)"
  "keeps (on_tables I) (LockNotificationOwner env ow)"
  unfolding GetAccountForUpdate_def GetSessionForUpdate_def LockNotificationOwner_def
  by (auto intro!: keeps_intros keeps_run_sql_read keeps_hold)

lemma writes_keep_schema [sql_keeps]:
  "keeps (on_tables schema_ok) (CreateUser env un h fn em)"
  "keeps (on_tables schema_ok) (CreateAccount env ow b cur)"
  "keeps (on_tables schema_ok) (CreateEntry env i amt)"
  "keeps (on_tables schema_ok) (CreateTransfer env f t amt k)"
  "keeps (on_tables schema_ok) (CreateNotification env dir tid aid)"
  "keeps (on_tables schema_ok) (CreateSession env i un tk ag ip bl ex)"
  "keeps (on_tables schema_ok) (CreateVerifyEmail env un em code)"
  "keeps (on_tables schema_ok) (AddAccountBalance env amt i)"
  "keeps (on_tables schema_ok) (RotateSession env tk ex i)"
  "keeps (on_tables schema_ok) (BlockSession env i)"
  "keeps (on_tables schema_ok) (VerifyUserEmail env un)"
  "keeps (on_tables schema_ok) (UpdateVerifyEmail env i code)"
  "keeps (on_tables schema_ok) (MarkNotificationRead env i ow)"
  "keeps (on_tables schema_ok) (MarkAllNotificationsRead env ow)"
  unfolding CreateUser_def CreateAccount_def CreateEntry_def CreateTransfer_def
    CreateNotification_def CreateSession_def CreateVerifyEmail_def AddAccountBalance_def
    RotateSession_def BlockSession_def VerifyUserEmail_def UpdateVerifyEmail_def
    MarkNotificationRead_def MarkAllNotificationsRead_def
  by (auto intro!: keeps_run_sql elim: createUser_schema createAccount_schema createEntry_schema
      createTransfer_schema createNotification_schema createSession_schema
      createVerifyEmail_schema addAccountBalance_schema verifyUserEmail_schema
      updateVerifyEmail_schema markNotificationRead_schema markAllNotificationsRead_schema
      update_session_schema [rotated 2])

lemma notified_update_schema [simp]: "schema_ok (d\<lparr>notified := ns\<rparr>) = schema_ok d"
  by (simp add: schema_defs)

lemma books_ok_notified [simp]: "books_ok (d\<lparr>notified := ns\<rparr>) = books_ok d"
  by (simp add: books_ok_def ledger_ok_def entry_sum_def)

lemma PublishNotification_keeps [sql_keeps]:
  "keeps (on_tables schema_ok) (PublishNotification env i ow)"
proof -
  have "keeps (on_tables schema_ok) (enqueue_notify m)" for m
    by (simp add: keeps_def on_tables_def enqueue_notify_def split: option.split)
  then show ?thesis
    unfolding PublishNotification_def by (intro keeps_intros keeps_run_sql_read) auto
qed

section \<open>The statement counter\<close>

text \<open>No operation turns the counter back, so times read later are read at later ticks.\<close>

named_theorems tick_keeps \<open>monotonicity of the statement counter\<close>

lemma tick_run_sql: "keeps (\<lambda>s. k \<le> tick s) (run_sql env q)"
  by (rule keepsI) (auto simp: run_sql_def split: option.splits sum.splits prod.splits)

lemma tick_hold: "keeps (\<lambda>s. k \<le> tick s) (hold l)"
  by (simp add: keeps_def)

lemma tick_enqueue: "keeps (\<lambda>s. k \<le> tick s) (enqueue_notify m)"
  by (simp add: keeps_def enqueue_notify_def split: option.split)

lemma tick_methods [tick_keeps]:
  "keeps (\<lambda>s. k \<le> tick s) (GetAccount env i)"
  "keeps (\<lambda>s. k \<le> tick s) (GetAccountForUpdate env i)"
  "keeps (\<lambda>s. k \<le> tick s) (GetTransferBySourceAndIdempotencyKey env i j)"
  "keeps (\<lambda>s. k \<le> tick s) (SumOutgoingTransfersSince env i)"
  "keeps (\<lambda>s. k \<le> tick s) (CreateTransfer env f t amt j)"
  "keeps (\<lambda>s. k \<le> tick s) (CreateEntry env i amt)"
  "keeps (\<lambda>s. k \<le> tick s) (AddAccountBalance env amt i)"
  "keeps (\<lambda>s. k \<le> tick s) (CreateNotification env dir i j)"
  "keeps (\<lambda>s. k \<le> tick s) (PublishNotification env i ow)"
  unfolding GetAccount_def GetAccountForUpdate_def GetTransferBySourceAndIdempotencyKey_def
    SumOutgoingTransfersSince_def CreateTransfer_def CreateEntry_def AddAccountBalance_def
    CreateNotification_def PublishNotification_def
  by (intro keeps_intros tick_run_sql tick_hold tick_enqueue)+

section \<open>Successful statements\<close>

lemma tables_id [simp]: "(step_tick s)\<lparr>tables := tables s\<rparr> = step_tick s"
  by (cases s) (simp add: step_tick_def)

lemma ctx_of_sel [simp]:
  "gen_uuid (ctx_of env s) = uuid_at env (tick s)"
  "clock (ctx_of env s) = time_at env (tick s)"
  by (simp_all add: ctx_of_def)

lemma now_ctx_of: "tx_start s = Some t \<Longrightarrow> now (ctx_of env s) = t"
  by (simp add: ctx_of_def)

lemma run_query_row_Inr:
  "run_sql env (query_row f) s = (Inr x, s') \<Longrightarrow> f (tables s) = Some x \<and> s' = step_tick s"
  by (auto elim!: run_sql_InrE)

lemma run_query_row_Inl:
  "run_sql env (query_row f) s = (Inl e, s') \<Longrightarrow>
     s' = step_tick s \<and> ((e = ErrNoRows \<and> f (tables s) = None) \<or> (\<exists>m. e = DriverError m))"
  by (auto simp: run_sql_def split: option.splits sum.splits)

lemma GetAccountForUpdate_Inr:
  assumes "GetAccountForUpdate env i s = (Inr a, s')"
  shows "find_account i (tables s) = Some a \<and> tables s' = tables s \<and>
    tx_start s' = tx_start s \<and> pending s' = pending s \<and> tick s' = Suc (tick s)"
  using assms
  by (auto simp: GetAccountForUpdate_def andthen_Inr ret_def hold_def
      dest!: run_query_row_Inr split: if_splits)

lemma keeps_tables:
  assumes "\<And>I. keeps (on_tables I) m" and "m s = (r, s')"
  shows "tables s' = tables s"
proof -
  have "on_tables (\<lambda>d. d = tables s) s" by (simp add: on_tables_def)
  from keepsD [OF assms(1) this assms(2)] show ?thesis by (simp only: on_tables_def)
qed

lemma createTransfer_Inr:
  assumes "createTransfer_sql f t amt k c d = Inr (x, d')"
  shows "0 < amt \<and> amt \<le> MaxSafeMinorUnits \<and> gen_uuid c \<notin> tr_id ` set (transfers d) \<and>
    (f, k) \<notin> (\<lambda>t. (tr_from_account_id t, tr_idempotency_key t)) ` set (transfers d) \<and>
    x = \<lparr>tr_id = gen_uuid c, tr_from_account_id = f, tr_to_account_id = t, tr_amount = amt,
         tr_created_at = now c, tr_idempotency_key = k\<rparr> \<and>
    d' = d\<lparr>transfers := transfers d @ [x]\<rparr>"
  using assms by (auto simp: createTransfer_sql_def Let_def MaxSafe_numeral split: if_splits)

lemma createEntry_Inr:
  assumes "createEntry_sql i amt c d = Inr (x, d')"
  shows "gen_uuid c \<notin> ent_id ` set (entries d) \<and> i \<in> acc_id ` set (accounts d) \<and>
    x = \<lparr>ent_id = gen_uuid c, ent_account_id = i, ent_amount = amt, ent_created_at = now c\<rparr> \<and>
    d' = d\<lparr>entries := entries d @ [x]\<rparr>"
  using assms by (auto simp: createEntry_sql_def Let_def split: if_splits)

end
