(* ===== verification/Transfer_Tx.thy ===== *)
theory Transfer_Tx
  imports Query_Facts
begin

text \<open>
  \<open>internal/db/transfer_tx.go\<close>: moving money between two accounts. \<open>TransferTx\<close> is the
  method, composed of the phases the Go code has: a lookup outside any transaction that
  answers a retry at once, the transaction (locks, second lookup, checks, \<open>post_transfer\<close>
  which writes the rows), and the lookup that resolves a lost race.
\<close>

record transfer_params =
  par_from_account_id :: uuid
  par_to_account_id :: uuid
  par_amount :: int
  par_currency :: string
  par_idempotency_key :: uuid
  par_daily_limit :: int

record transfer_result =
  res_transfer :: transfer
  res_from_account :: account
  res_to_account :: account
  res_from_entry :: entry
  res_to_entry :: entry

text \<open>The zero value of an entry, which a replayed result carries.\<close>

definition zero_entry :: entry where
  "zero_entry = \<lparr>ent_id = 0, ent_account_id = 0, ent_amount = 0, ent_created_at = zero_time\<rparr>"

section \<open>The operations\<close>

definition mapBalanceError :: "go_error \<Rightarrow> go_error" where
  "mapBalanceError err =
     (let classified = ClassifyError err in
      if errors_is classified ErrRecordNotFound then ErrInsufficientBalance else classified)"

definition transferReplay ::
  "transfer \<Rightarrow> transfer_params \<Rightarrow> account \<Rightarrow> account \<Rightarrow> go_error + transfer_result" where
  "transferReplay existing arg fromA toA =
     (if tr_from_account_id existing \<noteq> par_from_account_id arg \<or>
         tr_to_account_id existing \<noteq> par_to_account_id arg \<or>
         tr_amount existing \<noteq> par_amount arg \<or>
         acc_currency fromA \<noteq> par_currency arg \<or> acc_currency toA \<noteq> par_currency arg
      then Inl ErrIdempotencyConflict
      else Inr \<lparr>res_transfer = existing, res_from_account = fromA, res_to_account = toA,
                res_from_entry = zero_entry, res_to_entry = zero_entry\<rparr>)"

definition replayTransfer ::
  "pg_env \<Rightarrow> transfer \<Rightarrow> transfer_params \<Rightarrow> transfer_result pg_op" where
  "replayTransfer env existing arg =
     andthen (map_error ClassifyError (GetAccount env (tr_from_account_id existing))) (\<lambda>fromA.
     andthen (map_error ClassifyError (GetAccount env (tr_to_account_id existing))) (\<lambda>toA.
     lift_res (transferReplay existing arg fromA toA)))"

definition lockAccounts :: "pg_env \<Rightarrow> uuid \<Rightarrow> uuid \<Rightarrow> (account \<times> account) pg_op" where
  "lockAccounts env fromID toID =
     (if uuid_string fromID < uuid_string toID then
        andthen (map_error ClassifyError (GetAccountForUpdate env fromID)) (\<lambda>fromA.
        andthen (map_error ClassifyError (GetAccountForUpdate env toID)) (\<lambda>toA.
        ret (fromA, toA)))
      else
        andthen (map_error ClassifyError (GetAccountForUpdate env toID)) (\<lambda>toA.
        andthen (map_error ClassifyError (GetAccountForUpdate env fromID)) (\<lambda>fromA.
        ret (fromA, toA))))"

text \<open>One of the two notifications of a transfer: insert it and publish it.\<close>

definition notify_side :: "pg_env \<Rightarrow> string \<Rightarrow> uuid \<Rightarrow> uuid \<Rightarrow> unit pg_op" where
  "notify_side env dir transferID accountID =
     andthen (map_error ClassifyError (CreateNotification env dir transferID accountID)) (\<lambda>n.
     map_error ClassifyError (PublishNotification env (ntf_id n) (ntf_owner n)))"

text \<open>The rows of a transfer: itself, its two entries, the two balances.\<close>

definition move_rows :: "pg_env \<Rightarrow> transfer_params \<Rightarrow> transfer_result pg_op" where
  "move_rows env arg =
     andthen (map_error ClassifyError
       (CreateTransfer env (par_from_account_id arg) (par_to_account_id arg) (par_amount arg)
          (par_idempotency_key arg))) (\<lambda>t.
     andthen (map_error ClassifyError
       (CreateEntry env (par_from_account_id arg) (wrap64 (- par_amount arg)))) (\<lambda>fromE.
     andthen (map_error ClassifyError
       (CreateEntry env (par_to_account_id arg) (par_amount arg))) (\<lambda>toE.
     andthen (map_error mapBalanceError
       (AddAccountBalance env (wrap64 (- par_amount arg)) (par_from_account_id arg))) (\<lambda>fromA.
     andthen (map_error mapBalanceError
       (AddAccountBalance env (par_amount arg) (par_to_account_id arg))) (\<lambda>toA.
     ret \<lparr>res_transfer = t, res_from_account = fromA, res_to_account = toA,
          res_from_entry = fromE, res_to_entry = toE\<rparr>)))))"

definition post_transfer :: "pg_env \<Rightarrow> transfer_params \<Rightarrow> transfer_result pg_op" where
  "post_transfer env arg =
     andthen (move_rows env arg) (\<lambda>result.
     andthen (notify_side env ''sent'' (tr_id (res_transfer result))
       (acc_id (res_from_account result))) (\<lambda>_.
     andthen (notify_side env ''received'' (tr_id (res_transfer result))
       (acc_id (res_to_account result))) (\<lambda>_.
     ret result)))"

definition check_daily_limit :: "pg_env \<Rightarrow> transfer_params \<Rightarrow> unit pg_op" where
  "check_daily_limit env arg =
     (if par_daily_limit arg > 0 then
        andthen (map_error ClassifyError (SumOutgoingTransfersSince env (par_from_account_id arg)))
          (\<lambda>spent.
            if par_amount arg > par_daily_limit arg \<or>
               spent > wrap64 (par_daily_limit arg - par_amount arg)
            then raise ErrDailyLimitExceeded else ret ())
      else ret ())"

definition transfer_checks ::
  "pg_env \<Rightarrow> transfer_params \<Rightarrow> account \<Rightarrow> account \<Rightarrow> unit pg_op" where
  "transfer_checks env arg fromA toA =
     (if acc_currency fromA \<noteq> par_currency arg \<or> acc_currency toA \<noteq> par_currency arg
        then raise ErrCurrencyMismatch
      else if par_amount arg > MaxSafeMinorUnits \<or>
              acc_balance toA > wrap64 (MaxSafeMinorUnits - par_amount arg)
        then raise ErrBalanceLimitExceeded
      else check_daily_limit env arg)"

definition transfer_body :: "pg_env \<Rightarrow> transfer_params \<Rightarrow> transfer_result pg_op" where
  "transfer_body env arg =
     andthen (lockAccounts env (par_from_account_id arg) (par_to_account_id arg))
       (\<lambda>(fromA, toA).
     handle (GetTransferBySourceAndIdempotencyKey env (par_from_account_id arg)
               (par_idempotency_key arg))
       (\<lambda>lookupErr.
          if \<not> errors_is (ClassifyError lookupErr) ErrRecordNotFound
          then raise (ClassifyError lookupErr)
          else andthen (transfer_checks env arg fromA toA) (\<lambda>_. post_transfer env arg))
       (\<lambda>existing. lift_res (transferReplay existing arg fromA toA)))"

definition transfer_resolve ::
  "pg_env \<Rightarrow> transfer_params \<Rightarrow> go_error \<Rightarrow> transfer_result pg_op" where
  "transfer_resolve env arg err =
     (if errors_is err ErrUniqueViolation then
        handle (GetTransferBySourceAndIdempotencyKey env (par_from_account_id arg)
                  (par_idempotency_key arg))
          (\<lambda>getErr. raise (ClassifyError getErr))
          (\<lambda>existing. replayTransfer env existing arg)
      else raise err)"

definition transfer_move :: "pg_env \<Rightarrow> transfer_params \<Rightarrow> transfer_result pg_op" where
  "transfer_move env arg =
     handle (execTx env (transfer_body env arg)) (transfer_resolve env arg) ret"

definition TransferTx :: "pg_env \<Rightarrow> transfer_params \<Rightarrow> transfer_result pg_op" where
  "TransferTx env arg =
     handle (GetTransferBySourceAndIdempotencyKey env (par_from_account_id arg)
               (par_idempotency_key arg))
       (\<lambda>err.
          if \<not> errors_is (ClassifyError err) ErrRecordNotFound
          then raise (ClassifyError err)
          else transfer_move env arg)
       (\<lambda>existing. replayTransfer env existing arg)"

end
