(* ===== verification/Transfer_Facts.thy ===== *)
theory Transfer_Facts
  imports Transfer_Tx
begin

text \<open>
  What \<open>TransferTx\<close> does to the tables. \<open>posting\<close> is the abstract account of a transfer
  that moved money: one transfer row, two entries that cancel, the two balances, two
  notifications. \<open>post_transfer_posting\<close> shows that the code's statements do exactly that,
  and the facts at the end read off what every result of the whole method means.
\<close>

section \<open>Credits\<close>

definition credit :: "uuid \<Rightarrow> int \<Rightarrow> account list \<Rightarrow> account list" where
  "credit i amt = replace_by acc_id i (\<lambda>r. r\<lparr>acc_balance := acc_balance r + amt\<rparr>)"

lemma addAccountBalance_Inr:
  assumes "addAccountBalance_sql amt i c d = Inr (x, d')"
  shows "\<exists>a. find_account i d = Some a \<and> 0 \<le> acc_balance a + amt \<and>
    acc_balance a + amt \<le> MaxSafeMinorUnits \<and> x = a\<lparr>acc_balance := acc_balance a + amt\<rparr> \<and>
    d' = d\<lparr>accounts := credit i amt (accounts d)\<rparr>"
  using assms
  by (auto simp: addAccountBalance_sql_def Let_def MaxSafe_numeral credit_def
      split: option.splits if_splits)

lemma find_account_credit:
  "find_account j (d\<lparr>accounts := credit i amt (accounts d)\<rparr>) =
     map_option (\<lambda>a. if j = i then a\<lparr>acc_balance := acc_balance a + amt\<rparr> else a) (find_account j d)"
  unfolding find_account_def credit_def by (simp add: find_replace_by)

lemma find_account_frame [simp]:
  "find_account i (d\<lparr>transfers := ts\<rparr>) = find_account i d"
  "find_account i (d\<lparr>entries := es\<rparr>) = find_account i d"
  "find_account i (d\<lparr>notifications := ns\<rparr>) = find_account i d"
  "find_account i (d\<lparr>notified := ms\<rparr>) = find_account i d"
  by (simp_all add: find_account_def)

section \<open>A posted transfer\<close>

text \<open>The notification that one side of a transfer gets, from its account after the move.\<close>

definition side_notification ::
  "uuid \<Rightarrow> string \<Rightarrow> transfer \<Rightarrow> account \<Rightarrow> time \<Rightarrow> notification" where
  "side_notification i dir t a at =
     \<lparr>ntf_id = i, ntf_owner = acc_owner a, ntf_account_id = acc_id a, ntf_transfer_id = tr_id t,
      ntf_direction = dir, ntf_amount = tr_amount t, ntf_currency = acc_currency a,
      ntf_balance = acc_balance a, ntf_read_at = None, ntf_created_at = at\<rparr>"

definition rows_moved ::
  "transfer_params \<Rightarrow> time \<Rightarrow> db \<Rightarrow> transfer_result \<Rightarrow> account \<Rightarrow> account \<Rightarrow> bool" where
  "rows_moved arg at d res a b \<longleftrightarrow>
     (let f = par_from_account_id arg; t = par_to_account_id arg; amt = par_amount arg;
          tr = res_transfer res; fe = res_from_entry res; te = res_to_entry res in
      0 < amt \<and> amt \<le> MaxSafeMinorUnits \<and>
      tr_from_account_id tr = f \<and> tr_to_account_id tr = t \<and> tr_amount tr = amt \<and>
      tr_created_at tr = at \<and> tr_idempotency_key tr = par_idempotency_key arg \<and>
      tr_id tr \<notin> tr_id ` set (transfers d) \<and>
      (f, par_idempotency_key arg) \<notin>
        (\<lambda>x. (tr_from_account_id x, tr_idempotency_key x)) ` set (transfers d) \<and>
      ent_account_id fe = f \<and> ent_amount fe = - amt \<and>
      ent_account_id te = t \<and> ent_amount te = amt \<and>
      amt \<le> acc_balance a \<and> acc_balance b + amt \<le> MaxSafeMinorUnits \<and>
      res_from_account res = a\<lparr>acc_balance := acc_balance a - amt\<rparr> \<and>
      res_to_account res = b\<lparr>acc_balance := acc_balance b + amt\<rparr>)"

definition posting ::
  "transfer_params \<Rightarrow> time \<Rightarrow> db \<Rightarrow> transfer_result \<Rightarrow> notification list \<Rightarrow> db \<Rightarrow> bool" where
  "posting arg at d res ns d' \<longleftrightarrow>
     (let f = par_from_account_id arg; t = par_to_account_id arg; amt = par_amount arg in
      f \<noteq> t \<and>
      (\<exists>a b. find_account f d = Some a \<and> find_account t d = Some b \<and> rows_moved arg at d res a b) \<and>
      (\<exists>i j. ns = [side_notification i ''sent'' (res_transfer res) (res_from_account res) at,
                  side_notification j ''received'' (res_transfer res) (res_to_account res) at]) \<and>
      d' = d\<lparr>transfers := transfers d @ [res_transfer res],
             entries := entries d @ [res_from_entry res, res_to_entry res],
             accounts := credit t amt (credit f (- amt) (accounts d)),
             notifications := notifications d @ ns\<rparr>)"

lemma notify_side_Inr:
  assumes run: "notify_side env dir tid aid s = (Inr u, s')"
    and schema: "schema_ok (tables s)" and at: "tx_start s = Some at"
  obtains a t n where "find_account aid (tables s) = Some a" "t \<in> set (transfers (tables s))"
    "tr_id t = tid" "n = side_notification (uuid_at env (tick s)) dir t a at"
    "(tid, aid) \<notin>
       (\<lambda>n. (ntf_transfer_id n, ntf_account_id n)) ` set (notifications (tables s))"
    "uuid_at env (tick s) \<notin> ntf_id ` set (notifications (tables s))"
    "tables s' = (tables s)\<lparr>notifications := notifications (tables s) @ [n]\<rparr>"
    "tx_start s' = Some at"
    "pending s' = (if (ntf_id n, ntf_owner n) \<in> set (pending s) then pending s
                   else pending s @ [(ntf_id n, ntf_owner n)])"
proof -
  from run obtain n s1 where c: "CreateNotification env dir tid aid s = (Inr n, s1)"
    and p: "PublishNotification env (ntf_id n) (ntf_owner n) s1 = (Inr u, s')"
    by (auto simp: notify_side_def andthen_Inr)
  from c obtain d where q: "createNotification_sql dir tid aid (ctx_of env s) (tables s) = Inr (n, d)"
    and s1: "s1 = (step_tick s)\<lparr>tables := d\<rparr>"
    by (auto simp: CreateNotification_def elim!: run_sql_InrE)
  have s': "tables s' = tables s1" "tx_start s' = tx_start s1" and
    pend: "pending s' = (if (ntf_id n, ntf_owner n) \<in> set (pending s1) then pending s1
                   else pending s1 @ [(ntf_id n, ntf_owner n)])"
    using p at s1
    by (auto simp: PublishNotification_def andthen_Inr enqueue_notify_def elim!: run_sql_InrE)
  from q show thesis
  proof (rule createNotification_Inr)
    fix a t
    assume a: "a \<in> set (accounts (tables s))" "acc_id a = aid"
      and t: "t \<in> set (transfers (tables s))" "tr_id t = tid"
      and u: "(tid, aid) \<notin>
        (\<lambda>n. (ntf_transfer_id n, ntf_account_id n)) ` set (notifications (tables s))"
      "gen_uuid (ctx_of env s) \<notin> ntf_id ` set (notifications (tables s))"
      and n: "n = \<lparr>ntf_id = gen_uuid (ctx_of env s), ntf_owner = acc_owner a, ntf_account_id = aid,
          ntf_transfer_id = tid, ntf_direction = dir, ntf_amount = tr_amount t,
          ntf_currency = acc_currency a, ntf_balance = acc_balance a,
          ntf_read_at = None, ntf_created_at = now (ctx_of env s)\<rparr>"
      and d: "d = (tables s)\<lparr>notifications := notifications (tables s) @ [n]\<rparr>"
    have "find_account aid (tables s) = Some a"
      using a schema by (simp add: schema_ok_def find_account_iff)
    moreover have "n = side_notification (uuid_at env (tick s)) dir t a at"
      using n a t at by (simp add: side_notification_def now_ctx_of)
    moreover have "tables s' = (tables s)\<lparr>notifications := notifications (tables s) @ [n]\<rparr>"
      using s' s1 d by simp
    moreover have "tx_start s' = Some at" using s' s1 at by simp
    moreover have "pending s' = (if (ntf_id n, ntf_owner n) \<in> set (pending s) then pending s
                   else pending s @ [(ntf_id n, ntf_owner n)])"
      using pend s1 by simp
    ultimately show thesis using that t u by simp
  qed
qed

lemma move_rows_Inr:
  assumes run: "move_rows env arg s = (Inr res, s')"
    and at: "tx_start s = Some at"
  defines "f \<equiv> par_from_account_id arg" and "t \<equiv> par_to_account_id arg"
    and "amt \<equiv> par_amount arg"
  obtains a b d4 where "rows_moved arg at (tables s) res a b"
    "find_account f (tables s) = Some a" "d4 = (tables s)\<lparr>accounts := credit f (- amt) (accounts (tables s))\<rparr>"
    "find_account t d4 = Some b"
    "tables s' = (tables s)\<lparr>transfers := transfers (tables s) @ [res_transfer res],
        entries := entries (tables s) @ [res_from_entry res, res_to_entry res],
        accounts := credit t amt (accounts d4)\<rparr>"
    "tx_start s' = Some at" "pending s' = pending s"
proof -
  let ?d = "tables s"
  from run obtain tr s1 fe s2 te s3 fa s4 ta s5 where
      r1: "CreateTransfer env f t amt (par_idempotency_key arg) s = (Inr tr, s1)"
    and r2: "CreateEntry env f (wrap64 (- amt)) s1 = (Inr fe, s2)"
    and r3: "CreateEntry env t amt s2 = (Inr te, s3)"
    and r4: "AddAccountBalance env (wrap64 (- amt)) f s3 = (Inr fa, s4)"
    and r5: "AddAccountBalance env amt t s4 = (Inr ta, s5)"
    and res: "res = \<lparr>res_transfer = tr, res_from_account = fa, res_to_account = ta,
          res_from_entry = fe, res_to_entry = te\<rparr>" "s' = s5"
    by (auto simp: move_rows_def andthen_Inr ret_def f_def t_def amt_def)
  from r1 obtain d1 where q1: "createTransfer_sql f t amt (par_idempotency_key arg) (ctx_of env s) ?d
      = Inr (tr, d1)" and s1: "s1 = (step_tick s)\<lparr>tables := d1\<rparr>"
    by (auto simp: CreateTransfer_def elim!: run_sql_InrE)
  note c1 = createTransfer_Inr [OF q1]
  have w: "wrap64 (- amt) = - amt" using c1 by (simp add: wrap64_neg_safe)
  from r2 obtain d2 where q2: "createEntry_sql f (- amt) (ctx_of env s1) d1 = Inr (fe, d2)"
    and s2: "s2 = (step_tick s1)\<lparr>tables := d2\<rparr>"
    by (auto simp: CreateEntry_def w s1 elim!: run_sql_InrE)
  note c2 = createEntry_Inr [OF q2]
  from r3 obtain d3 where q3: "createEntry_sql t amt (ctx_of env s2) d2 = Inr (te, d3)"
    and s3: "s3 = (step_tick s2)\<lparr>tables := d3\<rparr>"
    by (auto simp: CreateEntry_def s2 elim!: run_sql_InrE)
  note c3 = createEntry_Inr [OF q3]
  from r4 obtain d4 where q4: "addAccountBalance_sql (- amt) f (ctx_of env s3) d3 = Inr (fa, d4)"
    and s4: "s4 = (step_tick s3)\<lparr>tables := d4\<rparr>"
    by (auto simp: AddAccountBalance_def w s3 elim!: run_sql_InrE)
  from r5 obtain d5 where q5: "addAccountBalance_sql amt t (ctx_of env s4) d4 = Inr (ta, d5)"
    and s5: "s5 = (step_tick s4)\<lparr>tables := d5\<rparr>"
    by (auto simp: AddAccountBalance_def s4 elim!: run_sql_InrE)
  note c4 = addAccountBalance_Inr [OF q4] and c5 = addAccountBalance_Inr [OF q5]
  show thesis
    using c1 c2 c3 c4 c5 at
    by (elim exE conjE, intro that)
      (auto simp: rows_moved_def Let_def res s5 s4 s3 s2 s1 now_ctx_of f_def [symmetric]
        t_def [symmetric] amt_def [symmetric] find_account_def)
qed

lemma notify_side_keeps: "keeps (on_tables schema_ok) (notify_side env dir tid aid)"
  unfolding notify_side_def by (intro keeps_intros sql_keeps)

lemma move_rows_keeps: "keeps (on_tables schema_ok) (move_rows env arg)"
  unfolding move_rows_def by (intro keeps_intros sql_keeps)

lemma rows_moved_ids:
  assumes "rows_moved arg at d res a b"
  shows "acc_id (res_from_account res) = acc_id a" "acc_id (res_to_account res) = acc_id b"
    "x \<in> set (transfers d @ [res_transfer res]) \<Longrightarrow> tr_id x = tr_id (res_transfer res) \<Longrightarrow>
       x = res_transfer res"
  using assms by (auto simp: rows_moved_def Let_def image_iff)

lemma post_transfer_Inr:
  assumes run: "post_transfer env arg s = (Inr res, s')"
    and schema: "schema_ok (tables s)" and at: "tx_start s = Some at" and pend: "pending s = []"
  shows "\<exists>ns. posting arg at (tables s) res ns (tables s') \<and>
    pending s' = map (\<lambda>n. (ntf_id n, ntf_owner n)) ns"
proof -
  let ?f = "par_from_account_id arg" and ?t = "par_to_account_id arg" and ?d = "tables s"
    and ?tr = "res_transfer res" and ?fa = "res_from_account res" and ?ta = "res_to_account res"
  from run obtain s5 u6 s6 u7 where r5: "move_rows env arg s = (Inr res, s5)"
    and r6: "notify_side env ''sent'' (tr_id ?tr) (acc_id ?fa) s5 = (Inr u6, s6)"
    and r7: "notify_side env ''received'' (tr_id ?tr) (acc_id ?ta) s6 = (Inr u7, s')"
    by (auto simp: post_transfer_def andthen_Inr ret_def)
  from r5 at obtain a b d4 where rows: "rows_moved arg at ?d res a b"
    and a: "find_account ?f ?d = Some a"
    and d4: "d4 = ?d\<lparr>accounts := credit ?f (- par_amount arg) (accounts ?d)\<rparr>"
    and b: "find_account ?t d4 = Some b"
    and t5: "tables s5 = ?d\<lparr>transfers := transfers ?d @ [?tr],
        entries := entries ?d @ [res_from_entry res, res_to_entry res],
        accounts := credit ?t (par_amount arg) (accounts d4)\<rparr>"
    and st5: "tx_start s5 = Some at" "pending s5 = pending s"
    by (rule move_rows_Inr)
  have ok5: "schema_ok (tables s5)"
    using keepsD [OF move_rows_keeps _ r5] schema by (simp add: on_tables_def)
  have ok6: "schema_ok (tables s6)"
    using keepsD [OF notify_side_keeps _ r6] ok5 by (simp add: on_tables_def)
  note ids = rows_moved_ids [OF rows]
  have fid: "acc_id ?fa = ?f" "acc_id ?ta = ?t"
    using ids a b by (auto dest: find_account_Some)
  from r6 [unfolded fid] ok5 st5(1) obtain a5 t5' n6 where
      n6: "find_account ?f (tables s5) = Some a5" "t5' \<in> set (transfers (tables s5))"
        "tr_id t5' = tr_id ?tr" "n6 = side_notification (uuid_at env (tick s5)) ''sent'' t5' a5 at"
    and t6: "tables s6 = (tables s5)\<lparr>notifications := notifications (tables s5) @ [n6]\<rparr>"
    and st6: "tx_start s6 = Some at" and p6: "pending s6 = [(ntf_id n6, ntf_owner n6)]"
    by (rule notify_side_Inr) (use st5 pend in simp)
  from r7 [unfolded fid] ok6 st6 obtain a6 t6' n7 where
      n7: "find_account ?t (tables s6) = Some a6" "t6' \<in> set (transfers (tables s6))"
        "tr_id t6' = tr_id ?tr"
        "n7 = side_notification (uuid_at env (tick s6)) ''received'' t6' a6 at"
    and u7: "(tr_id ?tr, ?t) \<notin>
       (\<lambda>n. (ntf_transfer_id n, ntf_account_id n)) ` set (notifications (tables s6))"
    and fr7: "uuid_at env (tick s6) \<notin> ntf_id ` set (notifications (tables s6))"
    and t7: "tables s' = (tables s6)\<lparr>notifications := notifications (tables s6) @ [n7]\<rparr>"
    and p7: "pending s' = (if (ntf_id n7, ntf_owner n7) \<in> set (pending s6) then pending s6
                   else pending s6 @ [(ntf_id n7, ntf_owner n7)])"
    by (rule notify_side_Inr)
  have tr: "t5' = ?tr" "t6' = ?tr"
    using n6(2,3) n7(2,3) ids(3) by (simp_all add: t6 t5)
  have neq: "?f \<noteq> ?t"
    using u7 n6(1,4) tr by (auto simp: t6 side_notification_def image_iff dest: find_account_Some)
  have b0: "find_account ?t ?d = Some b"
    using b neq by (simp add: d4 find_account_credit)
  have faces: "a5 = ?fa" "a6 = ?ta"
    using n6(1) n7(1) a b b0 rows neq
    by (auto simp: t6 t5 d4 find_account_def credit_def find_replace_by rows_moved_def Let_def)
  have ns: "n6 = side_notification (uuid_at env (tick s5)) ''sent'' ?tr ?fa at"
    "n7 = side_notification (uuid_at env (tick s6)) ''received'' ?tr ?ta at"
    using n6(4) n7(4) tr faces by simp_all
  have "ntf_id n7 \<noteq> ntf_id n6" using fr7 ns by (auto simp: t6 side_notification_def)
  then have "pending s' = map (\<lambda>n. (ntf_id n, ntf_owner n)) [n6, n7]" using p6 p7 by simp
  moreover have "posting arg at ?d res [n6, n7] (tables s')"
    unfolding posting_def Let_def using neq a b0 rows ns by (auto simp: t7 t6 t5 d4)
  ultimately show ?thesis by blast
qed

section \<open>The other operations only read\<close>

lemma lockAccounts_keeps: "keeps (on_tables I) (lockAccounts env f t)"
  unfolding lockAccounts_def by (intro keeps_intros sql_keeps)

lemma transfer_checks_keeps: "keeps (on_tables I) (transfer_checks env arg fa ta)"
  unfolding transfer_checks_def check_daily_limit_def by (intro keeps_intros sql_keeps)

lemma replayTransfer_keeps: "keeps (on_tables I) (replayTransfer env x arg)"
  unfolding replayTransfer_def by (intro keeps_intros sql_keeps)

lemma transfer_resolve_keeps: "keeps (on_tables I) (transfer_resolve env arg e)"
  unfolding transfer_resolve_def by (intro keeps_intros sql_keeps replayTransfer_keeps)

lemma transfer_body_keeps_schema: "keeps (on_tables schema_ok) (transfer_body env arg)"
  unfolding transfer_body_def post_transfer_def
  by (intro keeps_intros sql_keeps lockAccounts_keeps transfer_checks_keeps move_rows_keeps
      notify_side_keeps)

lemma lockAccounts_Inr:
  assumes "lockAccounts env f t s = (Inr (a, b), s')"
  shows "find_account f (tables s) = Some a \<and> find_account t (tables s) = Some b \<and>
    tables s' = tables s \<and> tx_start s' = tx_start s \<and> pending s' = pending s"
  using assms
  by (auto simp: lockAccounts_def andthen_Inr ret_def split: if_splits
      dest!: GetAccountForUpdate_Inr)

lemma check_daily_limit_Inr:
  assumes "check_daily_limit env arg s = (Inr u, s')"
  shows "tables s' = tables s \<and> tx_start s' = tx_start s \<and> pending s' = pending s \<and>
    (par_daily_limit arg \<le> 0 \<or>
     (par_amount arg \<le> par_daily_limit arg \<and>
      min (outgoing_since (par_from_account_id arg)
             (time_at env (tick s) - 24 * 60 * 60 * second) (tables s)) MaxSafeMinorUnits
        \<le> wrap64 (par_daily_limit arg - par_amount arg)))"
  using assms
  by (auto simp: check_daily_limit_def andthen_Inr ret_def raise_def SumOutgoingTransfersSince_def
      sumOutgoingTransfersSince_sql_def MaxSafe_numeral split: if_splits elim!: run_sql_InrE)

lemma transfer_ticks:
  "keeps (\<lambda>s. k \<le> tick s) (lockAccounts env f t)"
  "keeps (\<lambda>s. k \<le> tick s) (transfer_checks env arg a b)"
  "keeps (\<lambda>s. k \<le> tick s) (post_transfer env arg)"
  "keeps (\<lambda>s. k \<le> tick s) (replayTransfer env x arg)"
  "keeps (\<lambda>s. k \<le> tick s) (move_rows env arg)"
  unfolding lockAccounts_def transfer_checks_def check_daily_limit_def post_transfer_def
    move_rows_def notify_side_def replayTransfer_def
  by (intro keeps_intros tick_keeps)+

definition checks_passed :: "transfer_params \<Rightarrow> time \<Rightarrow> db \<Rightarrow> bool" where
  \<comment> \<open>the checks before the rows are written; \<open>at\<close> is the clock of the daily sum\<close>
  "checks_passed arg at d \<longleftrightarrow>
     (\<exists>a b. find_account (par_from_account_id arg) d = Some a \<and>
        find_account (par_to_account_id arg) d = Some b \<and>
        acc_currency a = par_currency arg \<and> acc_currency b = par_currency arg) \<and>
     (par_daily_limit arg \<le> 0 \<or>
      (par_amount arg \<le> par_daily_limit arg \<and>
       min (outgoing_since (par_from_account_id arg) (at - 24 * 60 * 60 * second) d)
         MaxSafeMinorUnits \<le> wrap64 (par_daily_limit arg - par_amount arg)))"

lemma transfer_checks_Inr:
  assumes "transfer_checks env arg a b s = (Inr u, s')"
    and "find_account (par_from_account_id arg) (tables s) = Some a"
    and "find_account (par_to_account_id arg) (tables s) = Some b"
  shows "tables s' = tables s \<and> tx_start s' = tx_start s \<and> pending s' = pending s \<and>
    checks_passed arg (time_at env (tick s)) (tables s)"
  using assms check_daily_limit_Inr [of env arg s u s']
  by (auto simp: transfer_checks_def checks_passed_def raise_def split: if_splits)

section \<open>The outcomes of a transfer\<close>

definition replayed :: "transfer_params \<Rightarrow> db \<Rightarrow> transfer_result \<Rightarrow> bool" where
  "replayed arg d res \<longleftrightarrow>
     find_transfer_by_key (par_from_account_id arg) (par_idempotency_key arg) d =
       Some (res_transfer res) \<and>
     tr_to_account_id (res_transfer res) = par_to_account_id arg \<and>
     tr_amount (res_transfer res) = par_amount arg \<and>
     find_account (par_from_account_id arg) d = Some (res_from_account res) \<and>
     find_account (par_to_account_id arg) d = Some (res_to_account res) \<and>
     acc_currency (res_from_account res) = par_currency arg \<and>
     acc_currency (res_to_account res) = par_currency arg \<and>
     res_from_entry res = zero_entry \<and> res_to_entry res = zero_entry"

definition committed :: "transfer_params \<Rightarrow> time \<Rightarrow> db \<Rightarrow> transfer_result \<Rightarrow> db \<Rightarrow> bool" where
  "committed arg at d res d' \<longleftrightarrow>
     (\<exists>ns. posting arg at d res ns (d'\<lparr>notified := notified d\<rparr>) \<and>
        notified d' = notified d @ map (\<lambda>n. (ntf_id n, ntf_owner n)) ns)"

lemma transferReplay_replayed:
  assumes "transferReplay x arg a b = Inr res"
    and "find_transfer_by_key (par_from_account_id arg) (par_idempotency_key arg) d = Some x"
    and "find_account (tr_from_account_id x) d = Some a"
    and "find_account (par_to_account_id arg) d = Some b \<or> find_account (tr_to_account_id x) d = Some b"
  shows "replayed arg d res"
  using assms by (auto simp: transferReplay_def replayed_def split: if_splits)

lemma replayTransfer_replayed:
  assumes "replayTransfer env x arg s = (Inr res, s')"
    and "find_transfer_by_key (par_from_account_id arg) (par_idempotency_key arg) (tables s) = Some x"
  shows "replayed arg (tables s) res"
  using assms
  by (auto simp: replayTransfer_def GetAccount_def andthen_Inr lift_res_def
      dest!: run_query_row_Inr intro: transferReplay_replayed)

lemma transfer_resolve_replayed:
  assumes "transfer_resolve env arg e s = (Inr res, s')"
  shows "replayed arg (tables s) res"
proof -
  from assms obtain x s1 where
    "GetTransferBySourceAndIdempotencyKey env (par_from_account_id arg) (par_idempotency_key arg) s
      = (Inr x, s1)" and r: "replayTransfer env x arg s1 = (Inr res, s')"
    by (auto simp: transfer_resolve_def handle_def raise_def split: if_splits prod.splits sum.splits)
  then have "find_transfer_by_key (par_from_account_id arg) (par_idempotency_key arg) (tables s) = Some x"
    and "s1 = step_tick s"
    by (auto simp: GetTransferBySourceAndIdempotencyKey_def dest!: run_query_row_Inr)
  then show ?thesis using replayTransfer_replayed [OF r] by simp
qed

lemma transfer_body_Inr:
  assumes run: "transfer_body env arg s = (Inr res, s')"
    and schema: "schema_ok (tables s)" and at: "tx_start s = Some at" and pend: "pending s = []"
  shows "(tables s' = tables s \<and> pending s' = [] \<and> replayed arg (tables s) res) \<or>
    (\<exists>ns n. tick s \<le> n \<and> n \<le> tick s' \<and> posting arg at (tables s) res ns (tables s') \<and>
       pending s' = map (\<lambda>n. (ntf_id n, ntf_owner n)) ns \<and>
       checks_passed arg (time_at env n) (tables s))"
proof -
  let ?f = "par_from_account_id arg" and ?key = "par_idempotency_key arg"
  from run obtain a b s1 where l: "lockAccounts env ?f (par_to_account_id arg) s = (Inr (a, b), s1)"
    and rest: "handle (GetTransferBySourceAndIdempotencyKey env ?f ?key)
       (\<lambda>e. if \<not> errors_is (ClassifyError e) ErrRecordNotFound then raise (ClassifyError e)
          else andthen (transfer_checks env arg a b) (\<lambda>_. post_transfer env arg))
       (\<lambda>x. lift_res (transferReplay x arg a b)) s1 = (Inr res, s')"
    by (auto simp: transfer_body_def andthen_Inr)
  note l1 = lockAccounts_Inr [OF l]
  obtain r s2 where g: "GetTransferBySourceAndIdempotencyKey env ?f ?key s1 = (r, s2)"
    by (cases "GetTransferBySourceAndIdempotencyKey env ?f ?key s1")
  show ?thesis
  proof (cases r)
    case (Inr x)
    with g have x: "find_transfer_by_key ?f ?key (tables s) = Some x" and s2: "s2 = step_tick s1"
      using l1 by (auto simp: GetTransferBySourceAndIdempotencyKey_def dest: run_query_row_Inr)
    have rep: "transferReplay x arg a b = Inr res" and s': "s' = s2"
      using rest g Inr by (auto simp: handle_def lift_res_def)
    have "replayed arg (tables s) res"
      using transferReplay_replayed [OF rep x] l1 find_transfer_by_key_Some [OF x] by simp
    then show ?thesis using s' s2 l1 pend by simp
  next
    case (Inl e)
    with rest g obtain s3 where c: "transfer_checks env arg a b s2 = (Inr (), s3)"
      and p: "post_transfer env arg s3 = (Inr res, s')"
      by (auto simp: handle_def raise_def andthen_Inr split: if_splits)
    have "s2 = step_tick s1"
      using g Inl by (auto simp: GetTransferBySourceAndIdempotencyKey_def dest: run_query_row_Inl)
    then have t: "tables s2 = tables s" "tx_start s2 = Some at" "pending s2 = []"
      using l1 at pend by simp_all
    have cp: "tables s3 = tables s \<and> tx_start s3 = Some at \<and> pending s3 = [] \<and>
        checks_passed arg (time_at env (tick s2)) (tables s)"
      using transfer_checks_Inr [OF c] l1 t by simp
    have "tick s \<le> tick s2"
      using keepsD [OF transfer_ticks(1) _ l, of "tick s"] \<open>s2 = step_tick s1\<close> by simp
    moreover have "tick s2 \<le> tick s'"
      using keepsD [OF transfer_ticks(2) _ c, of "tick s2"]
        keepsD [OF transfer_ticks(3) _ p, of "tick s2"] by simp
    ultimately show ?thesis using cp post_transfer_Inr [OF p, of at] schema by auto
  qed
qed

lemma posting_committed:
  "posting arg at d res ns d1 \<Longrightarrow>
     committed arg at d res (d1\<lparr>notified := notified d1 @ map (\<lambda>n. (ntf_id n, ntf_owner n)) ns\<rparr>)"
  unfolding committed_def by (rule exI [of _ ns]) (auto simp: posting_def Let_def)

lemma transfer_commit:
  assumes body: "transfer_body env arg (begin_tx env s) = (Inr res, s1)"
    and schema: "schema_ok (tables s)"
  shows "(tables (commit (step_tick s1)) = tables s \<and> replayed arg (tables s) res) \<or>
    (\<exists>n. tick s < n \<and> n < tick (commit (step_tick s1)) \<and>
       committed arg (time_at env (tick s)) (tables s) res (tables (commit (step_tick s1))) \<and>
       checks_passed arg (time_at env n) (tables s))"
  using transfer_body_Inr [OF body] schema posting_committed
  by (fastforce simp: publish_pending_def)

text \<open>
  Every call of \<open>TransferTx\<close> ends in one of two ways: the tables are as before (an error,
  or the replay of the transfer made earlier under the same key), or one transfer was
  posted and committed. In the second case the caller gets the result, or, when the
  acknowledgement of the commit was lost, a driver error.
\<close>

lemma TransferTx_outcome:
  assumes run: "TransferTx env arg s = (r, s')" and schema: "schema_ok (tables s)"
  obtains (same) "tables s' = tables s" "\<And>res. r = Inr res \<Longrightarrow> replayed arg (tables s) res"
    | (moved) k n res where "tick s \<le> k" "k < n" "n < tick s'"
        "committed arg (time_at env k) (tables s) res (tables s')"
        "checks_passed arg (time_at env n) (tables s)" "r = Inr res \<or> (\<exists>m. r = Inl (DriverError m))"
proof -
  let ?f = "par_from_account_id arg" and ?key = "par_idempotency_key arg"
  obtain r1 s1 where g: "GetTransferBySourceAndIdempotencyKey env ?f ?key s = (r1, s1)"
    by (cases "GetTransferBySourceAndIdempotencyKey env ?f ?key s")
  have t1: "tables s1 = tables s" by (rule keeps_tables [OF reads_keep(2) g])
  have k1: "tick s \<le> tick s1" using keepsD [OF tick_methods(3) _ g, of "tick s"] by simp
  consider (hit) x where "r1 = Inr x" | (err) e where "r1 = Inl e" "r = Inl (ClassifyError e)" "s' = s1"
    | (go) "transfer_move env arg s1 = (r, s')"
    using run g by (cases r1) (auto simp: TransferTx_def handle_def raise_def split: if_splits)
  then show thesis
  proof cases
    case (hit x)
    with g have x: "find_transfer_by_key ?f ?key (tables s1) = Some x"
      by (auto simp: t1 GetTransferBySourceAndIdempotencyKey_def dest: run_query_row_Inr)
    have rp: "replayTransfer env x arg s1 = (r, s')"
      using run g hit by (simp add: TransferTx_def handle_def)
    show thesis
      using keeps_tables [OF replayTransfer_keeps rp] replayTransfer_replayed [OF _ x] rp t1
      by (intro same) auto
  next
    case err
    then show thesis using t1 by (intro same) auto
  next
    case go
    obtain r2 s2 where e: "execTx env (transfer_body env arg) s1 = (r2, s2)"
      by (cases "execTx env (transfer_body env arg) s1")
    show thesis
    proof (cases r2)
      case (Inr res)
      with go e have "r = Inr res" "s' = s2" by (auto simp: transfer_move_def handle_def ret_def)
      then show thesis
        using e [unfolded Inr] transfer_commit [of env arg s1 res] schema t1 k1 same moved
        by (elim execTx_InrE) (metis sum.inject(2))
    next
      case (Inl e2)
      with go e have rs: "transfer_resolve env arg e2 s2 = (r, s')"
        by (auto simp: transfer_move_def handle_def)
      have unchanged: thesis if "tables s2 = tables s1"
        using keeps_tables [OF transfer_resolve_keeps rs] rs that t1
        by (intro same) (auto dest!: transfer_resolve_replayed)
      from e [unfolded Inl] show thesis
      proof (cases rule: execTx_InlE)
        case (lost m res s3)
        then have "r = Inl (DriverError m)" "s' = s2"
          using rs by (auto simp: transfer_resolve_def raise_def)
        then show thesis
          using lost transfer_commit [of env arg s1 res s3] schema t1 k1 same moved by auto
      qed (use unchanged in blast)+
    qed
  qed
qed

end
