(* ===== verification/Transfer_Props.thy ===== *)
theory Transfer_Props
  imports Transfer_Facts
begin

text \<open>
  The properties of \<open>TransferTx\<close>: the books stay balanced whatever happens, a transfer is
  made at most once however often it is retried, and the checks decide exactly.
\<close>

section \<open>Postings and the ledger\<close>

lemma in_credit:
  "a \<in> set (credit i amt as) \<longleftrightarrow>
     (\<exists>q \<in> set as. a = (if acc_id q = i then q\<lparr>acc_balance := acc_balance q + amt\<rparr> else q))"
  unfolding credit_def by (rule in_set_replace_by)

lemma sum_credit:
  assumes "distinct (map acc_id as)" "i \<in> acc_id ` set as"
  shows "sum_list (map acc_balance (credit i amt as)) = sum_list (map acc_balance as) + amt"
proof -
  from assms(2) obtain a where "a \<in> set as" "acc_id a = i" by auto
  then show ?thesis
    unfolding credit_def using assms(1) by (subst sum_list_replace_by [where x = a]) auto
qed

lemma map_id_credit [simp]: "map acc_id (credit i amt as) = map acc_id as"
  unfolding credit_def by (simp add: map_replace_by)

lemma posting_ledger:
  assumes "posting arg at d res ns d'" "ledger_ok d"
  shows "ledger_ok d'"
proof -
  let ?f = "par_from_account_id arg" and ?t = "par_to_account_id arg" and ?amt = "par_amount arg"
  have neq: "?f \<noteq> ?t" and acc: "accounts d' = credit ?t ?amt (credit ?f (- ?amt) (accounts d))"
    and ent: "entry_sum d' i = entry_sum d i + (if i = ?f then - ?amt else 0) + (if i = ?t then ?amt else 0)"
    for i
    using assms(1) by (auto simp: posting_def rows_moved_def Let_def entry_sum_def)
  show ?thesis
    using assms(2) neq unfolding ledger_ok_def acc ent by (auto simp: in_credit)
qed

lemma committed_posting:
  assumes "committed arg at d res d'"
  obtains ns where "posting arg at d res ns (d'\<lparr>notified := notified d\<rparr>)"
    "notified d' = notified d @ map (\<lambda>n. (ntf_id n, ntf_owner n)) ns"
  using assms by (auto simp: committed_def)

lemma posting_total:
  assumes "posting arg at d res ns d'" "schema_ok d"
  shows "total_balance d' = total_balance d"
proof -
  let ?f = "par_from_account_id arg" and ?t = "par_to_account_id arg"
  from assms(1) obtain a b where "find_account ?f d = Some a" "find_account ?t d = Some b"
    and acc: "accounts d' = credit ?t (par_amount arg) (credit ?f (- par_amount arg) (accounts d))"
    by (auto simp: posting_def Let_def)
  then have ids: "?f \<in> acc_id ` set (accounts d)" "?t \<in> acc_id ` set (accounts d)"
    by (force dest!: find_account_Some)+
  have dist: "distinct (map acc_id (accounts d))"
    using assms(2) by (simp add: schema_ok_def accounts_ok_def)
  have "?t \<in> acc_id ` set (credit ?f (- par_amount arg) (accounts d))"
    using ids(2) by (metis map_id_credit set_map)
  then show ?thesis
    unfolding total_balance_def acc using ids dist by (simp add: sum_credit)
qed

lemma posting_find_account:
  assumes "posting arg at d res ns d'"
  shows "find_account i d' = map_option (\<lambda>a. a\<lparr>acc_balance := acc_balance a +
      (if i = par_from_account_id arg then - par_amount arg
       else if i = par_to_account_id arg then par_amount arg else 0)\<rparr>) (find_account i d)"
proof -
  have "accounts d' = credit (par_to_account_id arg) (par_amount arg)
      (credit (par_from_account_id arg) (- par_amount arg) (accounts d))"
    and "par_from_account_id arg \<noteq> par_to_account_id arg"
    using assms by (auto simp: posting_def Let_def)
  then show ?thesis
    unfolding find_account_def credit_def
    by (cases "find (\<lambda>a. acc_id a = i) (accounts d)") (auto simp: find_replace_by)
qed

lemma committed_find_account:
  assumes "committed arg at d res d'"
  shows "find_account i d' = map_option (\<lambda>a. a\<lparr>acc_balance := acc_balance a +
      (if i = par_from_account_id arg then - par_amount arg
       else if i = par_to_account_id arg then par_amount arg else 0)\<rparr>) (find_account i d)"
  using assms
  by (rule committed_posting) (drule posting_find_account [where i = i], simp)

lemma committed_rows:
  assumes "committed arg at d res d'"
  shows "par_from_account_id arg \<noteq> par_to_account_id arg" "0 < par_amount arg"
    "par_amount arg \<le> MaxSafeMinorUnits"
    "transfers d' = transfers d @ [res_transfer res]"
    "tr_from_account_id (res_transfer res) = par_from_account_id arg"
    "tr_to_account_id (res_transfer res) = par_to_account_id arg"
    "tr_amount (res_transfer res) = par_amount arg"
    "tr_idempotency_key (res_transfer res) = par_idempotency_key arg"
    "tr_created_at (res_transfer res) = at"
    "entries d' = entries d @ [res_from_entry res, res_to_entry res]"
    "ent_account_id (res_from_entry res) = par_from_account_id arg"
    "ent_amount (res_from_entry res) = - par_amount arg"
    "ent_account_id (res_to_entry res) = par_to_account_id arg"
    "ent_amount (res_to_entry res) = par_amount arg"
    "(par_from_account_id arg, par_idempotency_key arg) \<notin>
       (\<lambda>x. (tr_from_account_id x, tr_idempotency_key x)) ` set (transfers d)"
    "users d' = users d" "sessions d' = sessions d" "verify_emails d' = verify_emails d"
    "jobs d' = jobs d"
proof -
  from assms obtain ns where p: "posting arg at d res ns (d'\<lparr>notified := notified d\<rparr>)"
    by (rule committed_posting)
  have eq: "d'\<lparr>notified := notified d\<rparr> = d\<lparr>transfers := transfers d @ [res_transfer res],
             entries := entries d @ [res_from_entry res, res_to_entry res],
             accounts := credit (par_to_account_id arg) (par_amount arg)
               (credit (par_from_account_id arg) (- par_amount arg) (accounts d)),
             notifications := notifications d @ ns\<rparr>"
    using p by (simp add: posting_def Let_def)
  show "transfers d' = transfers d @ [res_transfer res]" using arg_cong [OF eq, of transfers] by simp
  show "entries d' = entries d @ [res_from_entry res, res_to_entry res]"
    using arg_cong [OF eq, of entries] by simp
  show "users d' = users d" using arg_cong [OF eq, of users] by simp
  show "sessions d' = sessions d" using arg_cong [OF eq, of sessions] by simp
  show "verify_emails d' = verify_emails d" using arg_cong [OF eq, of verify_emails] by simp
  show "jobs d' = jobs d" using arg_cong [OF eq, of jobs] by simp
qed (use assms in \<open>auto elim!: committed_posting simp: posting_def rows_moved_def Let_def\<close>)

interpretation transfer_schema: tx_body "transfer_body env arg" schema_ok for env arg
proof
  show "schema_ok (tables s')" if "transfer_body env arg s = (Inr x, s')" "schema_ok (tables s)"
    for s x s'
    using keepsD [OF transfer_body_keeps_schema _ that(1)] that(2) by (simp add: on_tables_def)
qed simp

interpretation transfer_books: tx_body "transfer_body env arg" books_ok for env arg
proof
  fix s x s'
  assume run: "transfer_body env arg s = (Inr x, s')" and ok: "books_ok (tables s)"
    and tx: "tx_start s \<noteq> None" and "pending s = []"
  from tx obtain at where "tx_start s = Some at" by auto
  then consider "tables s' = tables s" | ns where "posting arg at (tables s) x ns (tables s')"
    using transfer_body_Inr [OF run] ok \<open>pending s = []\<close> by (auto simp: books_ok_def)
  then show "books_ok (tables s')"
  proof cases
    case 2
    have "schema_ok (tables s')"
      using keepsD [OF transfer_body_keeps_schema _ run] ok by (simp add: on_tables_def books_ok_def)
    moreover have "ledger_ok (tables s')" using posting_ledger [OF 2] ok by (simp add: books_ok_def)
    moreover have "\<forall>t \<in> set (transfers (tables s')). tr_from_account_id t \<noteq> tr_to_account_id t"
      using 2 ok by (auto simp: posting_def rows_moved_def Let_def books_ok_def)
    ultimately show ?thesis by (simp add: books_ok_def)
  qed (use ok in simp)
qed simp

lemma TransferTx_keeps:
  assumes "keeps (on_tables I) (execTx env (transfer_body env arg))"
  shows "keeps (on_tables I) (TransferTx env arg)"
  unfolding TransferTx_def transfer_move_def
  by (intro keeps_intros sql_keeps replayTransfer_keeps transfer_resolve_keeps assms)

lemma TransferTx_known_key:
  assumes x: "find_transfer_by_key (par_from_account_id arg) (par_idempotency_key arg) (tables s) = Some x"
    and a: "find_account (par_from_account_id arg) (tables s) = Some a"
    and b: "find_account (tr_to_account_id x) (tables s) = Some b"
    and run: "TransferTx env arg s = (r, s')"
  shows "tables s' = tables s \<and>
    ((\<exists>m. r = Inl (DriverError m)) \<or>
     r = (if tr_to_account_id x = par_to_account_id arg \<and> tr_amount x = par_amount arg \<and>
             acc_currency a = par_currency arg \<and> acc_currency b = par_currency arg
          then Inr \<lparr>res_transfer = x, res_from_account = a, res_to_account = b,
                    res_from_entry = zero_entry, res_to_entry = zero_entry\<rparr>
          else Inl ErrIdempotencyConflict))"
proof -
  have "tr_from_account_id x = par_from_account_id arg"
    using find_transfer_by_key_Some [OF x] by simp
  then show ?thesis
    using x a b run
    by (auto simp: TransferTx_def handle_def GetTransferBySourceAndIdempotencyKey_def run_sql_def
        query_row_def replayTransfer_def GetAccount_def andthen_def map_error_def lift_res_def
        raise_def transferReplay_def split: option.splits if_splits)
qed

section \<open>Properties\<close>

text \<open>
  C1 (invariant). Whatever \<open>TransferTx\<close> is called with, whatever it returns, and whatever
  the database does meanwhile (failing statements, failing or unacknowledged commits), the
  books stay in order: all constraints hold, every balance is the sum of the account's
  entries, no transfer has the same source and destination.
\<close>

theorem transfer_keeps_books:
  assumes "books_ok (tables s)" and "TransferTx env arg s = (r, s')"
  shows "books_ok (tables s')"
  using keepsD [OF TransferTx_keeps [OF transfer_books.execTx_keeps] _ assms(2)] assms(1)
  by (simp add: on_tables_def)

text \<open>
  Money is neither created nor lost: the total of all balances is the same
  after every call, successful or not.
\<close>

theorem transfer_conserves_money:
  assumes "schema_ok (tables s)" and "TransferTx env arg s = (r, s')"
  shows "total_balance (tables s') = total_balance (tables s)"
  using assms(2,1)
proof (rule TransferTx_outcome)
  fix k n res
  assume "committed arg (time_at env k) (tables s) res (tables s')"
  then show ?thesis
    using assms(1) by (auto elim!: committed_posting dest: posting_total simp: total_balance_def)
qed simp

text \<open>
  A call that returns a result either replayed the earlier transfer with
  the same key, changing nothing, or posted a new one: the source pays exactly the amount,
  the destination gets exactly the amount, every other account is untouched, and one
  transfer and two opposite entries are added.
\<close>

theorem transfer_success:
  assumes "schema_ok (tables s)" and "TransferTx env arg s = (Inr res, s')"
  defines "d \<equiv> tables s" and "d' \<equiv> tables s'"
    and "f \<equiv> par_from_account_id arg" and "t \<equiv> par_to_account_id arg" and "amt \<equiv> par_amount arg"
  shows "(replayed arg d res \<and> d' = d) \<or>
    (f \<noteq> t \<and> 0 < amt \<and>
     (\<forall>i. find_account i d' = map_option (\<lambda>a. a\<lparr>acc_balance := acc_balance a +
        (if i = f then - amt else if i = t then amt else 0)\<rparr>) (find_account i d)) \<and>
     transfers d' = transfers d @ [res_transfer res] \<and>
     tr_from_account_id (res_transfer res) = f \<and> tr_to_account_id (res_transfer res) = t \<and>
     tr_amount (res_transfer res) = amt \<and>
     entries d' = entries d @ [res_from_entry res, res_to_entry res] \<and>
     ent_account_id (res_from_entry res) = f \<and> ent_amount (res_from_entry res) = - amt \<and>
     ent_account_id (res_to_entry res) = t \<and> ent_amount (res_to_entry res) = amt)"
  using assms(2,1)
proof (rule TransferTx_outcome)
  fix k n res'
  assume "committed arg (time_at env k) (tables s) res' (tables s')" "Inr res = Inr res' \<or> (\<exists>m. Inr res = Inl (DriverError m))"
  then have "committed arg (time_at env k) d res d'" by (simp add: d_def d'_def)
  from committed_rows [OF this] committed_find_account [OF this] show ?thesis
    by (simp add: f_def t_def amt_def)
qed (simp add: d_def d'_def)

text \<open>What a committed transfer announces, and to whom.\<close>

definition announces :: "transfer_params \<Rightarrow> db \<Rightarrow> transfer_result \<Rightarrow> db \<Rightarrow> notification \<Rightarrow> notification \<Rightarrow> bool" where
  "announces arg d res d' n m \<longleftrightarrow>
    notifications d' = notifications d @ [n, m] \<and>
    notified d' = notified d @ [(ntf_id n, ntf_owner n), (ntf_id m, ntf_owner m)] \<and>
    find_account (par_from_account_id arg) d' = Some (res_from_account res) \<and>
    find_account (par_to_account_id arg) d' = Some (res_to_account res) \<and>
    ntf_account_id n = par_from_account_id arg \<and> ntf_owner n = acc_owner (res_from_account res) \<and>
    ntf_balance n = acc_balance (res_from_account res) \<and> ntf_direction n = ''sent'' \<and>
    ntf_account_id m = par_to_account_id arg \<and> ntf_owner m = acc_owner (res_to_account res) \<and>
    ntf_balance m = acc_balance (res_to_account res) \<and> ntf_direction m = ''received'' \<and>
    ntf_amount n = par_amount arg \<and> ntf_amount m = par_amount arg \<and>
    ntf_read_at n = None \<and> ntf_read_at m = None"

lemma committed_announces:
  assumes c: "committed arg at d res d'"
  shows "\<exists>n m. announces arg d res d' n m"
proof -
  from c obtain ns where p: "posting arg at d res ns (d'\<lparr>notified := notified d\<rparr>)"
    and nt: "notified d' = notified d @ map (\<lambda>n. (ntf_id n, ntf_owner n)) ns"
    by (rule committed_posting)
  from p obtain a b i j where a: "find_account (par_from_account_id arg) d = Some a"
    and b: "find_account (par_to_account_id arg) d = Some b"
    and rows: "rows_moved arg at d res a b"
    and ns: "ns = [side_notification i ''sent'' (res_transfer res) (res_from_account res) at,
                   side_notification j ''received'' (res_transfer res) (res_to_account res) at]"
    by (auto simp: posting_def Let_def)
  have "notifications (d'\<lparr>notified := notified d\<rparr>) = notifications d @ ns"
    using p by (simp add: posting_def Let_def)
  then show ?thesis
    using a b rows nt ns committed_find_account [OF c] committed_rows(1) [OF c]
    by (auto simp: announces_def side_notification_def rows_moved_def Let_def dest: find_account_Some)
qed

text \<open>
  A new transfer tells both owners: it adds one notification for each
  account, with the direction, the amount and the balance after the move, and publishes
  exactly these two, in this order, when it commits.
\<close>

theorem transfer_notifies:
  assumes "schema_ok (tables s)" and "TransferTx env arg s = (Inr res, s')"
    and "find_transfer_by_key (par_from_account_id arg) (par_idempotency_key arg) (tables s) = None"
  shows "\<exists>n m. announces arg (tables s) res (tables s') n m"
  using assms(2,1)
proof (rule TransferTx_outcome)
  fix k n res'
  assume "committed arg (time_at env k) (tables s) res' (tables s')" "Inr res = Inr res' \<or> (\<exists>m. Inr res = Inl (DriverError m))"
  then show ?thesis using committed_announces by simp
qed (use assms(3) in \<open>auto simp: replayed_def\<close>)

text \<open>
  C16 (error). A call that reports an error has changed nothing, with one exception that
  belongs to the network and not to the code: the commit took effect but its
  acknowledgement was lost, so the driver reports a failure. No error of the store itself
  (insufficient balance, limits, currency, conflicts, ...) ever comes with an effect.
\<close>

theorem transfer_error_atomic:
  assumes "schema_ok (tables s)" and "TransferTx env arg s = (Inl e, s')"
  shows "tables s' = tables s \<or>
    ((\<exists>m. e = DriverError m) \<and> (\<exists>at res. committed arg at (tables s) res (tables s')))"
  using assms(2,1) by (rule TransferTx_outcome) auto

text \<open>
  C15 (functional). Retrying is safe: once a transfer exists under the key, every further
  call with that source and key changes nothing. It returns that transfer with the current
  accounts when the request has the same destination, amount and currency, and reports an
  idempotency conflict when it has not (or the driver's error when the database fails).
\<close>

theorem transfer_replay:
  assumes x: "find_transfer_by_key (par_from_account_id arg) (par_idempotency_key arg) (tables s) = Some x"
    and a: "find_account (par_from_account_id arg) (tables s) = Some a"
    and b: "find_account (tr_to_account_id x) (tables s) = Some b"
    and run: "TransferTx env arg s = (r, s')"
  shows "tables s' = tables s \<and>
    ((\<exists>m. r = Inl (DriverError m)) \<or>
     r = (if tr_to_account_id x = par_to_account_id arg \<and> tr_amount x = par_amount arg \<and>
             acc_currency a = par_currency arg \<and> acc_currency b = par_currency arg
          then Inr \<lparr>res_transfer = x, res_from_account = a, res_to_account = b,
                    res_from_entry = zero_entry, res_to_entry = zero_entry\<rparr>
          else Inl ErrIdempotencyConflict))"
  using TransferTx_known_key [OF x a b run] .

text \<open>A client that sends the same request \<open>n\<close> times, whatever it gets back.\<close>

fun send_times ::
  "nat \<Rightarrow> pg_env \<Rightarrow> transfer_params \<Rightarrow> pg \<Rightarrow> (go_error + transfer_result) list \<times> pg" where
  "send_times 0 env arg s = ([], s)"
| "send_times (Suc n) env arg s =
     (let (r, s1) = TransferTx env arg s; (rs, s2) = send_times n env arg s1 in (r # rs, s2))"

lemma known_key_stays:
  assumes ok: "schema_ok (tables s)"
    and x: "find_transfer_by_key (par_from_account_id arg) (par_idempotency_key arg) (tables s) = Some x"
    and run: "TransferTx env arg s = (r, s')"
  shows "tables s' = tables s" "r = Inr res \<Longrightarrow> res_transfer res = x"
proof -
  have "x \<in> set (transfers (tables s))" using find_transfer_by_key_Some [OF x] by simp
  then have "tr_from_account_id x \<in> acc_id ` set (accounts (tables s))"
    "tr_to_account_id x \<in> acc_id ` set (accounts (tables s))"
    using ok by (auto simp: schema_defs)
  then obtain a b where "find_account (tr_from_account_id x) (tables s) = Some a"
    and b: "find_account (tr_to_account_id x) (tables s) = Some b"
    unfolding find_account_def using find_key_exists by metis
  then have a: "find_account (par_from_account_id arg) (tables s) = Some a"
    using find_transfer_by_key_Some [OF x] by simp
  note known = TransferTx_known_key [OF x a b run]
  then show "tables s' = tables s" by simp
  show "res_transfer res = x" if "r = Inr res" using known that by (auto split: if_splits)
qed

lemma committed_key:
  assumes "committed arg at d res d'" "schema_ok d'"
  shows "find_transfer_by_key (par_from_account_id arg) (par_idempotency_key arg) d' =
    Some (res_transfer res)"
  using committed_rows [OF assms(1)] assms(2)
  by (simp add: schema_ok_def find_transfer_by_key_iff)

lemma send_times_known_key:
  assumes "schema_ok (tables s)"
    and "find_transfer_by_key (par_from_account_id arg) (par_idempotency_key arg) (tables s) = Some x"
    and "send_times n env arg s = (rs, s')"
  shows "tables s' = tables s \<and> (\<forall>res. Inr res \<in> set rs \<longrightarrow> res_transfer res = x)"
  using assms
proof (induction n arbitrary: s rs)
  case 0
  then show ?case by simp
next
  case (Suc n)
  obtain r s1 where run: "TransferTx env arg s = (r, s1)" by (cases "TransferTx env arg s")
  obtain rs1 where rest: "send_times n env arg s1 = (rs1, s')" and rs: "rs = r # rs1"
    using Suc.prems(3) run by (auto split: prod.splits)
  note k = known_key_stays [OF Suc.prems(1,2) run]
  have "tables s' = tables s1 \<and> (\<forall>res. Inr res \<in> set rs1 \<longrightarrow> res_transfer res = x)"
    using Suc.IH [OF _ _ rest] Suc.prems(1,2) k(1) by simp
  then show ?case using k rs by auto
qed

lemma TransferTx_schema:
  "schema_ok (tables s) \<Longrightarrow> TransferTx env arg s = (r, s') \<Longrightarrow> schema_ok (tables s')"
  using keepsD [OF TransferTx_keeps [OF transfer_schema.execTx_keeps]] by (simp add: on_tables_def)

text \<open>
  Exactly once under retries: however often a request is sent, through any
  failures of statements and commits, at most one transfer is posted. Either nothing has
  changed after all calls, or the tables are those of a single committed transfer; and all
  the calls that return a result return one and the same transfer.
\<close>

theorem transfer_exactly_once:
  assumes "schema_ok (tables s)" and "send_times n env arg s = (rs, s')"
  shows "(tables s' = tables s \<or> (\<exists>at res. committed arg at (tables s) res (tables s'))) \<and>
    (\<forall>p q. Inr p \<in> set rs \<and> Inr q \<in> set rs \<longrightarrow> res_transfer p = res_transfer q)"
  using assms
proof (induction n arbitrary: s rs)
  case 0
  then show ?case by simp
next
  case (Suc n)
  obtain r s1 where run: "TransferTx env arg s = (r, s1)" by (cases "TransferTx env arg s")
  obtain rs1 where rest: "send_times n env arg s1 = (rs1, s')" and rs: "rs = r # rs1"
    using Suc.prems(2) run by (auto split: prod.splits)
  have ok1: "schema_ok (tables s1)" using Suc.prems(1) run by (rule TransferTx_schema)
  from run Suc.prems(1) show ?case
  proof (cases rule: TransferTx_outcome)
    case same
    show ?thesis
    proof (cases r)
      case (Inl e)
      then show ?thesis using Suc.IH [OF ok1 rest] same(1) rs by simp
    next
      case (Inr res)
      then have "find_transfer_by_key (par_from_account_id arg) (par_idempotency_key arg) (tables s1)
          = Some (res_transfer res)"
        using same by (simp add: replayed_def)
      from send_times_known_key [OF ok1 this rest] show ?thesis
        using same(1) rs Inr by (metis (no_types, lifting) set_ConsD sum.inject(2))
    qed
  next
    case (moved k m res)
    from send_times_known_key [OF ok1 committed_key [OF moved(4) ok1] rest] show ?thesis
      using moved rs by (metis (no_types, lifting) set_ConsD sum.inject(2) sum.distinct(1))
  qed
qed

section \<open>The daily limit\<close>

lemma committed_within_limit:
  assumes c: "committed arg t d res d'" and checks: "checks_passed arg at d"
    and lim: "0 < par_daily_limit arg" "par_daily_limit arg \<le> MaxSafeMinorUnits"
  shows "outgoing_since (par_from_account_id arg) (at - 24 * 60 * 60 * second) d' \<le> par_daily_limit arg"
proof -
  let ?f = "par_from_account_id arg" and ?w = "at - 24 * 60 * 60 * second"
  note c = committed_rows [OF c]
  have "wrap64 (par_daily_limit arg - par_amount arg) = par_daily_limit arg - par_amount arg"
    using c(2,3) lim by (intro wrap64_diff_safe) (auto simp: is_int64_def MaxSafe_numeral)
  then have "min (outgoing_since ?f ?w d) MaxSafeMinorUnits \<le> par_daily_limit arg - par_amount arg"
    using checks lim(1) by (simp add: checks_passed_def)
  then have "outgoing_since ?f ?w d + par_amount arg \<le> par_daily_limit arg"
    using c(2) lim(2) by linarith
  moreover have "outgoing_since ?f ?w d' \<le> outgoing_since ?f ?w d + par_amount arg"
    using c(2) by (simp add: outgoing_since_def c(4-7))
  ultimately show ?thesis by linarith
qed

text \<open>
  When a daily limit is in force and a call posts a transfer, the outgoing
  total of the source over the 24 hours before the check (made at some statement \<open>n\<close> of
  this call), the new transfer included, is within the limit. The limit is at most the largest supported amount, which the
  configuration enforces; without that bound the clamped SQL sum could hide an excess.
\<close>

theorem transfer_daily_limit:
  assumes "schema_ok (tables s)" and run: "TransferTx env arg s = (Inr res, s')"
    and "find_transfer_by_key (par_from_account_id arg) (par_idempotency_key arg) (tables s) = None"
    and lim: "0 < par_daily_limit arg" "par_daily_limit arg \<le> MaxSafeMinorUnits"
  shows "\<exists>n. tick s < n \<and> n < tick s' \<and> outgoing_since (par_from_account_id arg)
      (time_at env n - 24 * 60 * 60 * second) (tables s') \<le> par_daily_limit arg"
  using run assms(1)
proof (cases rule: TransferTx_outcome)
  case same
  then show ?thesis using assms(3) by (auto simp: replayed_def)
next
  case (moved k n res')
  then show ?thesis using committed_within_limit [OF moved(4,5) lim] by (intro exI [of _ n]) linarith
qed

end
