(* ===== verification/Transfer_Refine.thy ===== *)
theory Transfer_Refine
  imports Transfer_Props
begin

text \<open>
  The abstract ledger a transfer implements (balances and payments already made under an
  idempotency key), the order in which the account rows are locked, and what happens to a
  transfer from an account to itself.
\<close>

section \<open>The abstract ledger\<close>

record ledger =
  balance_of :: "uuid \<rightharpoonup> int"
  paid :: "uuid \<times> uuid \<rightharpoonup> uuid \<times> int" \<comment> \<open>(source, key) to (destination, amount)\<close>

definition ledger_pay :: "uuid \<Rightarrow> uuid \<Rightarrow> int \<Rightarrow> uuid \<Rightarrow> ledger \<Rightarrow> ledger option" where
  "ledger_pay f t amt key l =
     (case (balance_of l f, balance_of l t) of
        (Some x, Some y) \<Rightarrow>
          if f \<noteq> t \<and> 0 < amt \<and> amt \<le> x \<and> y + amt \<le> MaxSafeMinorUnits \<and> paid l (f, key) = None
          then Some (l\<lparr>balance_of := (balance_of l)(f \<mapsto> x - amt, t \<mapsto> y + amt),
                       paid := (paid l)((f, key) \<mapsto> (t, amt))\<rparr>)
          else None
      | _ \<Rightarrow> None)"

definition abs_ledger :: "db \<Rightarrow> ledger" where
  "abs_ledger d =
     \<lparr>balance_of = (\<lambda>i. map_option acc_balance (find_account i d)),
      paid = (\<lambda>(f, key). map_option (\<lambda>t. (tr_to_account_id t, tr_amount t))
               (find_transfer_by_key f key d))\<rparr>"

lemma find_transfer_append:
  "find_transfer_by_key f k (d\<lparr>transfers := transfers d @ [t]\<rparr>) =
     (case find_transfer_by_key f k d of Some x \<Rightarrow> Some x
      | None \<Rightarrow> if tr_from_account_id t = f \<and> tr_idempotency_key t = k then Some t else None)"
  by (auto simp: find_transfer_by_key_def find_append split: option.split)

lemma committed_pays:
  assumes c: "committed arg at d res d'"
  shows "ledger_pay (par_from_account_id arg) (par_to_account_id arg) (par_amount arg)
    (par_idempotency_key arg) (abs_ledger d) = Some (abs_ledger d')"
proof -
  let ?f = "par_from_account_id arg" and ?t = "par_to_account_id arg" and ?k = "par_idempotency_key arg"
  note rows = committed_rows [OF c]
  from c obtain ns a b where a: "find_account ?f d = Some a" and b: "find_account ?t d = Some b"
    and r: "rows_moved arg at d res a b"
    by (auto elim!: committed_posting simp: posting_def Let_def)
  have new: "find_transfer_by_key ?f ?k d = None"
    using rows(15) by (force simp: find_transfer_by_key_def find_None_iff)
  have "find_transfer_by_key f k d' =
      find_transfer_by_key f k (d\<lparr>transfers := transfers d @ [res_transfer res]\<rparr>)" for f k
    by (simp add: find_transfer_by_key_def rows(4))
  then have "find_transfer_by_key f k d' =
      (if f = ?f \<and> k = ?k then Some (res_transfer res) else find_transfer_by_key f k d)" for f k
    using new rows(5,8) by (auto simp: find_transfer_append split: option.split)
  then have paid: "paid (abs_ledger d') = (paid (abs_ledger d))((?f, ?k) \<mapsto> (?t, par_amount arg))"
    using rows(6,7) by (auto simp: abs_ledger_def fun_eq_iff)
  have bal: "balance_of (abs_ledger d') = (balance_of (abs_ledger d))
      (?f \<mapsto> acc_balance a - par_amount arg, ?t \<mapsto> acc_balance b + par_amount arg)"
    using a b rows(1)
    by (auto simp: abs_ledger_def committed_find_account [OF c] fun_eq_iff option.map_comp comp_def
        intro: option.map_cong)
  show ?thesis
    using a b r rows(1) new bal paid
    by (simp add: ledger_pay_def rows_moved_def Let_def) (simp add: abs_ledger_def)
qed

text \<open>
  C8 (refinement). Read through the abstraction, a call of \<open>TransferTx\<close> is either invisible
  or exactly one payment of the abstract ledger: source and destination differ, the source
  can pay, the destination stays within its limit, and the key was unused.
\<close>

theorem transfer_refines_ledger:
  assumes "schema_ok (tables s)" and "TransferTx env arg s = (r, s')"
  shows "abs_ledger (tables s') = abs_ledger (tables s) \<or>
    ledger_pay (par_from_account_id arg) (par_to_account_id arg) (par_amount arg)
      (par_idempotency_key arg) (abs_ledger (tables s)) = Some (abs_ledger (tables s'))"
  using assms(2,1) by (rule TransferTx_outcome) (auto dest: committed_pays)

section \<open>Transfers to the same account\<close>

text \<open>
  The store itself refuses a transfer from an account to itself, whatever its
  other parameters: the call reports an error and the tables are unchanged. (The second
  notification violates \<open>UNIQUE (transfer_id, account_id)\<close>; no check names this case.)
\<close>

theorem self_transfer_refused:
  assumes "books_ok (tables s)" and same: "par_from_account_id arg = par_to_account_id arg"
    and run: "TransferTx env arg s = (r, s')"
  shows "tables s' = tables s \<and> (\<exists>e. r = Inl e)"
proof -
  from assms(1) have "schema_ok (tables s)" by (simp add: books_ok_def)
  from run this show ?thesis
  proof (rule TransferTx_outcome)
    assume t: "tables s' = tables s" and rep: "\<And>res. r = Inr res \<Longrightarrow> replayed arg (tables s) res"
    have "r \<noteq> Inr res" for res
    proof
      assume "r = Inr res"
      from rep [OF this] have "res_transfer res \<in> set (transfers (tables s))"
        "tr_from_account_id (res_transfer res) = tr_to_account_id (res_transfer res)"
        using same by (auto simp: replayed_def dest!: find_transfer_by_key_Some)
      then show False using assms(1) by (auto simp: books_ok_def)
    qed
    then show ?thesis using t by (cases r) auto
  qed (use same committed_rows(1) in blast)
qed

section \<open>Lock order\<close>

text \<open>The order in which a transfer between two accounts takes their row locks.\<close>

definition lock_sequence :: "uuid \<Rightarrow> uuid \<Rightarrow> lock list" where
  "lock_sequence i j = map AccountRow (if i = j then [i] else [min i j, max i j])"

lemma lock_sequence_sym: "lock_sequence i j = lock_sequence j i"
  by (simp add: lock_sequence_def min.commute max.commute)

lemma GetAccountForUpdate_held:
  assumes "GetAccountForUpdate env i s = (r, s')"
  shows "held s' = (if isl r \<or> AccountRow i \<in> set (held s) then held s else held s @ [AccountRow i])"
  using assms
  by (auto simp: GetAccountForUpdate_def andthen_def hold_def ret_def run_sql_def
      split: option.splits sum.splits prod.splits if_splits)

text \<open>
  The locks of a transfer are taken in ascending order of the account
  identifiers, whichever of the two is the source: the locks held after \<open>lockAccounts\<close> are
  a prefix of one sequence that is the same for both directions, and all of it on
  success. Opposite transfers therefore never wait for each other in a cycle.
\<close>

theorem lock_order:
  assumes "held s = []" and "lockAccounts env f t s = (r, s')"
  shows "(\<exists>k. held s' = take k (lock_sequence f t)) \<and>
    (\<forall>p. r = Inr p \<longrightarrow> held s' = lock_sequence f t) \<and>
    lock_sequence f t = lock_sequence t f \<and> sorted_wrt (\<lambda>x y. \<exists>i j. x = AccountRow i \<and> y = AccountRow j \<and> i < j) (lock_sequence f t)"
proof -
  let ?m = "if f < t then f else t" and ?n = "if f < t then t else f"
  have seq: "lock_sequence f t = AccountRow ?m # (if f = t then [] else [AccountRow ?n])"
    by (auto simp: lock_sequence_def min_def max_def)
  obtain r1 s1 where g1: "map_error ClassifyError (GetAccountForUpdate env ?m) s = (r1, s1)"
    by (cases "map_error ClassifyError (GetAccountForUpdate env ?m) s")
  then have h1: "held s1 = (if isl r1 then [] else [AccountRow ?m])"
    using assms(1) by (auto simp: map_error_def dest!: GetAccountForUpdate_held split: prod.splits sum.splits)
  obtain r2 s2 where g2: "map_error ClassifyError (GetAccountForUpdate env ?n) s1 = (r2, s2)"
    by (cases "map_error ClassifyError (GetAccountForUpdate env ?n) s1")
  then have h2: "held s2 = (if isl r2 \<or> AccountRow ?n \<in> set (held s1) then held s1 else held s1 @ [AccountRow ?n])"
    by (auto simp: map_error_def dest!: GetAccountForUpdate_held split: prod.splits sum.splits)
  have "(isl r1 \<and> s' = s1 \<and> isl r) \<or> (\<not> isl r1 \<and> isl r2 \<and> s' = s2 \<and> isl r) \<or>
      (\<not> isl r1 \<and> \<not> isl r2 \<and> s' = s2)"
    using assms(2) g1 g2
    by (auto simp: lockAccounts_def uuid_string_less_iff andthen_def ret_def split: if_splits sum.splits)
  then have "held s' = [] \<and> isl r \<or> held s' = take 1 (lock_sequence f t) \<and> isl r \<or>
      held s' = lock_sequence f t"
    using h1 h2 unfolding seq by (auto split: if_splits)
  then have "\<exists>k. held s' = take k (lock_sequence f t)" "\<forall>p. r = Inr p \<longrightarrow> held s' = lock_sequence f t"
    by (metis take0 take_all_iff order_refl, auto)
  then show ?thesis
    using lock_sequence_sym [of f t] by (auto simp: lock_sequence_def min_def max_def)
qed

end
