(* ===== verification/Transfer_Decision.thy ===== *)
theory Transfer_Decision
  imports Transfer_Props
begin

text \<open>
  When \<open>TransferTx\<close> succeeds. \<open>transfer_verdict\<close> is the decision the checks and guards of
  the code add up to, written on unbounded integers: which error is reported, or that the
  transfer goes through. The theorem says that on a working database, which hands out
  fresh identifiers, the code decides exactly so.
\<close>

section \<open>Fresh identifiers\<close>

text \<open>The identifiers of the next 16 statements, more than a transfer runs, are new and distinct.\<close>

definition fresh_uuids :: "pg_env \<Rightarrow> nat \<Rightarrow> db \<Rightarrow> bool" where
  "fresh_uuids env k d \<longleftrightarrow>
     distinct (map (uuid_at env) [k ..< k + 16]) \<and>
     (\<forall>n \<in> set [k ..< k + 16].
        uuid_at env n \<notin> tr_id ` set (transfers d) \<and>
        uuid_at env n \<notin> ent_id ` set (entries d) \<and>
        uuid_at env n \<notin> ntf_id ` set (notifications d))"

lemma fresh_distinct:
  assumes "fresh_uuids env k d" "k \<le> i" "i < k + 16" "k \<le> j" "j < k + 16"
  shows "uuid_at env i = uuid_at env j \<longleftrightarrow> i = j"
proof -
  have "inj_on (uuid_at env) {k ..< k + 16}"
    using assms(1) by (simp add: fresh_uuids_def distinct_map)
  from inj_on_eq_iff [OF this] show ?thesis using assms(2-5) by simp
qed

lemma fresh_new:
  assumes "fresh_uuids env k d" "k \<le> i" "i < k + 16"
  shows "uuid_at env i \<notin> tr_id ` set (transfers d)"
    "uuid_at env i \<notin> ent_id ` set (entries d)"
    "uuid_at env i \<notin> ntf_id ` set (notifications d)"
  using assms by (simp_all add: fresh_uuids_def)

section \<open>The verdict\<close>

definition transfer_verdict :: "transfer_params \<Rightarrow> time \<Rightarrow> db \<Rightarrow> go_error option" where
  "transfer_verdict arg at d =
     (case (find_account (par_from_account_id arg) d, find_account (par_to_account_id arg) d) of
        (Some a, Some b) \<Rightarrow>
          if acc_currency a \<noteq> par_currency arg \<or> acc_currency b \<noteq> par_currency arg
            then Some ErrCurrencyMismatch
          else if acc_balance b + par_amount arg > MaxSafeMinorUnits
            then Some ErrBalanceLimitExceeded
          else if par_daily_limit arg > 0 \<and>
              outgoing_since (par_from_account_id arg) (at - 24 * 60 * 60 * second) d
                + par_amount arg > par_daily_limit arg
            then Some ErrDailyLimitExceeded
          else if acc_balance a < par_amount arg then Some ErrInsufficientBalance
          else None
      | _ \<Rightarrow> Some ErrRecordNotFound)"

text \<open>Statements on a working database, one equation each.\<close>

lemma lockAccounts_healthy:
  assumes "healthy env"
  shows "\<exists>s'. tables s' = tables s \<and> tx_start s' = tx_start s \<and> pending s' = pending s \<and>
    lockAccounts env f t s =
      (case (find_account f (tables s), find_account t (tables s)) of
         (Some a, Some b) \<Rightarrow> (Inr (a, b), s')
       | _ \<Rightarrow> (Inl ErrRecordNotFound, s')) \<and>
    (find_account f (tables s) \<noteq> None \<and> find_account t (tables s) \<noteq> None \<longrightarrow> tick s' = tick s + 2)"
  using assms
  by (cases "find_account f (tables s)"; cases "find_account t (tables s)")
    (auto simp: lockAccounts_def GetAccountForUpdate_def andthen_def map_error_def query_row_def
      ret_def hold_def)

lemma checks_healthy:
  assumes h: "healthy env" and a: "find_account (par_from_account_id arg) (tables s) = Some a"
    and b: "find_account (par_to_account_id arg) (tables s) = Some b"
    and amt: "0 < par_amount arg" and ok: "schema_ok (tables s)"
    and lim: "par_daily_limit arg \<le> MaxSafeMinorUnits"
  shows "\<exists>s'. tables s' = tables s \<and> tx_start s' = tx_start s \<and> pending s' = pending s \<and>
    tick s \<le> tick s' \<and> tick s' \<le> tick s + 1 \<and>
    transfer_checks env arg a b s =
      (case transfer_verdict arg (time_at env (tick s)) (tables s) of
         Some e \<Rightarrow> if e = ErrInsufficientBalance then (Inr (), s') else (Inl e, s')
       | None \<Rightarrow> (Inr (), s'))"
proof -
  have bal: "0 \<le> acc_balance b"
    using ok find_account_Some [OF b] by (auto simp: schema_defs)
  let ?out = "outgoing_since (par_from_account_id arg)
      (time_at env (tick s) - 24 * 60 * 60 * second) (tables s)"
  have w: "wrap64 (MaxSafeMinorUnits - par_amount arg) = MaxSafeMinorUnits - par_amount arg"
    if "par_amount arg \<le> MaxSafeMinorUnits"
    using that amt by (intro wrap64_id) (auto simp: MaxSafe_numeral)
  have w2: "wrap64 (par_daily_limit arg - par_amount arg) = par_daily_limit arg - par_amount arg"
    if "par_amount arg \<le> MaxSafeMinorUnits" "0 < par_daily_limit arg"
    using that amt lim by (intro wrap64_id) (auto simp: MaxSafe_numeral)
  have bound: "par_amount arg > MaxSafeMinorUnits \<or>
      acc_balance b > wrap64 (MaxSafeMinorUnits - par_amount arg)
      \<longleftrightarrow> acc_balance b + par_amount arg > MaxSafeMinorUnits"
    using w bal by (cases "par_amount arg \<le> MaxSafeMinorUnits") auto
  have out: "0 \<le> ?out"
    using ok unfolding outgoing_since_def by (intro sum_list_nonneg) (auto simp: schema_defs)
  have daily: "par_amount arg > par_daily_limit arg \<or>
      min ?out MaxSafeMinorUnits > wrap64 (par_daily_limit arg - par_amount arg)
      \<longleftrightarrow> ?out + par_amount arg > par_daily_limit arg"
    if "par_amount arg \<le> MaxSafeMinorUnits" "0 < par_daily_limit arg"
    using w2 [OF that] out amt lim by (auto simp: min_def)
  show ?thesis
  proof (cases "acc_currency a = par_currency arg \<and> acc_currency b = par_currency arg \<and>
      acc_balance b + par_amount arg \<le> MaxSafeMinorUnits \<and> 0 < par_daily_limit arg")
    case True
    then have le: "par_amount arg \<le> MaxSafeMinorUnits" using bal by simp
    show ?thesis
      using True a b h bound daily [OF le]
      by (intro exI [of _ "step_tick s"])
        (auto simp: transfer_checks_def check_daily_limit_def transfer_verdict_def andthen_def
          map_error_def SumOutgoingTransfersSince_def sumOutgoingTransfersSince_sql_def raise_def
          ret_def MaxSafe_numeral)
  next
    case False
    then show ?thesis
      using a b bound
      by (intro exI [of _ s])
        (auto simp: transfer_checks_def check_daily_limit_def transfer_verdict_def raise_def ret_def)
  qed
qed

lemma account_bounds:
  assumes "schema_ok d" "find_account i d = Some a"
  shows "0 \<le> acc_balance a" "acc_balance a \<le> MaxSafeMinorUnits"
    "acc_owner a \<in> usr_username ` set (users d)" "i \<in> acc_id ` set (accounts d)" "acc_id a = i"
  using assms(1) find_account_Some [OF assms(2)] by (auto simp: schema_defs)

lemma key_unused:
  "find_transfer_by_key f k d = None \<Longrightarrow>
     (f, k) \<notin> (\<lambda>t. (tr_from_account_id t, tr_idempotency_key t)) ` set (transfers d)"
  by (auto simp: find_transfer_by_key_def find_None_iff)

lemma move_rows_healthy:
  assumes h: "healthy env" and ok: "schema_ok (tables s)" and at: "tx_start s = Some at"
    and fresh: "fresh_uuids env k (tables s)" "k \<le> tick s" "tick s + 3 \<le> k + 16"
    and a: "find_account (par_from_account_id arg) (tables s) = Some a"
    and b: "find_account (par_to_account_id arg) (tables s) = Some b"
    and neq: "par_from_account_id arg \<noteq> par_to_account_id arg"
    and amt: "0 < par_amount arg" "acc_balance b + par_amount arg \<le> MaxSafeMinorUnits"
    and key: "find_transfer_by_key (par_from_account_id arg) (par_idempotency_key arg) (tables s) = None"
  shows "\<exists>s' res. tick s' \<le> tick s + 5 \<and> move_rows env arg s =
    (if acc_balance a < par_amount arg then (Inl ErrInsufficientBalance, s') else (Inr res, s')) \<and>
    (par_amount arg \<le> acc_balance a \<longrightarrow> tr_id (res_transfer res) = uuid_at env (tick s))"
proof -
  note A = account_bounds [OF ok a] and B = account_bounds [OF ok b]
  have w: "wrap64 (- par_amount arg) = - par_amount arg"
    using amt B by (intro wrap64_neg_safe) auto
  have new: "uuid_at env (tick s) \<notin> tr_id ` set (transfers (tables s))"
    "uuid_at env (Suc (tick s)) \<notin> ent_id ` set (entries (tables s))"
    "uuid_at env (Suc (Suc (tick s))) \<notin> ent_id ` set (entries (tables s))"
    "uuid_at env (Suc (Suc (tick s))) \<noteq> uuid_at env (Suc (tick s))"
    using fresh_new [OF fresh(1), of "tick s"] fresh_new [OF fresh(1), of "Suc (tick s)"]
      fresh_new [OF fresh(1), of "Suc (Suc (tick s))"] fresh(2,3)
      fresh_distinct [OF fresh(1), of "Suc (tick s)" "Suc (Suc (tick s))"] by auto
  have fa: "find (\<lambda>r. acc_id r = par_from_account_id arg) (accounts (tables s)) = Some a"
    and fb: "find (\<lambda>r. acc_id r = par_to_account_id arg) (accounts (tables s)) = Some b"
    using a b by (simp_all add: find_account_def)
  have rng: "is_int64 (acc_balance a - par_amount arg)" "is_int64 (acc_balance b + par_amount arg)"
    using A B amt by (auto simp: is_int64_def MaxSafe_numeral)
  have mx: "par_amount arg \<le> 9007199254740991" "acc_balance b + par_amount arg \<le> 9007199254740991"
    "acc_balance a \<le> 9007199254740991"
    using amt A B by (auto simp: MaxSafe_numeral)
  show ?thesis
    using h at A B amt mx rng new key_unused [OF key] neq
    by (simp add: move_rows_def andthen_def map_error_def CreateTransfer_def
        createTransfer_sql_def Let_def CreateEntry_def createEntry_sql_def AddAccountBalance_def
        addAccountBalance_sql_def find_account_def w fa fb find_replace_by ret_def mapBalanceError_def)
qed

lemma notify_side_healthy:
  assumes h: "healthy env" and ok: "schema_ok (tables s)" and at: "tx_start s \<noteq> None"
    and a: "find_account i (tables s) = Some a"
    and t: "t \<in> set (transfers (tables s))"
    and dir: "(dir = ''sent'' \<and> tr_from_account_id t = i) \<or> (dir = ''received'' \<and> tr_to_account_id t = i)"
    and new: "uuid_at env (tick s) \<notin> ntf_id ` set (notifications (tables s))"
      "(tr_id t, i) \<notin> (\<lambda>n. (ntf_transfer_id n, ntf_account_id n)) ` set (notifications (tables s))"
  shows "\<exists>s' n. notify_side env dir (tr_id t) i s = (Inr (), s') \<and> tick s' = tick s + 2 \<and>
    tables s' = (tables s)\<lparr>notifications := notifications (tables s) @ [n]\<rparr> \<and>
    ntf_id n = uuid_at env (tick s) \<and> ntf_transfer_id n = tr_id t \<and> ntf_account_id n = i"
proof -
  note A = account_bounds [OF ok a]
  have ft: "find (\<lambda>x. tr_id x = tr_id t) (transfers (tables s)) = Some t"
    using find_key_in [of tr_id "transfers (tables s)" t] ok t by (simp add: schema_defs)
  have amt: "0 < tr_amount t" "tr_amount t \<le> 9007199254740991" "acc_balance a \<le> 9007199254740991"
    using ok t A by (auto simp: schema_defs MaxSafe_numeral)
  show ?thesis
    using h at A amt dir new
    by (auto simp: notify_side_def andthen_def map_error_def CreateNotification_def
        createNotification_sql_def a ft Let_def PublishNotification_def enqueue_notify_def)
qed

lemma post_transfer_healthy:
  assumes h: "healthy env" and ok: "schema_ok (tables s)" and at: "tx_start s = Some at"
    and pend: "pending s = []"
    and fresh: "fresh_uuids env k (tables s)" "k \<le> tick s" "tick s \<le> k + 6"
    and a: "find_account (par_from_account_id arg) (tables s) = Some a"
    and b: "find_account (par_to_account_id arg) (tables s) = Some b"
    and neq: "par_from_account_id arg \<noteq> par_to_account_id arg"
    and amt: "0 < par_amount arg" "acc_balance b + par_amount arg \<le> MaxSafeMinorUnits"
    and key: "find_transfer_by_key (par_from_account_id arg) (par_idempotency_key arg) (tables s) = None"
  shows "\<exists>s' res. post_transfer env arg s =
    (if acc_balance a < par_amount arg then (Inl ErrInsufficientBalance, s') else (Inr res, s'))"
proof -
  obtain s5 res where tk: "tick s5 \<le> tick s + 5" and m: "move_rows env arg s =
    (if acc_balance a < par_amount arg then (Inl ErrInsufficientBalance, s5) else (Inr res, s5))"
    and tid: "par_amount arg \<le> acc_balance a \<longrightarrow> tr_id (res_transfer res) = uuid_at env (tick s)"
    using move_rows_healthy [OF h ok at fresh(1,2) _ a b neq amt key] fresh(3) by auto
  show ?thesis
  proof (cases "acc_balance a < par_amount arg")
    case True
    then show ?thesis using m by (auto simp: post_transfer_def andthen_def)
  next
    case False
    let ?d = "tables s" and ?tr = "res_transfer res" and ?f = "par_from_account_id arg"
      and ?t = "par_to_account_id arg"
    from False m have mr: "move_rows env arg s = (Inr res, s5)" by simp
    have ok5: "schema_ok (tables s5)"
      using keepsD [OF move_rows_keeps _ mr] ok by (simp add: on_tables_def)
    have tk5: "tick s \<le> tick s5"
      using keepsD [OF transfer_ticks(5) _ mr, of "tick s"] by simp
    from mr at show ?thesis
    proof (rule move_rows_Inr)
      fix a' b' d4
      assume rows: "rows_moved arg at ?d res a' b'" and fa: "find_account ?f ?d = Some a'"
        and d4: "d4 = ?d\<lparr>accounts := credit ?f (- par_amount arg) (accounts ?d)\<rparr>"
        and fb: "find_account ?t d4 = Some b'"
        and t5: "tables s5 = ?d\<lparr>transfers := transfers ?d @ [?tr],
            entries := entries ?d @ [res_from_entry res, res_to_entry res],
            accounts := credit ?t (par_amount arg) (accounts d4)\<rparr>"
        and st5: "tx_start s5 = Some at" "pending s5 = pending s"
      have tr5: "?tr \<in> set (transfers (tables s5))" by (simp add: t5)
      have notin: "tr_id ?tr \<notin> ntf_transfer_id ` set (notifications ?d)"
        using ok rows by (auto simp: schema_defs rows_moved_def Let_def)
      have acc5: "find_account i (tables s5) \<noteq> None" if "find_account i ?d \<noteq> None" for i
        using that by (auto simp: t5 d4 find_account_def credit_def find_replace_by)
      then obtain a5 where a5: "find_account ?f (tables s5) = Some a5" using a by auto
      have ids: "acc_id (res_from_account res) = ?f" "acc_id (res_to_account res) = ?t"
        using rows_moved_ids [OF rows] fa fb by (auto dest: find_account_Some)
      obtain s6 n6 where s6: "notify_side env ''sent'' (tr_id ?tr) ?f s5 = (Inr (), s6)"
        and k6: "tick s6 = tick s5 + 2"
        and t6: "tables s6 = (tables s5)\<lparr>notifications := notifications (tables s5) @ [n6]\<rparr>"
        and n6: "ntf_id n6 = uuid_at env (tick s5)" "ntf_account_id n6 = ?f"
        using notify_side_healthy [OF h ok5 _ a5 tr5, of "''sent''"] rows notin st5
          fresh_new(3) [OF fresh(1), of "tick s5"] tk tk5 fresh(2,3)
        by (auto simp: rows_moved_def Let_def t5 image_iff)
      have ok6: "schema_ok (tables s6)"
        using keepsD [OF notify_side_keeps _ s6] ok5 by (simp add: on_tables_def)
      have st6: "tx_start s6 \<noteq> None" using s6 ok5 st5 by (auto elim!: notify_side_Inr)
      obtain a6 where a6: "find_account ?t (tables s6) = Some a6" using b acc5 by (auto simp: t6)
      have tr6: "?tr \<in> set (transfers (tables s6))" using tr5 by (simp add: t6)
      obtain s7 where "notify_side env ''received'' (tr_id ?tr) ?t s6 = (Inr (), s7)"
        using notify_side_healthy [OF h ok6 st6 a6 tr6, of "''received''"] rows notin neq n6
          fresh_new(3) [OF fresh(1), of "tick s6"] fresh_distinct [OF fresh(1), of "tick s5" "tick s6"]
          k6 tk tk5 fresh(2,3)
        by (auto simp: rows_moved_def Let_def t6 t5 image_iff)
      then show ?thesis
        using mr s6 False ids by (auto simp: post_transfer_def andthen_def ret_def)
    qed
  qed
qed

lemma transfer_body_healthy:
  assumes h: "healthy env" and ok: "schema_ok (tables s)" and at: "tx_start s = Some at"
    and pend: "pending s = []" and fresh: "fresh_uuids env k (tables s)" "tick s = k + 2"
    and neq: "par_from_account_id arg \<noteq> par_to_account_id arg"
    and amt: "0 < par_amount arg" and lim: "par_daily_limit arg \<le> MaxSafeMinorUnits"
    and key: "find_transfer_by_key (par_from_account_id arg) (par_idempotency_key arg) (tables s) = None"
  shows "\<exists>s' res. transfer_body env arg s =
    (case transfer_verdict arg (time_at env (k + 5)) (tables s) of
       Some e \<Rightarrow> (Inl e, s') | None \<Rightarrow> (Inr res, s'))"
proof -
  let ?f = "par_from_account_id arg" and ?t = "par_to_account_id arg"
  obtain s1 where l: "tables s1 = tables s" "tx_start s1 = Some at" "pending s1 = []"
    "lockAccounts env ?f ?t s =
      (case (find_account ?f (tables s), find_account ?t (tables s)) of
         (Some a, Some b) \<Rightarrow> (Inr (a, b), s1) | _ \<Rightarrow> (Inl ErrRecordNotFound, s1))"
    "find_account ?f (tables s) \<noteq> None \<and> find_account ?t (tables s) \<noteq> None \<longrightarrow> tick s1 = tick s + 2"
    using lockAccounts_healthy [OF h, of s ?f ?t] at pend by auto
  show ?thesis
  proof (cases "find_account ?f (tables s) = None \<or> find_account ?t (tables s) = None")
    case True
    then have "transfer_verdict arg (time_at env (k + 5)) (tables s) = Some ErrRecordNotFound"
      by (auto simp: transfer_verdict_def split: option.split)
    moreover have "transfer_body env arg s = (Inl ErrRecordNotFound, s1)"
      using True l(4) by (auto simp: transfer_body_def andthen_def split: option.splits)
    ultimately show ?thesis by (intro exI [of _ s1] exI) auto
  next
    case False
    then obtain a b where a: "find_account ?f (tables s) = Some a" and b: "find_account ?t (tables s) = Some b"
      by auto
    let ?s2 = "step_tick s1"
    have s2: "tables ?s2 = tables s" "tx_start ?s2 = Some at" "pending ?s2 = []" "tick ?s2 = k + 5"
      using l False fresh(2) by auto
    have body: "transfer_body env arg s =
        andthen (transfer_checks env arg a b) (\<lambda>_. post_transfer env arg) ?s2"
      using l(1,4) a b key h
      by (simp add: transfer_body_def andthen_def handle_def GetTransferBySourceAndIdempotencyKey_def
          query_row_def)
    let ?v = "transfer_verdict arg (time_at env (k + 5)) (tables s)"
    obtain s3 where s3: "tables s3 = tables s" "tx_start s3 = Some at" "pending s3 = []"
        "k + 5 \<le> tick s3" "tick s3 \<le> k + 6"
      and c: "transfer_checks env arg a b ?s2 =
        (case ?v of Some e \<Rightarrow> if e = ErrInsufficientBalance then (Inr (), s3) else (Inl e, s3)
         | None \<Rightarrow> (Inr (), s3))"
      using checks_healthy [OF h, of arg ?s2 a b] a b amt lim ok s2 by (auto simp del: step_tick_sel)
    show ?thesis
    proof (cases "?v = None \<or> ?v = Some ErrInsufficientBalance")
      case True
      then have room: "acc_balance b + par_amount arg \<le> MaxSafeMinorUnits"
        and short: "?v = Some ErrInsufficientBalance \<longleftrightarrow> acc_balance a < par_amount arg"
        using a b by (auto simp: transfer_verdict_def split: if_splits)
      from post_transfer_healthy [OF h, of s3 at k arg a b] obtain s' res where
        "post_transfer env arg s3 =
          (if acc_balance a < par_amount arg then (Inl ErrInsufficientBalance, s') else (Inr res, s'))"
        using s3 ok fresh a b neq amt room key by auto
      then show ?thesis
        using True short c body by (intro exI [of _ s'] exI [of _ res]) (auto simp: andthen_def)
    next
      case False
      then show ?thesis using c body by (intro exI [of _ s3] exI) (auto simp: andthen_def)
    qed
  qed
qed

lemma verdict_error:
  "transfer_verdict arg at d = Some e \<Longrightarrow> \<not> errors_is e ErrUniqueViolation"
  by (auto simp: transfer_verdict_def split: option.splits if_splits)

lemma committed_commit:
  assumes "transfer_body env arg (begin_tx env s) = (Inr res, s1)" "schema_ok (tables s)"
    and "find_transfer_by_key (par_from_account_id arg) (par_idempotency_key arg) (tables s) = None"
  shows "committed arg (time_at env (tick s)) (tables s) res (tables (commit (step_tick s1)))"
  using transfer_commit [OF assms(1,2)] assms(3) by (auto simp: replayed_def)

section \<open>Property\<close>

lemma nonpositive_refused:
  assumes "schema_ok (tables s)" and amt: "par_amount arg \<le> 0"
    and key: "find_transfer_by_key (par_from_account_id arg) (par_idempotency_key arg) (tables s) = None"
    and run: "TransferTx env arg s = (r, s')"
  shows "isl r \<and> tables s' = tables s"
  using run assms(1)
proof (cases rule: TransferTx_outcome)
  case same
  then show ?thesis using key by (cases r) (auto simp: replayed_def)
next
  case (moved k n res)
  then show ?thesis using amt by (auto simp: committed_def posting_def rows_moved_def Let_def)
qed

text \<open>
  C7 (functional). On a working database whose constraints hold, a new transfer between two different
  accounts, under a key that its source has not used, is decided exactly by \<open>transfer_verdict\<close>: a
  missing account, a currency that does not match, a destination that would exceed its limit, a daily limit
  that would be exceeded and a source that cannot pay are reported as the corresponding errors, in this order
  and without effect; every other transfer of a positive amount is posted and returned. The daily sum is taken
  at the clock of the sum, the sixth call of the database. An amount that is not positive is an error without
  effect. The daily limit is at most \<open>MaxSafeMinorUnits\<close>, as the configuration enforces, and the
  identifiers that the database draws for new rows are new.
\<close>

theorem transfer_decides:
  assumes h: "healthy env" and ok: "schema_ok (tables s)"
    and fresh: "fresh_uuids env (tick s) (tables s)"
    and neq: "par_from_account_id arg \<noteq> par_to_account_id arg"
    and lim: "par_daily_limit arg \<le> MaxSafeMinorUnits"
    and key: "find_transfer_by_key (par_from_account_id arg) (par_idempotency_key arg) (tables s) = None"
    and run: "TransferTx env arg s = (r, s')"
  shows "if 0 < par_amount arg then
      (case transfer_verdict arg (time_at env (tick s + 5)) (tables s) of
         Some e \<Rightarrow> r = Inl e \<and> tables s' = tables s
       | None \<Rightarrow> \<exists>res at. r = Inr res \<and> committed arg at (tables s) res (tables s'))
    else isl r \<and> tables s' = tables s"
proof (cases "0 < par_amount arg")
  case False
  then show ?thesis using nonpositive_refused [OF ok _ key run] by simp
next
  case amt: True
  let ?s1 = "step_tick s" and ?b = "transfer_body env arg"
  let ?v = "transfer_verdict arg (time_at env (tick s + 5)) (tables s)"
  have look: "TransferTx env arg s = transfer_move env arg ?s1"
    using h key by (simp add: TransferTx_def handle_def GetTransferBySourceAndIdempotencyKey_def
        query_row_def)
  from transfer_body_healthy [OF h, of "begin_tx env ?s1" "time_at env (Suc (tick s))" "tick s" arg]
  obtain s2 res where body: "?b (begin_tx env ?s1) = (case ?v of Some e \<Rightarrow> (Inl e, s2) | None \<Rightarrow> (Inr res, s2))"
    using ok fresh neq amt lim key by auto
  show ?thesis
  proof (cases ?v)
    case None
    then have b: "?b (begin_tx env ?s1) = (Inr res, s2)" using body by simp
    then have "r = Inr res \<and> s' = commit (step_tick s2)"
      using run look by (auto simp: transfer_move_def handle_def healthy_execTx [OF h] ret_def)
    then show ?thesis using None amt committed_commit [OF b] ok key by auto
  next
    case (Some e)
    then have "?b (begin_tx env ?s1) = (Inl e, s2)" using body by simp
    then have "r = Inl e \<and> s' = rollback ?s1 s2"
      using run look verdict_error [OF Some]
      by (auto simp: transfer_move_def handle_def healthy_execTx [OF h] raise_def transfer_resolve_def)
    then show ?thesis using Some amt by auto
  qed
qed

end
