(* ===== verification/Sample.thy ===== *)
theory Sample
  imports Postgres
begin

text \<open>
  A small bank on which the witnesses evaluate the model: two users, an account each, an
  opening entry, a session and an unused verification code; a database server that works,
  and one that loses the acknowledgement of every commit. Statement \<open>n\<close> of a run gets
  the identifier \<open>1000 + n\<close> and the time \<open>n\<close> seconds.
\<close>

definition sample_env :: pg_env where
  "sample_env = \<lparr>uuid_at = (\<lambda>n. word_of_int (1000 + int n)), time_at = (\<lambda>n. int n * second),
     fault_at = (\<lambda>_. None), commit_at = (\<lambda>_. Committed)\<rparr>"

definition lost_ack_env :: pg_env where
  "lost_ack_env = sample_env\<lparr>commit_at := (\<lambda>_. CommitLost ''connection reset'')\<rparr>"

definition sample_user :: "uuid \<Rightarrow> string \<Rightarrow> user" where
  "sample_user i name = \<lparr>usr_id = i, usr_username = name, usr_hashed_password = ''hash'',
     usr_full_name = name, usr_email = name @ ''@example.org'', usr_is_email_verified = False,
     usr_password_changed_at = zero_time, usr_created_at = 0\<rparr>"

definition sample_account :: "uuid \<Rightarrow> string \<Rightarrow> int \<Rightarrow> account" where
  "sample_account i own bal = \<lparr>acc_id = i, acc_owner = own, acc_balance = bal,
     acc_currency = ''USD'', acc_created_at = 0\<rparr>"

definition sample_session :: session where
  "sample_session = \<lparr>ses_id = 20, ses_username = ''alice'', ses_refresh_token = ''hash-1'',
     ses_user_agent = ''agent'', ses_client_ip = ''::1'', ses_is_blocked = False,
     ses_expires_at = 3600 * second, ses_created_at = 0\<rparr>"

definition sample_code :: verify_email where
  "sample_code = \<lparr>ve_id = 30, ve_username = ''alice'', ve_email = ''alice@example.org'',
     ve_secret_code = ''s3cret'', ve_is_used = False, ve_created_at = 0,
     ve_expired_at = 900 * second\<rparr>"

definition sample_db :: db where
  "sample_db = empty_db\<lparr>
     users := [sample_user 1 ''alice'', sample_user 2 ''bob''],
     accounts := [sample_account 10 ''alice'' 100, sample_account 11 ''bob'' 0],
     entries := [\<lparr>ent_id = 5, ent_account_id = 10, ent_amount = 100, ent_created_at = 0\<rparr>],
     sessions := [sample_session],
     verify_emails := [sample_code]\<rparr>"

abbreviation start :: pg where
  "start \<equiv> connect_db sample_db"

lemma sample_schema: "schema_ok sample_db"
  by code_simp

lemma connect_db_sel [simp]:
  "tables (connect_db d) = d" "tick (connect_db d) = 0" "tx_start (connect_db d) = None"
  "pending (connect_db d) = []" "held (connect_db d) = []"
  by (simp_all add: connect_db_def)

text \<open>Running an operation: its result and the state it leaves.\<close>

abbreviation result :: "'a pg_op \<Rightarrow> pg \<Rightarrow> go_error + 'a" where
  "result m s \<equiv> fst (m s)"

abbreviation after :: "'a pg_op \<Rightarrow> pg \<Rightarrow> pg" where
  "after m s \<equiv> snd (m s)"

lemma run_eq: "m s = (result m s, after m s)"
  by simp

lemma run_Inr: "\<not> isl (result m s) \<Longrightarrow> m s = (Inr (projr (result m s)), after m s)"
  by (simp add: prod_eq_iff)

lemma run_Inl: "isl (result m s) \<Longrightarrow> m s = (Inl (projl (result m s)), after m s)"
  by (simp add: prod_eq_iff)

end
