(* ===== verification/Transfer_Witnesses.thy ===== *)
theory Transfer_Witnesses
  imports Transfer_Refine Transfer_Decision Sample
begin

text \<open>
  The properties of transfers at concrete inputs: alice, who has 100, pays 30 to bob with
  a daily limit of 50; the same request sent again; requests that are refused.
\<close>

definition sample_arg :: transfer_params where
  "sample_arg = \<lparr>par_from_account_id = 10, par_to_account_id = 11, par_amount = 30,
     par_currency = ''USD'', par_idempotency_key = 77, par_daily_limit = 50\<rparr>"

definition self_arg :: transfer_params where
  "self_arg = sample_arg\<lparr>par_to_account_id := 10\<rparr>"

definition large_arg :: transfer_params where
  "large_arg = sample_arg\<lparr>par_amount := 500, par_daily_limit := 0\<rparr>"

abbreviation pay :: "transfer_result pg_op" where
  "pay \<equiv> TransferTx sample_env sample_arg"

definition paid_result :: transfer_result where
  "paid_result = projr (result pay start)"

definition paid_state :: pg where
  "paid_state = after pay start"

lemma pay_run: "pay start = (Inr paid_result, paid_state)"
  unfolding paid_result_def paid_state_def by (rule run_Inr) code_simp

lemma pay_balances: "map acc_balance (accounts (tables paid_state)) = [70, 30]"
  by code_simp

lemma pay_transfer: "tr_id (res_transfer paid_result) = 1006"
  by code_simp

lemma sample_books: "books_ok sample_db"
  by code_simp

lemma sample_key_unused:
  "find_transfer_by_key (par_from_account_id sample_arg) (par_idempotency_key sample_arg) sample_db = None"
  by code_simp

theorem transfer_keeps_books_witness:
  "books_ok sample_db \<and> books_ok (tables paid_state) \<and>
   map acc_balance (accounts (tables paid_state)) = [70, 30]"
  using transfer_keeps_books [OF _ pay_run] sample_books pay_balances by simp

theorem transfer_conserves_money_witness:
  "total_balance (tables paid_state) = total_balance sample_db \<and>
   map acc_balance (accounts (tables paid_state)) = [70, 30]"
  using transfer_conserves_money [OF _ pay_run] sample_schema pay_balances by simp

theorem transfer_success_witness:
  "transfers (tables paid_state) = [res_transfer paid_result] \<and>
   tr_amount (res_transfer paid_result) = 30 \<and> tr_id (res_transfer paid_result) = 1006"
proof -
  have "tables paid_state \<noteq> sample_db" "transfers sample_db = []" by code_simp+
  then show ?thesis
    using transfer_success [OF _ pay_run] sample_schema pay_transfer
    by (simp add: sample_arg_def)
qed

theorem transfer_notifies_witness:
  "\<exists>n m. notifications (tables paid_state) = [n, m] \<and> ntf_owner n = ''alice'' \<and>
     ntf_balance n = 70 \<and> ntf_owner m = ''bob'' \<and> ntf_balance m = 30 \<and>
     notified (tables paid_state) = [(ntf_id n, ''alice''), (ntf_id m, ''bob'')]"
proof -
  have "notifications sample_db = []" "notified sample_db = []"
    "acc_owner (res_from_account paid_result) = ''alice''" "acc_balance (res_from_account paid_result) = 70"
    "acc_owner (res_to_account paid_result) = ''bob''" "acc_balance (res_to_account paid_result) = 30"
    by code_simp+
  then show ?thesis
    using transfer_notifies [OF _ pay_run] sample_schema sample_key_unused by (fastforce simp: announces_def)
qed

text \<open>A refused transfer, and one whose commit is not acknowledged.\<close>

lemma large_run:
  "TransferTx sample_env large_arg start =
     (Inl ErrInsufficientBalance, after (TransferTx sample_env large_arg) start)"
proof -
  have "result (TransferTx sample_env large_arg) start = Inl ErrInsufficientBalance" by code_simp
  then show ?thesis by (simp add: prod_eq_iff)
qed

lemma lost_run:
  "TransferTx lost_ack_env sample_arg start =
     (Inl (DriverError ''connection reset''), after (TransferTx lost_ack_env sample_arg) start)"
proof -
  have "result (TransferTx lost_ack_env sample_arg) start = Inl (DriverError ''connection reset'')"
    by code_simp
  then show ?thesis by (simp add: prod_eq_iff)
qed

theorem transfer_error_atomic_witness:
  "tables (after (TransferTx sample_env large_arg) start) = sample_db \<and>
   (\<exists>at res. committed sample_arg at sample_db res
      (tables (after (TransferTx lost_ack_env sample_arg) start)))"
proof -
  have "tables (after (TransferTx lost_ack_env sample_arg) start) \<noteq> sample_db" by code_simp
  then show ?thesis
    using transfer_error_atomic [OF _ large_run] transfer_error_atomic [OF _ lost_run] sample_schema
    by simp
qed

lemma paid_known:
  "find_transfer_by_key (par_from_account_id sample_arg) (par_idempotency_key sample_arg)
     (tables paid_state) = Some (res_transfer paid_result)"
  "find_account (par_from_account_id sample_arg) (tables paid_state) = Some (res_from_account paid_result)"
  "find_account (tr_to_account_id (res_transfer paid_result)) (tables paid_state) =
     Some (res_to_account paid_result)"
  by code_simp+

theorem transfer_replay_witness:
  "tables (after pay paid_state) = tables paid_state \<and>
   result (TransferTx sample_env large_arg) paid_state = Inl ErrIdempotencyConflict"
proof -
  let ?run = "TransferTx sample_env large_arg"
  have arg: "par_from_account_id large_arg = par_from_account_id sample_arg"
    "par_idempotency_key large_arg = par_idempotency_key sample_arg" "par_amount large_arg = 500"
    by code_simp+
  have "tr_amount (res_transfer paid_result) = 30" by code_simp
  moreover have "\<forall>m. result ?run paid_state \<noteq> Inl (DriverError m)"
  proof -
    have "result ?run paid_state = Inl ErrIdempotencyConflict" by code_simp
    then show ?thesis by simp
  qed
  ultimately show ?thesis
    using transfer_replay [OF paid_known run_eq [of pay]]
      transfer_replay [of large_arg, OF _ _ _ run_eq [of ?run], unfolded arg, OF paid_known] arg
    by auto
qed

theorem transfer_exactly_once_witness:
  "\<exists>at res. committed sample_arg at sample_db res (tables (snd (send_times 2 sample_env sample_arg start)))"
proof -
  have "tables (snd (send_times 2 sample_env sample_arg start)) \<noteq> sample_db" by code_simp
  then show ?thesis
    using transfer_exactly_once [of start 2 sample_env sample_arg] sample_schema
    by (metis connect_db_sel(1) prod.collapse)
qed

theorem transfer_daily_limit_witness:
  "\<exists>n. n < tick paid_state \<and> outgoing_since 10 (time_at sample_env n - 24 * 60 * 60 * second)
     (tables paid_state) \<le> 50"
proof -
  have "par_from_account_id sample_arg = 10" "par_daily_limit sample_arg = 50"
    "(50 :: int) \<le> MaxSafeMinorUnits" by code_simp+
  then show ?thesis
    using transfer_daily_limit [OF _ pay_run] sample_schema sample_key_unused by auto
qed

theorem transfer_refines_ledger_witness:
  "ledger_pay 10 11 30 77 (abs_ledger sample_db) = Some (abs_ledger (tables paid_state))"
proof -
  have "balance_of (abs_ledger (tables paid_state)) 10 \<noteq> balance_of (abs_ledger sample_db) 10"
    by code_simp
  then show ?thesis
    using transfer_refines_ledger [OF _ pay_run] sample_schema by (auto simp: sample_arg_def)
qed

theorem self_transfer_refused_witness:
  "tables (after (TransferTx sample_env self_arg) start) = sample_db \<and>
   result (TransferTx sample_env self_arg) start = Inl ErrRecordNotFound"
proof -
  have "par_from_account_id self_arg = par_to_account_id self_arg"
    "result (TransferTx sample_env self_arg) start = Inl ErrRecordNotFound" by code_simp+
  then show ?thesis
    using self_transfer_refused [of start self_arg sample_env, OF _ _ run_eq [of "TransferTx sample_env self_arg"]]
      sample_books by simp
qed

theorem lock_order_witness:
  "held (after (lockAccounts sample_env 11 10) start) = [AccountRow 10, AccountRow 11]"
proof -
  have "\<not> isl (result (lockAccounts sample_env 11 10) start)"
    "lock_sequence 11 10 = [AccountRow 10, AccountRow 11]" by code_simp+
  then show ?thesis
    using lock_order [of start sample_env 11 10, OF _ run_eq [of "lockAccounts sample_env 11 10"]]
    by (cases "result (lockAccounts sample_env 11 10) start") auto
qed

theorem transfer_decides_witness:
  "(\<exists>at res. committed sample_arg at sample_db res (tables paid_state)) \<and>
   tables (after (TransferTx sample_env large_arg) start) = sample_db \<and>
   isl (result (TransferTx sample_env (sample_arg\<lparr>par_amount := 0\<rparr>)) start)"
proof -
  have "healthy sample_env" by (simp add: healthy_def sample_env_def)
  moreover have "fresh_uuids sample_env 0 sample_db" "(50::int) \<le> MaxSafeMinorUnits"
    "(0::int) \<le> MaxSafeMinorUnits"
    by code_simp+
  moreover have "find_transfer_by_key 10 77 sample_db = None" by code_simp
  ultimately show ?thesis
    using transfer_decides [of sample_env start sample_arg, OF _ _ _ _ _ _ pay_run]
      transfer_decides [of sample_env start large_arg, OF _ _ _ _ _ _ large_run]
      transfer_decides [of sample_env start "sample_arg\<lparr>par_amount := 0\<rparr>", OF _ _ _ _ _ _ run_eq [of "TransferTx sample_env (sample_arg\<lparr>par_amount := 0\<rparr>)"]]
      sample_schema
    by (auto simp: sample_arg_def large_arg_def split: option.splits)
qed

end
