(* ===== verification/Session_Tx.thy ===== *)
theory Session_Tx
  imports Query_Facts Sample
begin

text \<open>
  \<open>internal/db/session_tx.go\<close>: rotating a refresh session in place. The session row is
  locked and checked before the replacement token is made; \<open>NewSession\<close>, the caller's
  function that makes it, is an argument.
\<close>

record session_replacement =
  rep_id :: uuid
  rep_refresh_token_hash :: string
  rep_expires_at :: time

record rotate_params =
  rot_id :: uuid
  rot_username :: string
  rot_refresh_token_hash :: string
  rot_now :: time
  rot_new_session :: "go_error + session_replacement"

text \<open>
  The check of \<open>RotateSessionTx\<close>; comparing two byte strings in constant time is comparing
  them. \<open>rot_new_session\<close> is what the function returns when it is called, which happens
  only after the check.
\<close>

definition session_accepts :: "rotate_params \<Rightarrow> session \<Rightarrow> bool" where
  "session_accepts arg x \<longleftrightarrow>
     \<not> (ses_is_blocked x \<or> ses_username x \<noteq> rot_username arg \<or>
        ses_refresh_token x \<noteq> rot_refresh_token_hash arg \<or>
        \<not> ses_expires_at x > rot_now arg)"

definition rotate_body :: "pg_env \<Rightarrow> rotate_params \<Rightarrow> session pg_op" where
  "rotate_body env arg =
     handle (GetSessionForUpdate env (rot_id arg))
       (\<lambda>err. if errors_is (ClassifyError err) ErrRecordNotFound then raise ErrInvalidSession
              else raise (ClassifyError err))
       (\<lambda>x.
          if \<not> session_accepts arg x then raise ErrInvalidSession
          else
            andthen (lift_res (rot_new_session arg)) (\<lambda>rep.
            if rep_id rep \<noteq> ses_id x then raise ErrSessionIDMismatch
            else map_error ClassifyError
              (RotateSession env (rep_refresh_token_hash rep) (rep_expires_at rep) (ses_id x))))"

definition RotateSessionTx :: "pg_env \<Rightarrow> rotate_params \<Rightarrow> session pg_op" where
  "RotateSessionTx env arg = execTx env (rotate_body env arg)"

section \<open>What a rotation does\<close>

definition rotated :: "rotate_params \<Rightarrow> db \<Rightarrow> session \<Rightarrow> db \<Rightarrow> bool" where
  "rotated arg d y d' \<longleftrightarrow>
     (\<exists>x rep. find_session (rot_id arg) d = Some x \<and> session_accepts arg x \<and>
        rot_new_session arg = Inr rep \<and> rep_id rep = rot_id arg \<and>
        y = x\<lparr>ses_refresh_token := rep_refresh_token_hash rep, ses_expires_at := rep_expires_at rep\<rparr> \<and>
        d' = d\<lparr>sessions := replace_by ses_id (rot_id arg)
               (\<lambda>r. r\<lparr>ses_refresh_token := rep_refresh_token_hash rep,
                      ses_expires_at := rep_expires_at rep\<rparr>) (sessions d)\<rparr>)"

lemma find_session_id: "find_session i d = Some x \<Longrightarrow> ses_id x = i \<and> x \<in> set (sessions d)"
  by (auto simp: find_session_def dest: find_Some_set)

lemma rotate_body_Inr:
  assumes "rotate_body env arg s = (Inr y, s')"
  shows "rotated arg (tables s) y (tables s') \<and> pending s' = pending s"
  using assms
  by (auto simp: rotate_body_def handle_def GetSessionForUpdate_def andthen_Inr andthen_def ret_def
      raise_def lift_res_def rotated_def RotateSession_def update_session_def hold_def map_error_def
      query_row_def run_sql_def find_session_id
      split: prod.splits sum.splits if_splits option.splits)

lemma rotate_body_keeps_schema: "keeps (on_tables schema_ok) (rotate_body env arg)"
  unfolding rotate_body_def by (intro keeps_intros sql_keeps)

interpretation rotate_schema: tx_body "rotate_body env arg" schema_ok for env arg
  by unfold_locales
    (use keepsD [OF rotate_body_keeps_schema] in \<open>force simp: on_tables_def\<close>, simp)

lemma rotated_books: "rotated arg d y d' \<Longrightarrow> ledger_ok d' = ledger_ok d"
  by (auto simp: rotated_def ledger_ok_def entry_sum_def)

text \<open>The outcomes of a rotation: refused without effect, or made.\<close>

lemma RotateSessionTx_outcome:
  assumes "RotateSessionTx env arg s = (r, s')"
  obtains (refused) "tables s' = tables s" "isl r"
    | (made) y where "rotated arg (tables s) y (tables s')" "r = Inr y \<or> (\<exists>m. r = Inl (DriverError m))"
proof (cases r)
  case (Inr y)
  with assms obtain s1 where "rotate_body env arg (begin_tx env s) = (Inr y, s1)"
    "s' = commit (step_tick s1)"
    by (auto simp: RotateSessionTx_def elim: execTx_InrE)
  with rotate_body_Inr [OF this(1)] Inr show thesis
    by (intro made [of y]) (auto simp: publish_pending_def)
next
  case (Inl e)
  with assms have "execTx env (rotate_body env arg) s = (Inl e, s')" by (simp add: RotateSessionTx_def)
  then show thesis
  proof (cases rule: execTx_InlE)
    case (lost m y s1)
    with rotate_body_Inr [OF lost(2)] Inl show thesis
      by (intro made [of y]) (auto simp: publish_pending_def)
  qed (use Inl refused in auto)
qed

lemma rotated_find:
  assumes "rotated arg d y d'"
  shows "find_session i d' = (if i = rot_id arg then Some y else find_session i d)"
  using assms unfolding rotated_def find_session_def by (auto simp: find_replace_by option.map_ident)

section \<open>Which rotations succeed\<close>

definition rotate_verdict :: "rotate_params \<Rightarrow> db \<Rightarrow> go_error option" where
  "rotate_verdict arg d =
     (case find_session (rot_id arg) d of
        None \<Rightarrow> Some ErrInvalidSession
      | Some x \<Rightarrow>
          if \<not> session_accepts arg x then Some ErrInvalidSession
          else case rot_new_session arg of
              Inl e \<Rightarrow> Some e
            | Inr rep \<Rightarrow> if rep_id rep \<noteq> rot_id arg then Some ErrSessionIDMismatch else None)"

lemma rotate_body_healthy:
  assumes "healthy env"
  shows "\<exists>s' y. rotate_body env arg s =
    (case rotate_verdict arg (tables s) of Some e \<Rightarrow> (Inl e, s') | None \<Rightarrow> (Inr y, s'))"
  using assms
  by (auto simp: rotate_body_def rotate_verdict_def handle_def GetSessionForUpdate_def andthen_def
      ret_def raise_def lift_res_def RotateSession_def update_session_def hold_def map_error_def
      query_row_def find_session_id split: option.split sum.split)

text \<open>
  On a working database a refresh session is rotated exactly when it exists,
  is not blocked, belongs to the user, carries the presented token hash and has not
  expired, and the replacement could be made for the same session; the row then carries the new
  hash and expiry and nothing else changes. Every other request is refused, as an invalid
  session whatever the reason, and changes nothing.
\<close>

theorem rotate_decides:
  assumes h: "healthy env" and run: "RotateSessionTx env arg s = (r, s')"
  shows "case rotate_verdict arg (tables s) of
      Some e \<Rightarrow> r = Inl e \<and> tables s' = tables s
    | None \<Rightarrow> \<exists>y. r = Inr y \<and> rotated arg (tables s) y (tables s')"
proof -
  obtain s1 y where b: "rotate_body env arg (begin_tx env s) =
    (case rotate_verdict arg (tables s) of Some e \<Rightarrow> (Inl e, s1) | None \<Rightarrow> (Inr y, s1))"
    using rotate_body_healthy [OF h, of arg "begin_tx env s"] by auto
  show ?thesis
  proof (cases "rotate_verdict arg (tables s)")
    case None
    then have c: "rotate_body env arg (begin_tx env s) = (Inr y, s1)" using b by simp
    from rotate_body_Inr [OF c] have "rotated arg (tables s) y (tables (commit (step_tick s1)))"
      by (simp add: publish_pending_def)
    then show ?thesis using None run c by (auto simp: RotateSessionTx_def healthy_execTx [OF h])
  next
    case (Some e)
    then show ?thesis using b run by (auto simp: RotateSessionTx_def healthy_execTx [OF h])
  qed
qed

section \<open>A token is used once\<close>

text \<open>
  A history of requests on one connection after the other: rotations with whatever token is
  presented, and logouts, which block the session. The store's answer to each is recorded.
\<close>

datatype session_request = Renew rotate_params | Logout uuid

fun serve :: "pg_env \<Rightarrow> session_request \<Rightarrow> session pg_op" where
  "serve env (Renew arg) = RotateSessionTx env arg"
| "serve env (Logout i) = BlockSession env i"

fun serve_all :: "pg_env \<Rightarrow> session_request list \<Rightarrow> pg \<Rightarrow> (session_request \<times> (go_error + session)) list \<times> pg" where
  "serve_all env [] s = ([], s)"
| "serve_all env (q # qs) s =
     (let (r, s1) = serve env q s; (rs, s2) = serve_all env qs s1 in ((q, r) # rs, s2))"

text \<open>The token hashes a history accepted on session \<open>i\<close>, and those it could have issued.\<close>

definition accepted :: "uuid \<Rightarrow> (session_request \<times> (go_error + session)) list \<Rightarrow> string list" where
  "accepted i log = concat (map (\<lambda>p. case p of
       (Renew arg, Inr _) \<Rightarrow> if rot_id arg = i then [rot_refresh_token_hash arg] else []
     | _ \<Rightarrow> []) log)"

definition issued :: "uuid \<Rightarrow> session_request list \<Rightarrow> string list" where
  "issued i qs = concat (map (\<lambda>q. case q of
       Renew arg \<Rightarrow> (case rot_new_session arg of
          Inr rep \<Rightarrow> if rot_id arg = i then [rep_refresh_token_hash rep] else [] | Inl _ \<Rightarrow> [])
     | Logout _ \<Rightarrow> []) qs)"

lemma BlockSession_find:
  assumes "BlockSession env j s = (r, s')"
  shows "tables s' = tables s \<or>
    (\<exists>x. find_session j (tables s) = Some x \<and>
       (\<forall>i. find_session i (tables s') =
          (if i = j then Some (x\<lparr>ses_is_blocked := True\<rparr>) else find_session i (tables s))))"
  using assms
  by (auto simp: BlockSession_def run_sql_def update_session_def find_session_def find_replace_by
      option.map_ident split: option.splits)

lemma BlockSession_hash:
  assumes "BlockSession env j s = (r, s')"
  shows "map_option ses_refresh_token (find_session i (tables s')) =
    map_option ses_refresh_token (find_session i (tables s))"
  using BlockSession_find [OF assms] by auto

definition current_hash :: "uuid \<Rightarrow> db \<Rightarrow> string option" where
  "current_hash i d = map_option ses_refresh_token (find_session i d)"

text \<open>One step: the hash accepted is the current one, the next is one just issued or the same.\<close>

lemma serve_hash:
  assumes "serve env q s = (r, s')"
  shows "(\<forall>h \<in> set (accepted i [(q, r)]).
      current_hash i (tables s) = Some h \<and>
      (\<exists>g \<in> set (issued i [q]). current_hash i (tables s') = Some g)) \<and>
    (current_hash i (tables s') =
       current_hash i (tables s) \<or>
     (\<exists>g \<in> set (issued i [q]). current_hash i (tables s') = Some g))"
proof (cases q)
  case (Logout j)
  then show ?thesis using BlockSession_hash [of env j s r s'] assms by (simp add: accepted_def current_hash_def)
next
  case (Renew arg)
  with assms have "RotateSessionTx env arg s = (r, s')" by simp
  then show ?thesis
  proof (cases rule: RotateSessionTx_outcome)
    case refused
    then show ?thesis using Renew by (cases r) (auto simp: accepted_def)
  next
    case (made y)
    note find = rotated_find [OF made(1), of i]
    from made(1) obtain x rep where "find_session (rot_id arg) (tables s) = Some x"
      "ses_refresh_token x = rot_refresh_token_hash arg" "rot_new_session arg = Inr rep"
      "ses_refresh_token y = rep_refresh_token_hash rep"
      by (auto simp: rotated_def session_accepts_def)
    then show ?thesis
      using find made(2) Renew by (cases r) (auto simp: accepted_def issued_def current_hash_def split: if_splits)
  qed
qed

lemma accepted_Cons: "accepted i (p # log) = accepted i [p] @ accepted i log"
  by (simp add: accepted_def)

lemma issued_Cons: "issued i (q # qs) = issued i [q] @ issued i qs"
  by (simp add: issued_def)

lemma accepted_short: "accepted i [(q, r)] = [] \<or> (\<exists>h. accepted i [(q, r)] = [h])"
  by (auto simp: accepted_def split: session_request.split sum.split)

lemma accepted_origin:
  assumes "serve_all env qs s = (log, s')" "h \<in> set (accepted i log)"
  shows "current_hash i (tables s) = Some h \<or> h \<in> set (issued i qs)"
  using assms
proof (induction qs arbitrary: s log)
  case Nil
  then show ?case by (simp add: accepted_def)
next
  case (Cons q qs)
  obtain r s1 where q: "serve env q s = (r, s1)" by fastforce
  obtain log1 where rest: "serve_all env qs s1 = (log1, s')" and log: "log = (q, r) # log1"
    using Cons.prems(1) q by (auto split: prod.splits)
  consider "h \<in> set (accepted i [(q, r)])" | "h \<in> set (accepted i log1)"
    using Cons.prems(2) accepted_Cons [of i "(q, r)" log1] log by auto
  then show ?case
  proof cases
    case 1
    then show ?thesis using serve_hash [OF q, of i] by auto
  next
    case 2
    then have "current_hash i (tables s1) = Some h \<or> h \<in> set (issued i qs)" by (rule Cons.IH [OF rest])
    moreover have "current_hash i (tables s1) = current_hash i (tables s) \<or> (\<exists>g \<in> set (issued i [q]). current_hash i (tables s1) = Some g)"
      using serve_hash [OF q, of i] by blast
    ultimately have "current_hash i (tables s) = Some h \<or> h \<in> set (issued i [q]) \<or> h \<in> set (issued i qs)" by force
    then show ?thesis unfolding issued_Cons [of i q qs] by simp
  qed
qed

text \<open>
  A refresh token is worth one renewal: in any history of renewals and logouts,
  through any failures of statements and commits, no token hash is accepted twice on a
  session, provided the replacement tokens are new (different from each other and from the token
  the session starts with), as the random nonce in each token makes them.
\<close>

theorem refresh_token_used_once:
  assumes "serve_all env qs s = (log, s')"
    and "distinct (issued i qs)"
    and "\<forall>h \<in> set (issued i qs). current_hash i (tables s) \<noteq> Some h"
  shows "distinct (accepted i log)"
  using assms
proof (induction qs arbitrary: s log)
  case Nil
  then show ?case by (simp add: accepted_def)
next
  case (Cons q qs)
  obtain r s1 where q: "serve env q s = (r, s1)" by fastforce
  obtain log1 where rest: "serve_all env qs s1 = (log1, s')" and log: "log = (q, r) # log1"
    using Cons.prems(1) q by (auto split: prod.splits)
  note step = serve_hash [OF q, of i] and iss = issued_Cons [of i q qs]
  have fresh1: "\<forall>h \<in> set (issued i qs). current_hash i (tables s1) \<noteq> Some h"
    using step Cons.prems(2,3) unfolding iss by fastforce
  have d1: "distinct (accepted i log1)"
    using Cons.IH [OF rest _ fresh1] Cons.prems(2) unfolding iss by simp
  have "h \<notin> set (accepted i log1)" if "h \<in> set (accepted i [(q, r)])" for h
    using accepted_origin [OF rest, of h i] step that Cons.prems(2,3) unfolding iss by fastforce
  then show ?case
    using d1 accepted_short [of i q r] unfolding log accepted_Cons [of i "(q, r)" log1] by auto
qed

text \<open>
  Logging out is final: once a session is blocked no request renews it, and it
  stays blocked through any further requests.
\<close>

theorem blocked_is_final:
  assumes "serve_all env qs s = (log, s')"
    and "find_session i (tables s) = Some x" "ses_is_blocked x"
  shows "accepted i log = [] \<and> (\<exists>y. find_session i (tables s') = Some y \<and> ses_is_blocked y)"
  using assms
proof (induction qs arbitrary: s log x)
  case Nil
  then show ?case by (simp add: accepted_def)
next
  case (Cons q qs)
  obtain r s1 where q: "serve env q s = (r, s1)" by fastforce
  obtain log1 where rest: "serve_all env qs s1 = (log1, s')" and log: "log = (q, r) # log1"
    using Cons.prems(1) q by (auto split: prod.splits)
  have step: "accepted i [(q, r)] = [] \<and> (\<exists>y. find_session i (tables s1) = Some y \<and> ses_is_blocked y)"
  proof (cases q)
    case (Logout j)
    then show ?thesis
      using BlockSession_find [of env j s r s1] q Cons.prems(2,3) by (auto simp: accepted_def)
  next
    case (Renew arg)
    with q have "RotateSessionTx env arg s = (r, s1)" by simp
    then show ?thesis
    proof (cases rule: RotateSessionTx_outcome)
      case refused
      then show ?thesis using Renew Cons.prems(2,3) by (cases r) (auto simp: accepted_def)
    next
      case (made y)
      then have "rot_id arg \<noteq> i" using Cons.prems(2,3) by (auto simp: rotated_def session_accepts_def)
      then show ?thesis
        using rotated_find [OF made(1), of i] Renew Cons.prems(2,3)
        by (cases r) (auto simp: accepted_def)
    qed
  qed
  then obtain y where "find_session i (tables s1) = Some y" "ses_is_blocked y" by blast
  from Cons.IH [OF rest this] step show ?case
    unfolding log accepted_Cons [of i "(q, r)" log1] by simp
qed

section \<open>Witnesses\<close>

text \<open>Alice renews twice, replays the first token, logs out, and tries the latest token.\<close>

definition renewal :: "string \<Rightarrow> string \<Rightarrow> session_request" where
  "renewal old new = Renew \<lparr>rot_id = 20, rot_username = ''alice'', rot_refresh_token_hash = old,
     rot_now = 10 * second,
     rot_new_session = Inr \<lparr>rep_id = 20, rep_refresh_token_hash = new, rep_expires_at = 7200 * second\<rparr>\<rparr>"

definition sample_history :: "session_request list" where
  "sample_history = [renewal ''hash-1'' ''hash-2'', renewal ''hash-2'' ''hash-3'',
     renewal ''hash-1'' ''hash-4'', Logout 20, renewal ''hash-3'' ''hash-5'']"

abbreviation history_log :: "(session_request \<times> (go_error + session)) list" where
  "history_log \<equiv> fst (serve_all sample_env sample_history start)"

theorem refresh_token_used_once_witness:
  "distinct (accepted 20 history_log) \<and> accepted 20 history_log = [''hash-1'', ''hash-2'']"
proof -
  have "distinct (issued 20 sample_history)" "\<forall>h \<in> set (issued 20 sample_history). current_hash 20 sample_db \<noteq> Some h"
    "accepted 20 history_log = [''hash-1'', ''hash-2'']" by code_simp+
  then show ?thesis
    using refresh_token_used_once [of sample_env sample_history start history_log
        "snd (serve_all sample_env sample_history start)" 20] by simp
qed

theorem blocked_is_final_witness:
  "accepted 20 (fst (serve_all sample_env sample_history (after (BlockSession sample_env 20) start))) = []"
proof -
  let ?s = "after (BlockSession sample_env 20) start"
  have "find_session 20 (tables ?s) = Some (sample_session\<lparr>ses_is_blocked := True\<rparr>)" by code_simp
  then show ?thesis
    using blocked_is_final [of sample_env sample_history ?s "fst (serve_all sample_env sample_history ?s)"
        "snd (serve_all sample_env sample_history ?s)" 20] by simp
qed

definition stolen :: rotate_params where
  "stolen = \<lparr>rot_id = 20, rot_username = ''bob'', rot_refresh_token_hash = ''hash-1'',
     rot_now = 0, rot_new_session = Inl ErrNoRows\<rparr>"

theorem rotate_decides_witness:
  "result (RotateSessionTx sample_env stolen) start = Inl ErrInvalidSession \<and>
   tables (after (RotateSessionTx sample_env stolen) start) = sample_db"
proof -
  have "healthy sample_env" by (simp add: healthy_def sample_env_def)
  moreover have "rotate_verdict stolen sample_db = Some ErrInvalidSession" by code_simp
  ultimately show ?thesis
    using rotate_decides [of sample_env stolen start, OF _ run_eq [of "RotateSessionTx sample_env stolen"]]
    by simp
qed

end
