(* ===== verification/Verify_Email_Tx.thy ===== *)
theory Verify_Email_Tx
  imports Query_Facts Sample
begin

text \<open>
  \<open>internal/db/verify_email_tx.go\<close>: redeeming a verification link, and what a link is
  worth: one redemption, within its fifteen minutes, for the user it was sent to.
\<close>

record verify_result =
  vres_user :: user
  vres_verify_email :: verify_email

definition verify_body :: "pg_env \<Rightarrow> uuid \<Rightarrow> string \<Rightarrow> verify_result pg_op" where
  "verify_body env i code =
     andthen (map_error ClassifyError (UpdateVerifyEmail env i code)) (\<lambda>ve.
     andthen (map_error ClassifyError (VerifyUserEmail env (ve_username ve))) (\<lambda>u.
     ret \<lparr>vres_user = u, vres_verify_email = ve\<rparr>))"

definition VerifyEmailTx :: "pg_env \<Rightarrow> uuid \<Rightarrow> string \<Rightarrow> verify_result pg_op" where
  "VerifyEmailTx env i code = execTx env (verify_body env i code)"

section \<open>What a redemption does\<close>

definition find_code :: "uuid \<Rightarrow> db \<Rightarrow> verify_email option" where
  "find_code i d = find (\<lambda>v. ve_id v = i) (verify_emails d)"

definition redeemed :: "uuid \<Rightarrow> string \<Rightarrow> time \<Rightarrow> db \<Rightarrow> db \<Rightarrow> bool" where
  "redeemed i code at d d' \<longleftrightarrow>
     (\<exists>v. find_code i d = Some v \<and> ve_secret_code v = code \<and> \<not> ve_is_used v \<and> at < ve_expired_at v \<and>
        d' = d\<lparr>verify_emails := replace_by ve_id i (\<lambda>w. w\<lparr>ve_is_used := True\<rparr>) (verify_emails d),
               users := replace_by usr_username (ve_username v)
                          (\<lambda>r. r\<lparr>usr_is_email_verified := True\<rparr>) (users d)\<rparr>)"

text \<open>Among rows with different identifiers, the live ones for \<open>i\<close> are at most the row \<open>i\<close>.\<close>

lemma find_live:
  assumes "verify_emails_ok d"
  shows "find (ve_live i code t) (verify_emails d) =
    (case find_code i d of None \<Rightarrow> None | Some v \<Rightarrow> if ve_live i code t v then Some v else None)"
proof -
  have dist: "distinct (map ve_id (verify_emails d))" using assms by (simp add: verify_emails_ok_def)
  show ?thesis
  proof (cases "find_code i d")
    case None
    then have "\<forall>v \<in> set (verify_emails d). \<not> ve_live i code t v"
      by (auto simp: find_code_def find_None_set ve_live_def)
    then show ?thesis using None by (simp add: find_None_set)
  next
    case (Some v)
    then have v: "v \<in> set (verify_emails d)" "ve_id v = i"
      by (auto simp: find_code_def dest: find_Some_set)
    have same: "w = v" if "w \<in> set (verify_emails d)" "ve_live i code t w" for w
      using distinct_key_eq [OF dist that(1) v(1)] v(2) that(2) by (simp add: ve_live_def)
    show ?thesis
    proof (cases "find (ve_live i code t) (verify_emails d)")
      case None
      then have "\<not> ve_live i code t v" using v by (simp add: find_None_set)
      then show ?thesis using Some None by simp
    next
      case (Some w)
      then have "w = v" "ve_live i code t v" using same find_Some_set [OF Some] by auto
      then show ?thesis using Some \<open>find_code i d = Some v\<close> by simp
    qed
  qed
qed

lemma mark_live:
  assumes "verify_emails_ok d" "find_code i d = Some v" "ve_live i code t v"
  shows "map (\<lambda>w. if ve_live i code t w then w\<lparr>ve_is_used := True\<rparr> else w) (verify_emails d) =
    replace_by ve_id i (\<lambda>w. w\<lparr>ve_is_used := True\<rparr>) (verify_emails d)"
proof -
  have dist: "distinct (map ve_id (verify_emails d))" using assms by (simp add: verify_emails_ok_def)
  have v: "v \<in> set (verify_emails d)" "ve_id v = i"
    using assms(2) by (auto simp: find_code_def dest: find_Some_set)
  have "ve_live i code t w \<longleftrightarrow> ve_id w = i" if "w \<in> set (verify_emails d)" for w
    using distinct_key_eq [OF dist that v(1)] v(2) assms(3) by (auto simp: ve_live_def)
  then show ?thesis by (simp add: replace_by_def)
qed

lemma updateVerifyEmail_Inr:
  assumes "updateVerifyEmail_sql i code c d = Inr (x, d')" "verify_emails_ok d"
  shows "\<exists>v. find_code i d = Some v \<and> ve_live i code (now c) v \<and> x = v\<lparr>ve_is_used := True\<rparr> \<and>
    d' = d\<lparr>verify_emails := replace_by ve_id i (\<lambda>w. w\<lparr>ve_is_used := True\<rparr>) (verify_emails d)\<rparr>"
proof -
  from assms(1) obtain v where v: "find (ve_live i code (now c)) (verify_emails d) = Some v"
    and x: "x = v\<lparr>ve_is_used := True\<rparr>"
    and d': "d' = d\<lparr>verify_emails := map (\<lambda>w. if ve_live i code (now c) w
      then w\<lparr>ve_is_used := True\<rparr> else w) (verify_emails d)\<rparr>"
    by (auto simp: updateVerifyEmail_sql_def split: option.splits)
  from v have "find_code i d = Some v" "ve_live i code (now c) v"
    unfolding find_live [OF assms(2)] by (auto split: option.splits if_splits)
  then show ?thesis using x d' mark_live [OF assms(2)] by auto
qed

lemma verify_body_Inr:
  assumes run: "verify_body env i code s = (Inr r, s')"
    and ok: "schema_ok (tables s)" and at: "tx_start s = Some at"
  shows "redeemed i code at (tables s) (tables s') \<and> pending s' = pending s"
proof -
  from run obtain ve s1 u where
    1: "UpdateVerifyEmail env i code s = (Inr ve, s1)" and
    2: "VerifyUserEmail env (ve_username ve) s1 = (Inr u, s')"
    by (auto simp: verify_body_def andthen_Inr ret_def)
  have vok: "verify_emails_ok (tables s)" using ok by (simp add: schema_ok_def)
  from 1 [unfolded UpdateVerifyEmail_def] obtain v where
    "find_code i (tables s) = Some v" "ve_live i code at v" "ve_username ve = ve_username v"
    "pending s1 = pending s"
    "tables s1 = (tables s)\<lparr>verify_emails :=
       replace_by ve_id i (\<lambda>w. w\<lparr>ve_is_used := True\<rparr>) (verify_emails (tables s))\<rparr>"
    using at by (elim run_sql_InrE) (auto dest!: updateVerifyEmail_Inr [OF _ vok] simp: now_ctx_of)
  with 2 show ?thesis
    unfolding VerifyUserEmail_def
    by (elim run_sql_InrE)
      (auto simp: verifyUserEmail_sql_def redeemed_def ve_live_def split: option.splits)
qed

lemma verify_body_keeps_schema: "keeps (on_tables schema_ok) (verify_body env i code)"
  unfolding verify_body_def by (intro keeps_intros sql_keeps)

interpretation verify_schema: tx_body "verify_body env i code" schema_ok for env i code
  by unfold_locales
    (use keepsD [OF verify_body_keeps_schema] in \<open>force simp: on_tables_def\<close>, simp)

text \<open>A redemption is refused without effect, or made (reported, or its acknowledgement lost).\<close>

lemma VerifyEmailTx_outcome:
  assumes run: "VerifyEmailTx env i code s = (r, s')" and ok: "schema_ok (tables s)"
  obtains (refused) "tables s' = tables s" "isl r"
    | (made) at where "redeemed i code at (tables s) (tables s')" "at = time_at env (tick s)"
        "\<not> isl r \<or> (\<exists>m. r = Inl (DriverError m))"
proof (cases r)
  case (Inr y)
  with run obtain s1 where "verify_body env i code (begin_tx env s) = (Inr y, s1)"
    "s' = commit (step_tick s1)"
    by (auto simp: VerifyEmailTx_def elim: execTx_InrE)
  with verify_body_Inr [OF this(1)] Inr ok show thesis
    by (intro made) (auto simp: publish_pending_def)
next
  case (Inl e)
  with run have "execTx env (verify_body env i code) s = (Inl e, s')" by (simp add: VerifyEmailTx_def)
  then show thesis
  proof (cases rule: execTx_InlE)
    case (lost m y s1)
    with verify_body_Inr [OF lost(2)] Inl ok show thesis
      by (intro made) (auto simp: publish_pending_def)
  qed (use Inl refused in auto)
qed

lemma VerifyEmailTx_schema:
  "VerifyEmailTx env i code s = (r, s') \<Longrightarrow> schema_ok (tables s) \<Longrightarrow> schema_ok (tables s')"
  using keepsD [OF verify_schema.execTx_keeps] by (simp add: on_tables_def VerifyEmailTx_def)

lemma redeemed_code:
  "redeemed i code at d d' \<Longrightarrow>
     find_code j d' = (if j = i then map_option (\<lambda>w. w\<lparr>ve_is_used := True\<rparr>) (find_code i d)
                       else find_code j d)"
  by (auto simp: redeemed_def find_code_def find_replace_by option.map_ident)

lemma redeemed_user:
  assumes "redeemed i code at d d'" "find_user un d = Some u" "\<not> usr_is_email_verified u"
    "find_user un d' = Some u'" "usr_is_email_verified u'"
  shows "\<exists>v. find_code i d = Some v \<and> ve_username v = un \<and> ve_secret_code v = code \<and>
    \<not> ve_is_used v \<and> at < ve_expired_at v"
  using assms
  by (auto simp: redeemed_def find_user_def find_replace_by option.map_ident split: if_splits)

section \<open>Properties\<close>

text \<open>
  On a working database a link is honoured exactly when its row exists, the
  digest of the presented code is the stored one, it is unused and it has not expired at
  the start of the transaction. Then the row is marked used and its user verified, and
  nothing else changes; otherwise the answer is \<open>ErrRecordNotFound\<close> whatever was wrong, and
  nothing changes.
\<close>

theorem verify_decides:
  assumes h: "healthy env" and ok: "schema_ok (tables s)"
    and run: "VerifyEmailTx env i code s = (r, s')"
  shows "if \<exists>v. find_code i (tables s) = Some v \<and> ve_live i code (time_at env (tick s)) v
    then \<not> isl r \<and> redeemed i code (time_at env (tick s)) (tables s) (tables s')
    else r = Inl ErrRecordNotFound \<and> tables s' = tables s"
proof -
  let ?at = "time_at env (tick s)" and ?b = "begin_tx env s"
  have vok: "verify_emails_ok (tables s)" using ok by (simp add: schema_ok_def)
  have at: "now (ctx_of env ?b) = ?at" by (simp add: now_ctx_of)
  show ?thesis
  proof (cases "\<exists>v. find_code i (tables s) = Some v \<and> ve_live i code ?at v")
    case True
    then obtain v where v: "find_code i (tables s) = Some v" "ve_live i code ?at v" by blast
    have "ve_username v \<in> usr_username ` set (users (tables s))"
      using vok v(1) by (auto simp: verify_emails_ok_def find_code_def dest: find_Some_set)
    from find_key_exists [OF this] obtain u where "find_user (ve_username v) (tables s) = Some u"
      by (auto simp: find_user_def)
    then have "find_user (ve_username v) ((tables s)\<lparr>verify_emails := vs\<rparr>) = Some u" for vs
      by (simp add: find_user_def)
    then have "\<exists>y s1. verify_body env i code ?b = (Inr y, s1)"
      using h v at
      by (simp add: verify_body_def andthen_def map_error_def UpdateVerifyEmail_def
          updateVerifyEmail_sql_def find_live [OF vok] VerifyUserEmail_def verifyUserEmail_sql_def ret_def)
    then obtain y s1 where b: "verify_body env i code ?b = (Inr y, s1)" by blast
    then have "r = Inr y" "s' = commit (step_tick s1)"
      using run by (auto simp: VerifyEmailTx_def healthy_execTx [OF h])
    then show ?thesis
      using True verify_body_Inr [OF b, of ?at] ok by (simp add: publish_pending_def)
  next
    case False
    then have "\<exists>s1. verify_body env i code ?b = (Inl ErrRecordNotFound, s1)"
      using h at
      by (auto simp: verify_body_def andthen_def map_error_def UpdateVerifyEmail_def
          updateVerifyEmail_sql_def find_live [OF vok] split: option.split)
    then show ?thesis
      unfolding if_not_P [OF False] using run by (auto simp: VerifyEmailTx_def healthy_execTx [OF h])
  qed
qed

text \<open>Redeeming a list of links, one after the other.\<close>

fun redeem_all :: "pg_env \<Rightarrow> (uuid \<times> string) list \<Rightarrow> pg \<Rightarrow> (uuid \<times> bool) list \<times> pg" where
  "redeem_all env [] s = ([], s)"
| "redeem_all env ((i, code) # qs) s =
     (let (r, s1) = VerifyEmailTx env i code s; (rs, s2) = redeem_all env qs s1
      in ((i, \<not> isl r) # rs, s2))"

definition honoured :: "uuid \<Rightarrow> (uuid \<times> bool) list \<Rightarrow> nat" where
  "honoured i rs = length (filter (\<lambda>r. r = (i, True)) rs)"

lemma used_never_honoured:
  assumes "redeem_all env qs s = (rs, s')" "schema_ok (tables s)"
    and "\<forall>v. find_code i (tables s) = Some v \<longrightarrow> ve_is_used v"
  shows "honoured i rs = 0"
  using assms
proof (induction qs arbitrary: s rs)
  case Nil
  then show ?case by (simp add: honoured_def)
next
  case (Cons q qs)
  obtain j code where q: "q = (j, code)" by (cases q)
  obtain r s1 where run: "VerifyEmailTx env j code s = (r, s1)" by fastforce
  obtain rs1 where rest: "redeem_all env qs s1 = (rs1, s')" and rs: "rs = (j, \<not> isl r) # rs1"
    using Cons.prems(1) run q by (auto split: prod.splits)
  note ok1 = VerifyEmailTx_schema [OF run Cons.prems(2)]
  from run Cons.prems(2) have "(\<forall>v. find_code i (tables s1) = Some v \<longrightarrow> ve_is_used v) \<and> (j = i \<longrightarrow> isl r)"
  proof (cases rule: VerifyEmailTx_outcome)
    case (made at)
    then show ?thesis
      using Cons.prems(3) redeemed_code [OF made(1), of i] by (auto simp: redeemed_def)
  qed (use Cons.prems(3) in auto)
  then show ?case using Cons.IH [OF rest ok1] rs by (auto simp: honoured_def)
qed

text \<open>
  C23 (safety). A verification link is honoured at most once: however often it is redeemed,
  with whatever codes, mixed with other links and through any database failures, at most
  one of the answers is a success.
\<close>

theorem link_honoured_once:
  assumes "redeem_all env qs s = (rs, s')" and "schema_ok (tables s)"
  shows "honoured i rs \<le> 1"
  using assms
proof (induction qs arbitrary: s rs)
  case Nil
  then show ?case by (simp add: honoured_def)
next
  case (Cons q qs)
  obtain j code where q: "q = (j, code)" by (cases q)
  obtain r s1 where run: "VerifyEmailTx env j code s = (r, s1)" by fastforce
  obtain rs1 where rest: "redeem_all env qs s1 = (rs1, s')" and rs: "rs = (j, \<not> isl r) # rs1"
    using Cons.prems(1) run q by (auto split: prod.splits)
  note ok1 = VerifyEmailTx_schema [OF run Cons.prems(2)]
  show ?case
  proof (cases "j = i \<and> \<not> isl r")
    case True
    with run Cons.prems(2) have "\<forall>v. find_code i (tables s1) = Some v \<longrightarrow> ve_is_used v"
      by (auto elim!: VerifyEmailTx_outcome simp: redeemed_code)
    from used_never_honoured [OF rest ok1 this] show ?thesis using rs by (simp add: honoured_def)
  next
    case False
    then show ?thesis using Cons.IH [OF rest ok1] rs by (auto simp: honoured_def)
  qed
qed

text \<open>
  C24 (safety). Nobody is verified without the link: if a redemption turns an unverified user into
  a verified one, then the presented identifier and digest are those of an unused,
  unexpired link sent to that very user.
\<close>

theorem verified_by_own_link:
  assumes "schema_ok (tables s)" and run: "VerifyEmailTx env i code s = (r, s')"
    and "find_user un (tables s) = Some u" "\<not> usr_is_email_verified u"
    and "find_user un (tables s') = Some u'" "usr_is_email_verified u'"
  shows "\<exists>v. find_code i (tables s) = Some v \<and> ve_username v = un \<and> ve_secret_code v = code \<and>
    \<not> ve_is_used v \<and> time_at env (tick s) < ve_expired_at v"
  using run assms(1)
proof (cases rule: VerifyEmailTx_outcome)
  case (made at)
  then show ?thesis using redeemed_user [OF made(1) assms(3-6)] by simp
qed (use assms in auto)

section \<open>Witnesses\<close>

abbreviation redeem :: "verify_result pg_op" where
  "redeem \<equiv> VerifyEmailTx sample_env 30 ''s3cret''"

theorem verify_decides_witness:
  "redeemed 30 ''s3cret'' 0 sample_db (tables (after redeem start)) \<and>
   result (VerifyEmailTx sample_env 30 ''guess'') start = Inl ErrRecordNotFound"
proof -
  have "healthy sample_env" by (simp add: healthy_def sample_env_def)
  moreover have "find_code 30 sample_db = Some sample_code" "time_at sample_env 0 = 0"
    "ve_live 30 ''s3cret'' 0 sample_code" "\<not> ve_live 30 ''guess'' 0 sample_code" by code_simp+
  ultimately show ?thesis
    using verify_decides [of sample_env start, OF _ _ run_eq [of redeem]]
      verify_decides [of sample_env start, OF _ _ run_eq [of "VerifyEmailTx sample_env 30 ''guess''"]]
      sample_schema by auto
qed

theorem link_honoured_once_witness:
  "honoured 30 (fst (redeem_all sample_env [(30, ''s3cret''), (30, ''s3cret'')] start)) = 1"
proof -
  have "honoured 30 (fst (redeem_all sample_env [(30, ''s3cret''), (30, ''s3cret'')] start)) \<noteq> 0"
    by code_simp
  then show ?thesis
    using link_honoured_once [of sample_env "[(30, ''s3cret''), (30, ''s3cret'')]" start
        "fst (redeem_all sample_env [(30, ''s3cret''), (30, ''s3cret'')] start)"
        "snd (redeem_all sample_env [(30, ''s3cret''), (30, ''s3cret'')] start)" 30] sample_schema
    by simp
qed

theorem verified_by_own_link_witness:
  "\<exists>v. find_code 30 sample_db = Some v \<and> ve_username v = ''alice'' \<and> \<not> ve_is_used v"
proof -
  have "find_user ''alice'' sample_db = Some (sample_user 1 ''alice'')"
    "\<not> usr_is_email_verified (sample_user 1 ''alice'')"
    "find_user ''alice'' (tables (after redeem start)) =
       Some ((sample_user 1 ''alice'')\<lparr>usr_is_email_verified := True\<rparr>)" by code_simp+
  then show ?thesis
    using verified_by_own_link [of start sample_env, OF _ run_eq [of redeem]] sample_schema by force
qed

end
