(* ===== verification/User_Tx.thy ===== *)
theory User_Tx
  imports Query_Facts Sample
begin

text \<open>
  \<open>internal/db/user_tx.go\<close>: registering a user. \<open>AfterCreate\<close>, the caller's function that
  runs in the same transaction (the API enqueues the verification job there), is an
  argument; \<open>None\<close> is the nil function. \<open>pgx.BeginFunc\<close> is \<open>BeginTxFunc\<close> with the
  default options.
\<close>

record create_user_params =
  cu_username :: string
  cu_hashed_password :: string
  cu_full_name :: string
  cu_email :: string

definition user_body ::
  "pg_env \<Rightarrow> create_user_params \<Rightarrow> (user \<Rightarrow> unit pg_op) option \<Rightarrow> user pg_op" where
  "user_body env arg after_create =
     andthen (map_error ClassifyError (CreateUser env (cu_username arg) (cu_hashed_password arg)
                (cu_full_name arg) (cu_email arg))) (\<lambda>u.
     case after_create of
       None \<Rightarrow> ret u
     | Some f \<Rightarrow> andthen (f u) (\<lambda>_. ret u))"

definition CreateUserTx ::
  "pg_env \<Rightarrow> create_user_params \<Rightarrow> (user \<Rightarrow> unit pg_op) option \<Rightarrow> user pg_op" where
  "CreateUserTx env arg after_create = BeginTxFunc env (user_body env arg after_create)"

section \<open>What a registration does\<close>

definition registered :: "create_user_params \<Rightarrow> db \<Rightarrow> user \<Rightarrow> bool" where
  "registered arg d u \<longleftrightarrow>
     usr_username u = cu_username arg \<and> usr_hashed_password u = cu_hashed_password arg \<and>
     usr_full_name u = cu_full_name arg \<and> usr_email u = cu_email arg \<and>
     \<not> usr_is_email_verified u \<and> cu_username arg \<notin> usr_username ` set (users d) \<and>
     cu_email arg \<notin> usr_email ` set (users d) \<and> usr_id u \<notin> usr_id ` set (users d)"

lemma CreateUser_Inr:
  assumes "CreateUser env un h fn em s = (Inr u, s')"
  shows "registered \<lparr>cu_username = un, cu_hashed_password = h, cu_full_name = fn, cu_email = em\<rparr>
      (tables s) u \<and>
    tables s' = (tables s)\<lparr>users := users (tables s) @ [u]\<rparr> \<and> pending s' = pending s \<and>
    tx_start s' = tx_start s"
  using assms unfolding CreateUser_def
  by (rule run_sql_InrE) (auto simp: createUser_sql_def Let_def registered_def split: if_splits)

text \<open>
  \<open>AfterCreate\<close> as the server uses it: on success it has added rows to the job queue and
  touched nothing else, or, without a queue, done nothing.
\<close>

definition only_enqueues :: "job \<Rightarrow> unit pg_op \<Rightarrow> bool" where
  "only_enqueues j m \<longleftrightarrow>
     (\<forall>s s'. m s = (Inr (), s') \<longrightarrow>
        (\<exists>js. j \<in> set js \<and> set (jobs (tables s)) \<subseteq> set js \<and> tables s' = (tables s)\<lparr>jobs := js\<rparr> \<and>
           pending s' = pending s \<and> tx_start s' = tx_start s))"

definition registered_with_job :: "create_user_params \<Rightarrow> job \<Rightarrow> db \<Rightarrow> user \<Rightarrow> db \<Rightarrow> bool" where
  "registered_with_job arg j d u d' \<longleftrightarrow>
     registered arg d u \<and> j \<in> set (jobs d') \<and> set (jobs d) \<subseteq> set (jobs d') \<and>
     d' = d\<lparr>users := users d @ [u], jobs := jobs d'\<rparr>"

lemma user_body_Inr:
  assumes run: "user_body env arg (Some f) s = (Inr u, s')" and enq: "\<And>u. only_enqueues (j u) (f u)"
  shows "registered_with_job arg (j u) (tables s) u (tables s') \<and> pending s' = pending s"
proof -
  from run obtain s1 where
    c: "CreateUser env (cu_username arg) (cu_hashed_password arg) (cu_full_name arg) (cu_email arg) s
      = (Inr u, s1)" and f: "f u s1 = (Inr (), s')"
    by (auto simp: user_body_def andthen_Inr ret_def)
  from enq [of u, unfolded only_enqueues_def] f obtain js where
    "j u \<in> set js" "set (jobs (tables s1)) \<subseteq> set js" "tables s' = (tables s1)\<lparr>jobs := js\<rparr>"
    "pending s' = pending s1" by blast
  then show ?thesis
    using CreateUser_Inr [OF c] by (simp add: registered_with_job_def registered_def)
qed

lemma registered_with_job_schema:
  "registered_with_job arg j d u d' \<Longrightarrow> schema_ok d \<Longrightarrow> schema_ok d'"
proof -
  assume r: "registered_with_job arg j d u d'" and ok: "schema_ok d"
  have eq: "d' = d\<lparr>users := users d @ [u], jobs := jobs d'\<rparr>" and u: "registered arg d u"
    using r by (simp_all add: registered_with_job_def)
  have "schema_ok (d\<lparr>users := users d @ [u], jobs := js\<rparr>)" for js
    using ok u by (auto simp: schema_defs registered_def)
  then show "schema_ok d'" by (subst eq)
qed

text \<open>
  Registration is atomic with its verification job: after \<open>CreateUserTx\<close>
  with an \<open>AfterCreate\<close> that enqueues a job, either nothing has changed at all, or the user
  row (with the given data, unverified, under a user name and an address nobody had) and
  the job are both there, and nothing else changed. If a user is returned it is the second.
\<close>

theorem registration_atomic:
  assumes run: "CreateUserTx env arg (Some f) s = (r, s')"
    and enq: "\<And>u. only_enqueues (SendVerifyEmailArgs (usr_username u)) (f u)"
  shows "(tables s' = tables s \<and> isl r) \<or>
    (\<exists>u. registered_with_job arg (SendVerifyEmailArgs (cu_username arg)) (tables s) u (tables s') \<and>
       (r = Inr u \<or> (\<exists>m. r = Inl (DriverError m))))"
proof -
  have tx: "execTx env (user_body env arg (Some f)) s = (r, s')"
    using run by (simp add: CreateUserTx_def execTx_defs)
  have made: "registered_with_job arg (SendVerifyEmailArgs (cu_username arg)) (tables s) u
      (tables (commit (step_tick s1)))"
    if "user_body env arg (Some f) (begin_tx env s) = (Inr u, s1)" for u s1
    using user_body_Inr [OF that, of "\<lambda>u. SendVerifyEmailArgs (usr_username u)"] enq
    by (auto simp: publish_pending_def registered_with_job_def registered_def)
  show ?thesis
  proof (cases r)
    case (Inr u)
    from tx [unfolded Inr] show ?thesis using made Inr by (auto elim!: execTx_InrE)
  next
    case (Inl e)
    from tx [unfolded Inl] show ?thesis
      by (cases rule: execTx_InlE) (use made Inl in auto)
  qed
qed

section \<open>Witness\<close>

text \<open>A queue that stores the job in the transaction, and one that always fails.\<close>

definition sample_enqueue :: "job \<Rightarrow> unit pg_op" where
  "sample_enqueue j = run_sql sample_env (\<lambda>c d. Inr ((), d\<lparr>jobs := jobs d @ [j]\<rparr>))"

definition failing_enqueue :: "job \<Rightarrow> unit pg_op" where
  "failing_enqueue j = raise (PlainError ''queue unavailable'')"

lemma sample_enqueue_ok: "only_enqueues j (sample_enqueue j)"
  unfolding only_enqueues_def sample_enqueue_def
  by (fastforce elim!: run_sql_InrE intro: exI [of _ "jobs d @ [j]" for d])

lemma failing_enqueue_ok: "only_enqueues j (failing_enqueue j)"
  by (auto simp: only_enqueues_def failing_enqueue_def raise_def)

definition carol :: create_user_params where
  "carol = \<lparr>cu_username = ''carol'', cu_hashed_password = ''h'', cu_full_name = ''Carol'',
     cu_email = ''carol@example.org''\<rparr>"

abbreviation register :: "(job \<Rightarrow> unit pg_op) \<Rightarrow> user pg_op" where
  "register q \<equiv> CreateUserTx sample_env carol (Some (\<lambda>u. q (SendVerifyEmailArgs (usr_username u))))"

theorem registration_atomic_witness:
  "SendVerifyEmailArgs ''carol'' \<in> set (jobs (tables (after (register sample_enqueue) start))) \<and>
   tables (after (register failing_enqueue) start) = sample_db"
proof -
  have "\<not> isl (result (register sample_enqueue) start)"
    "result (register failing_enqueue) start = Inl (PlainError ''queue unavailable'')" by code_simp+
  then show ?thesis
    using registration_atomic [OF run_eq [of "register sample_enqueue" start] sample_enqueue_ok]
      registration_atomic [OF run_eq [of "register failing_enqueue" start] failing_enqueue_ok]
    by (auto simp: registered_with_job_def carol_def)
qed

end
