(* ===== verification/Notification_Tx.thy ===== *)
theory Notification_Tx
  imports Query_Facts Sample "HOL-Library.Multiset"
begin

text \<open>
  \<open>internal/db/notification_tx.go\<close>: pages of notifications newest first, and marking them
  read. The test hooks of the store are nil outside its tests and left out.
\<close>

record page_params =
  pg_owner :: string
  pg_has_cursor :: bool
  pg_cursor_created_at :: time
  pg_cursor_id :: uuid
  pg_limit :: int \<comment> \<open>\<open>int32\<close>\<close>

record page_result =
  pgr_notifications :: "notification list"
  pgr_unread_count :: int
  pgr_has_more :: bool

text \<open>Slicing \<open>rows[:n]\<close> with a negative \<open>n\<close> panics.\<close>

definition page_body :: "pg_env \<Rightarrow> page_params \<Rightarrow> page_result pg_op" where
  "page_body env arg =
     andthen (map_error ClassifyError
       (ListNotifications env (pg_owner arg) (pg_has_cursor arg) (pg_cursor_created_at arg)
          (pg_cursor_id arg) (wrap32 (pg_limit arg + 1)))) (\<lambda>rows.
     andthen (map_error ClassifyError (CountUnreadNotifications env (pg_owner arg))) (\<lambda>unread.
     if int (length rows) > pg_limit arg then
       (if pg_limit arg < 0 then raise (Panic ''slice bounds out of range'')
        else ret \<lparr>pgr_notifications = take (nat (pg_limit arg)) rows, pgr_unread_count = unread,
                  pgr_has_more = True\<rparr>)
     else ret \<lparr>pgr_notifications = rows, pgr_unread_count = unread, pgr_has_more = False\<rparr>))"

definition ListNotificationsPage :: "pg_env \<Rightarrow> page_params \<Rightarrow> page_result pg_op" where
  "ListNotificationsPage env arg = execTxOptions env RepeatableRead (page_body env arg)"

definition mark_read_body :: "pg_env \<Rightarrow> string \<Rightarrow> uuid \<Rightarrow> int pg_op" where
  "mark_read_body env owner i =
     andthen (map_error ClassifyError (LockNotificationOwner env owner)) (\<lambda>_.
     andthen (map_error ClassifyError (MarkNotificationRead env i owner)) (\<lambda>_.
     map_error ClassifyError (CountUnreadNotifications env owner)))"

definition MarkNotificationReadTx :: "pg_env \<Rightarrow> string \<Rightarrow> uuid \<Rightarrow> int pg_op" where
  "MarkNotificationReadTx env owner i = execTx env (mark_read_body env owner i)"

definition mark_all_body :: "pg_env \<Rightarrow> string \<Rightarrow> int pg_op" where
  "mark_all_body env owner =
     andthen (map_error ClassifyError (LockNotificationOwner env owner)) (\<lambda>_.
     andthen (map_error ClassifyError (MarkAllNotificationsRead env owner)) (\<lambda>_.
     map_error ClassifyError (CountUnreadNotifications env owner)))"

definition MarkAllNotificationsReadTx :: "pg_env \<Rightarrow> string \<Rightarrow> int pg_op" where
  "MarkAllNotificationsReadTx env owner = execTx env (mark_all_body env owner)"

section \<open>Preservation\<close>

lemma mark_bodies_keep_schema:
  "keeps (on_tables schema_ok) (mark_read_body env owner i)"
  "keeps (on_tables schema_ok) (mark_all_body env owner)"
  unfolding mark_read_body_def mark_all_body_def by (intro keeps_intros sql_keeps)+

lemma page_body_keeps: "keeps (on_tables I) (page_body env arg)"
  unfolding page_body_def by (intro keeps_intros sql_keeps)

interpretation mark_read_schema: tx_body "mark_read_body env owner i" schema_ok for env owner i
  by unfold_locales
    (use keepsD [OF mark_bodies_keep_schema(1)] in \<open>force simp: on_tables_def\<close>, simp)

interpretation mark_all_schema: tx_body "mark_all_body env owner" schema_ok for env owner
  by unfold_locales
    (use keepsD [OF mark_bodies_keep_schema(2)] in \<open>force simp: on_tables_def\<close>, simp)

interpretation page_schema: tx_body "page_body env arg" schema_ok for env arg
  by unfold_locales (use keepsD [OF page_body_keeps] in \<open>force simp: on_tables_def\<close>, simp)

section \<open>Paging\<close>

text \<open>Lists in strictly descending order of their keys.\<close>

abbreviation descending :: "('r \<Rightarrow> stamp) \<Rightarrow> 'r list \<Rightarrow> bool" where
  "descending key \<equiv> sorted_wrt (\<lambda>a b. key b < key a)"

lemma newest_first_descending:
  assumes "distinct (map key rows)"
  shows "descending key (newest_first key rows)"
proof -
  have "distinct (map key (newest_first key rows))"
    using assms by (simp add: newest_first_def rev_map distinct_map sort_key_simps)
  then have "sorted_wrt (\<lambda>a b. key a \<noteq> key b) (newest_first key rows)"
    by (simp add: distinct_conv_nth sorted_wrt_iff_nth_less)
  moreover have "sorted_wrt (\<lambda>a b. key b \<le> key a) (newest_first key rows)"
    by (rule sorted_newest_first)
  ultimately show ?thesis
    unfolding sorted_wrt_iff_nth_less by (metis order.not_eq_order_implies_strict)
qed

lemma filter_after_last:
  assumes "descending key xs" "0 < n" "n < length xs"
  shows "filter (\<lambda>r. key r < key (last (take n xs))) xs = drop n xs"
proof -
  have split: "xs = take n xs @ drop n xs" by simp
  have last: "last (take n xs) = xs ! (n - 1)" using assms(2,3) by (subst last_conv_nth) auto
  have "\<not> key r < key (xs ! (n - 1))" if "r \<in> set (take n xs)" for r
  proof -
    from that obtain i where "i < n" "r = xs ! i" using assms(3) by (auto simp: in_set_conv_nth)
    then show ?thesis
      using assms(3) sorted_wrt_nth_less [OF assms(1), of i "n - 1"]
      by (cases "i = n - 1") (auto simp: not_less intro: less_imp_le)
  qed
  moreover have "key r < key (xs ! (n - 1))" if "r \<in> set (drop n xs)" for r
  proof -
    from that obtain i where "i < length xs - n" "r = xs ! (n + i)" by (auto simp: in_set_conv_nth)
    then have "n + i < length xs" "r = xs ! (n + i)" by simp_all
    then show ?thesis using assms(2) sorted_wrt_nth_less [OF assms(1), of "n - 1" "n + i"] by simp
  qed
  ultimately have "filter (\<lambda>r. key r < key (last (take n xs))) (take n xs @ drop n xs) = drop n xs"
    unfolding last by (simp add: filter_False filter_True del: append_take_drop_id)
  then show ?thesis by simp
qed

lemma notifications_after_cursor:
  "notifications_after owner (Some k) d = filter (\<lambda>n. ntf_stamp n < k) (notifications_after owner None d)"
  by (simp add: notifications_after_def newest_first_def rev_filter [symmetric] filter_sort conj_commute)

lemma notifications_descending:
  assumes "schema_ok d"
  shows "descending ntf_stamp (notifications_after owner c d)"
proof -
  have "distinct (map ntf_id (notifications d))" using assms by (simp add: schema_defs)
  then have "distinct (map ntf_stamp (notifications d))" by (auto simp: distinct_map inj_on_def)
  then show ?thesis
    unfolding notifications_after_def by (intro newest_first_descending) (simp add: distinct_map_filter)
qed

text \<open>One page: the first \<open>limit\<close> rows after the cursor, and whether there are more.\<close>

abbreviation rows_after :: "page_params \<Rightarrow> db \<Rightarrow> notification list" where
  "rows_after arg \<equiv> notifications_after (pg_owner arg)
     (if pg_has_cursor arg then Some (Stamp (pg_cursor_created_at arg) (pg_cursor_id arg)) else None)"

definition page_of_rows :: "page_params \<Rightarrow> db \<Rightarrow> page_result" where
  "page_of_rows arg d =
     \<lparr>pgr_notifications = take (nat (pg_limit arg)) (rows_after arg d),
      pgr_unread_count = int (length (unread_of (pg_owner arg) d)),
      pgr_has_more = (int (length (rows_after arg d)) > pg_limit arg)\<rparr>"

lemma page_body_healthy:
  assumes h: "healthy env" and lim: "0 \<le> pg_limit arg" "pg_limit arg < 2 ^ 31 - 1"
  shows "page_body env arg s = (Inr (page_of_rows arg (tables s)), step_tick (step_tick s))"
proof -
  have w: "wrap32 (pg_limit arg + 1) = pg_limit arg + 1" using lim by (simp add: wrap32_def)
  define rows where "rows = rows_after arg (tables s)"
  have list: "ListNotifications env (pg_owner arg) (pg_has_cursor arg) (pg_cursor_created_at arg)
      (pg_cursor_id arg) (pg_limit arg + 1) s =
    (Inr (take (nat (pg_limit arg + 1)) rows), step_tick s)"
    using h lim
    by (simp add: ListNotifications_def listNotifications_sql_def query_page_def page_of_def rows_def)
  have len: "(int (length (take (nat (pg_limit arg + 1)) rows)) > pg_limit arg) =
      (int (length rows) > pg_limit arg)"
    using lim by auto
  have cut: "take (nat (pg_limit arg)) (take (nat (pg_limit arg + 1)) rows) = take (nat (pg_limit arg)) rows"
    using lim by (simp add: min_def)
  have all: "take (nat (pg_limit arg + 1)) rows = rows" "take (nat (pg_limit arg)) rows = rows"
    if "\<not> int (length rows) > pg_limit arg"
    using that lim by auto
  show ?thesis
    unfolding page_body_def page_of_rows_def w rows_def [symmetric]
    using h lim(1) cut all len
    by (cases "int (length rows) > pg_limit arg")
      (simp_all add: andthen_def map_error_def list CountUnreadNotifications_def ret_def
        del: take_take length_take)
qed

lemma ListNotificationsPage_healthy:
  assumes h: "healthy env" and lim: "0 \<le> pg_limit arg" "pg_limit arg < 2 ^ 31 - 1"
  shows "\<exists>s'. tables s' = tables s \<and>
    ListNotificationsPage env arg s = (Inr (page_of_rows arg (tables s)), s')"
proof -
  have "ListNotificationsPage env arg s = execTx env (page_body env arg) s"
    by (simp add: ListNotificationsPage_def execTx_defs)
  then show ?thesis
    by (auto simp: healthy_execTx [OF h] page_body_healthy [OF h lim] publish_pending_def)
qed

text \<open>
  A reader that asks for page after page: the next page starts after the last row shown.
  \<open>None\<close> means that the number of requests was not enough, or that one failed.
\<close>

fun browse :: "pg_env \<Rightarrow> string \<Rightarrow> int \<Rightarrow> nat \<Rightarrow> stamp option \<Rightarrow> pg \<Rightarrow> notification list option" where
  "browse env owner lim 0 c s = None"
| "browse env owner lim (Suc k) c s =
     (case ListNotificationsPage env
         \<lparr>pg_owner = owner, pg_has_cursor = (c \<noteq> None),
          pg_cursor_created_at = (case c of Some x \<Rightarrow> stamp_time x | None \<Rightarrow> zero_time),
          pg_cursor_id = (case c of Some x \<Rightarrow> stamp_id x | None \<Rightarrow> 0), pg_limit = lim\<rparr> s of
        (Inl e, _) \<Rightarrow> None
      | (Inr p, s1) \<Rightarrow>
          if pgr_has_more p
          then map_option (\<lambda>rs. pgr_notifications p @ rs)
                 (browse env owner lim k (Some (ntf_stamp (last (pgr_notifications p)))) s1)
          else Some (pgr_notifications p))"

lemma browse_after:
  assumes h: "healthy env" and lim: "0 < lim" "lim < 2 ^ 31 - 1" and ok: "schema_ok (tables s)"
    and fuel: "length (notifications_after owner c (tables s)) < k * nat lim + 1" "0 < k"
  shows "browse env owner lim k c s = Some (notifications_after owner c (tables s))"
  using ok fuel
proof (induction k arbitrary: c s)
  case 0
  then show ?case by simp
next
  case (Suc k)
  let ?rows = "notifications_after owner c (tables s)" and ?n = "nat lim"
  let ?arg = "\<lparr>pg_owner = owner, pg_has_cursor = (c \<noteq> None),
          pg_cursor_created_at = (case c of Some x \<Rightarrow> stamp_time x | None \<Rightarrow> zero_time),
          pg_cursor_id = (case c of Some x \<Rightarrow> stamp_id x | None \<Rightarrow> 0), pg_limit = lim\<rparr>"
  have rows: "rows_after ?arg (tables s) = ?rows" by (cases c) auto
  obtain s1 where t1: "tables s1 = tables s"
    and page: "ListNotificationsPage env ?arg s = (Inr (page_of_rows ?arg (tables s)), s1)"
    using ListNotificationsPage_healthy [OF h, of ?arg s] lim by auto
  note page = page [unfolded page_of_rows_def rows]
  show ?case
  proof (cases "?n < length ?rows")
    case False
    then have "\<not> lim < int (length ?rows)" using lim by (simp add: nat_less_iff)
    then show ?thesis using page lim False by simp
  next
    case True
    let ?k = "Some (ntf_stamp (last (take ?n ?rows)))"
    have after: "notifications_after owner ?k (tables s) = drop ?n ?rows"
    proof -
      have "notifications_after owner ?k (tables s) = filter (\<lambda>r. ntf_stamp r < ntf_stamp (last (take ?n ?rows))) ?rows"
      proof (cases c)
        case None
        then show ?thesis by (simp add: notifications_after_cursor)
      next
        case (Some k0)
        have "take ?n ?rows \<noteq> []" using True lim by auto
        then have "last (take ?n ?rows) \<in> set ?rows" by (metis in_set_takeD last_in_set)
        then have "ntf_stamp (last (take ?n ?rows)) < k0"
          using Some by (simp add: notifications_after_def)
        then show ?thesis
          using Some by (auto simp: notifications_after_cursor intro!: filter_cong)
      qed
      then show ?thesis
        using filter_after_last [OF notifications_descending [OF Suc.prems(1)], of ?n owner c] True lim
        by simp
    qed
    have "browse env owner lim k ?k s1 = Some (drop ?n ?rows)"
      using Suc.IH [of s1 ?k] Suc.prems(1,2) True t1 after lim by (cases k) auto
    moreover have "lim < int (length ?rows)" using True lim by (simp add: nat_less_iff)
    ultimately show ?thesis using page t1 by simp
  qed
qed

section \<open>Properties\<close>

text \<open>
  Paging shows everything exactly once: on a working database whose
  tables do not change meanwhile, a reader that follows the cursors from the first page, with any
  page size from 1 up to the largest an \<open>int32\<close> leaves room for, gets precisely the owner's
  notifications, none missing and none twice, from the newest to the oldest, within as
  many requests as there are pages.
\<close>

theorem paging_complete:
  assumes "healthy env" and "schema_ok (tables s)"
    and "0 < lim" "lim < 2 ^ 31 - 1"
    and "length (filter (\<lambda>n. ntf_owner n = owner) (notifications (tables s))) \<le> k * nat lim" "0 < k"
  shows "\<exists>rs. browse env owner lim k None s = Some rs \<and>
    descending ntf_stamp rs \<and>
    mset rs = mset (filter (\<lambda>n. ntf_owner n = owner) (notifications (tables s)))"
proof -
  have "length (notifications_after owner None (tables s)) \<le> k * nat lim"
    using assms(5) by (simp add: notifications_after_def)
  then have "browse env owner lim k None s = Some (notifications_after owner None (tables s))"
    using browse_after [OF assms(1,3,4,2), of owner None k] assms(6) by simp
  then show ?thesis
    using notifications_descending [OF assms(2), of owner None]
    by (auto simp: notifications_after_def newest_first_def)
qed

section \<open>Marking\<close>

definition find_notification :: "string \<Rightarrow> uuid \<Rightarrow> db \<Rightarrow> notification option" where
  "find_notification owner i d = find (\<lambda>n. ntf_id n = i \<and> ntf_owner n = owner) (notifications d)"

text \<open>
  What marking does to the tables: some of the owner's notifications get a read time. A row
  that has one keeps it, rows of other owners are untouched.
\<close>

definition marked :: "string \<Rightarrow> (notification \<Rightarrow> bool) \<Rightarrow> time \<Rightarrow> db \<Rightarrow> db" where
  "marked owner P at d = d\<lparr>notifications :=
     map (\<lambda>n. if ntf_owner n = owner \<and> P n then read_at_now at n else n) (notifications d)\<rparr>"

lemma marked_publish [simp]:
  "(marked owner P at d)\<lparr>notified := notified (marked owner P at d)\<rparr> = marked owner P at d"
  by simp

lemma marked_notified [simp]: "notified (marked owner P at d) = notified d"
  by (simp add: marked_def)

lemma unread_marked:
  "unread_of ow (marked owner P at d) =
     filter (\<lambda>n. \<not> (ow = owner \<and> P n)) (unread_of ow d)"
proof -
  have "filter (\<lambda>n. ntf_owner n = ow \<and> ntf_read_at n = None)
      (map (\<lambda>n. if ntf_owner n = owner \<and> P n then read_at_now at n else n) ns) =
    filter (\<lambda>n. \<not> (ow = owner \<and> P n)) (filter (\<lambda>n. ntf_owner n = ow \<and> ntf_read_at n = None) ns)" for ns
    by (induction ns) (auto simp: read_at_now_def split: option.split)
  then show ?thesis by (simp add: unread_of_def marked_def del: filter_filter)
qed

lemma marked_idem: "(\<And>n t. P (read_at_now t n) = P n) \<Longrightarrow>
    marked owner P at2 (marked owner P at1 d) = marked owner P at1 d"
  by (simp add: marked_def read_at_now_def comp_def cong: option.case_cong split: option.split)

lemma LockNotificationOwner_healthy:
  "healthy env \<Longrightarrow> \<exists>s'. LockNotificationOwner env owner s = (Inr (), s') \<and> tables s' = tables s \<and>
     tx_start s' = tx_start s \<and> pending s' = pending s"
  by (auto simp: LockNotificationOwner_def andthen_def hold_def)

lemma mark_read_healthy:
  assumes h: "healthy env" and at: "tx_start s = Some at" and pend: "pending s = []"
  shows "\<exists>s'. tx_start s' = Some at \<and> pending s' = [] \<and> mark_read_body env owner i s =
    (case find_notification owner i (tables s) of
       None \<Rightarrow> (Inl ErrRecordNotFound, s')
     | Some n \<Rightarrow> (Inr (int (length (unread_of owner (tables s')))), s')) \<and>
    (find_notification owner i (tables s) \<noteq> None \<longrightarrow>
       tables s' = marked owner (\<lambda>n. ntf_id n = i) at (tables s))"
proof -
  obtain s1 where l: "LockNotificationOwner env owner s = (Inr (), s1)" "tables s1 = tables s"
      "tx_start s1 = Some at" "pending s1 = []"
    using LockNotificationOwner_healthy [OF h, of owner s] at pend by auto
  have swap: "(\<lambda>m. if ntf_id m = i \<and> ntf_owner m = owner then f m else m) =
      (\<lambda>m. if ntf_owner m = owner \<and> ntf_id m = i then f m else m)" for f
    by auto
  show ?thesis
    using h l
    by (auto simp: mark_read_body_def andthen_def map_error_def MarkNotificationRead_def
        markNotificationRead_sql_def CountUnreadNotifications_def find_notification_def marked_def
        now_ctx_of swap split: option.split)
qed

lemma mark_all_healthy:
  assumes h: "healthy env" and at: "tx_start s = Some at" and pend: "pending s = []"
  shows "\<exists>s'. mark_all_body env owner s = (Inr 0, s') \<and> pending s' = [] \<and>
    tables s' = marked owner (\<lambda>_. True) at (tables s)"
proof -
  obtain s1 where l: "LockNotificationOwner env owner s = (Inr (), s1)" "tables s1 = tables s"
      "tx_start s1 = Some at" "pending s1 = []"
    using LockNotificationOwner_healthy [OF h, of owner s] at pend by auto
  have none: "unread_of owner (marked owner (\<lambda>_. True) at (tables s)) = []"
    by (simp add: unread_marked)
  have now: "now (ctx_of env s1) = at" using l by (simp add: ctx_of_def)
  have eq: "map (\<lambda>m. if ntf_owner m = owner \<and> ntf_read_at m = None then m\<lparr>ntf_read_at := Some (now (ctx_of env s1))\<rparr> else m) ns
      = map (\<lambda>n. if ntf_owner n = owner \<and> True then read_at_now at n else n) ns" for ns
    by (auto simp: read_at_now_def now split: option.split)
  show ?thesis
    using h l none
    by (auto simp: mark_all_body_def andthen_def map_error_def MarkAllNotificationsRead_def
        markAllNotificationsRead_sql_def CountUnreadNotifications_def marked_def eq)
qed

text \<open>
  Marking one notification read, on a working database: if it exists and is
  the caller's, it gets the transaction's time as its read time unless it already has one,
  no other row changes, and the answer is the number of the caller's notifications still
  unread, that is of those unread before without this one. Somebody else's notification is
  reported as not found and stays as it is.
\<close>

theorem mark_read_decides:
  assumes h: "healthy env" and run: "MarkNotificationReadTx env owner i s = (r, s')"
  shows "if find_notification owner i (tables s) = None
    then r = Inl ErrRecordNotFound \<and> tables s' = tables s
    else tables s' = marked owner (\<lambda>n. ntf_id n = i) (time_at env (tick s)) (tables s) \<and>
      r = Inr (int (length (filter (\<lambda>n. ntf_id n \<noteq> i) (unread_of owner (tables s)))))"
proof -
  let ?at = "time_at env (tick s)"
  obtain s1 where 1: "mark_read_body env owner i (begin_tx env s) =
    (case find_notification owner i (tables s) of
       None \<Rightarrow> (Inl ErrRecordNotFound, s1)
     | Some n \<Rightarrow> (Inr (int (length (unread_of owner (tables s1)))), s1))" "pending s1 = []"
    "find_notification owner i (tables s) \<noteq> None \<longrightarrow>
       tables s1 = marked owner (\<lambda>n. ntf_id n = i) ?at (tables s)"
    using mark_read_healthy [OF h, of "begin_tx env s" ?at owner i] by auto
  show ?thesis
  proof (cases "find_notification owner i (tables s)")
    case None
    then show ?thesis
      using 1 run by (auto simp: MarkNotificationReadTx_def healthy_execTx [OF h])
  next
    case (Some n)
    then have t: "tables s1 = marked owner (\<lambda>n. ntf_id n = i) ?at (tables s)" using 1(3) by simp
    have "r = Inr (int (length (unread_of owner (tables s1))))" "s' = commit (step_tick s1)"
      using Some 1(1) run by (auto simp: MarkNotificationReadTx_def healthy_execTx [OF h])
    then show ?thesis
      using Some 1(2) t by (simp add: publish_pending_def unread_marked)
  qed
qed

text \<open>
  Marking all read, on a working database, always succeeds with 0 unread: each
  unread notification of the owner gets the transaction's time, those read earlier keep
  theirs, other owners see no change, and doing it again changes nothing.
\<close>

theorem mark_all_read:
  assumes h: "healthy env"
  shows "\<exists>s' s''. MarkAllNotificationsReadTx env owner s = (Inr 0, s') \<and>
    tables s' = marked owner (\<lambda>_. True) (time_at env (tick s)) (tables s) \<and>
    unread_of owner (tables s') = [] \<and>
    (\<forall>other. other \<noteq> owner \<longrightarrow> unread_of other (tables s') = unread_of other (tables s)) \<and>
    MarkAllNotificationsReadTx env owner s' = (Inr 0, s'') \<and> tables s'' = tables s'"
proof -
  have run: "\<exists>s'. MarkAllNotificationsReadTx env owner s = (Inr 0, s') \<and>
      tables s' = marked owner (\<lambda>_. True) (time_at env (tick s)) (tables s)" for s
    using mark_all_healthy [OF h, of "begin_tx env s" "time_at env (tick s)" owner]
    by (auto simp: MarkAllNotificationsReadTx_def healthy_execTx [OF h] publish_pending_def)
  obtain s' where 1: "MarkAllNotificationsReadTx env owner s = (Inr 0, s')"
    "tables s' = marked owner (\<lambda>_. True) (time_at env (tick s)) (tables s)"
    using run [of s] by blast
  obtain s'' where 2: "MarkAllNotificationsReadTx env owner s' = (Inr 0, s'')"
    "tables s'' = marked owner (\<lambda>_. True) (time_at env (tick s')) (tables s')"
    using run [of s'] by blast
  then have "tables s'' = tables s'" using 1(2) by (simp add: marked_idem)
  then show ?thesis using 1 2(1) by (intro exI [of _ s'] exI [of _ s'']) (simp add: unread_marked)
qed

section \<open>Witnesses\<close>

definition sample_note :: "uuid \<Rightarrow> string \<Rightarrow> time \<Rightarrow> notification" where
  "sample_note i own at = \<lparr>ntf_id = i, ntf_owner = own, ntf_account_id = 10, ntf_transfer_id = i,
     ntf_direction = ''sent'', ntf_amount = 1, ntf_currency = ''USD'', ntf_balance = 99,
     ntf_read_at = None, ntf_created_at = at\<rparr>"

definition noted_transfer :: "uuid \<Rightarrow> transfer" where
  "noted_transfer i = \<lparr>tr_id = i, tr_from_account_id = 10, tr_to_account_id = 11, tr_amount = 1,
     tr_created_at = 0, tr_idempotency_key = i\<rparr>"

definition noted_db :: db where
  "noted_db = sample_db\<lparr>transfers := map noted_transfer [40, 41, 42, 43],
     notifications := [sample_note 40 ''alice'' 5, sample_note 41 ''alice'' 7, sample_note 42 ''bob'' 7, sample_note 43 ''alice'' 7]\<rparr>"

lemma healthy_sample: "healthy sample_env"
  by (simp add: healthy_def sample_env_def)

theorem paging_complete_witness:
  "map_option (map ntf_id) (browse sample_env ''alice'' 2 2 None (connect_db noted_db)) = Some [43, 41, 40] \<and>
   (\<exists>rs. browse sample_env ''alice'' 2 2 None (connect_db noted_db) = Some rs \<and> descending ntf_stamp rs)"
proof -
  have "schema_ok noted_db"
    "length (filter (\<lambda>n. ntf_owner n = ''alice'') (notifications noted_db)) \<le> 2 * nat 2"
    "map_option (map ntf_id) (browse sample_env ''alice'' 2 2 None (connect_db noted_db)) = Some [43, 41, 40]"
    by code_simp+
  then show ?thesis
    using paging_complete [of sample_env "connect_db noted_db" 2 "''alice''" 2] healthy_sample by auto
qed

abbreviation mark_41 :: "int pg_op" where
  "mark_41 \<equiv> MarkNotificationReadTx sample_env ''alice'' 41"

theorem mark_read_decides_witness:
  "result mark_41 (connect_db noted_db) = Inr 2 \<and>
   result (MarkNotificationReadTx sample_env ''bob'' 41) (connect_db noted_db) = Inl ErrRecordNotFound"
proof -
  have "find_notification ''alice'' 41 noted_db \<noteq> None" "find_notification ''bob'' 41 noted_db = None"
    "length (filter (\<lambda>n. ntf_id n \<noteq> 41) (unread_of ''alice'' noted_db)) = 2" by code_simp+
  then show ?thesis
    using mark_read_decides [OF healthy_sample run_eq [of mark_41 "connect_db noted_db"]]
      mark_read_decides [OF healthy_sample
        run_eq [of "MarkNotificationReadTx sample_env ''bob'' 41" "connect_db noted_db"]]
    by simp
qed

theorem mark_all_read_witness:
  "\<exists>s'. MarkAllNotificationsReadTx sample_env ''alice'' (connect_db noted_db) = (Inr 0, s') \<and>
     unread_of ''alice'' (tables s') = [] \<and> length (unread_of ''bob'' (tables s')) = 1"
proof -
  have "length (unread_of ''bob'' noted_db) = 1" by code_simp
  then show ?thesis using mark_all_read [OF healthy_sample, of "''alice''" "connect_db noted_db"] by force
qed

end
