(* ===== verification/Hub.thy ===== *)
theory Hub
  imports Prelude "HOL-Library.AList" "HOL-Library.Sublist"
begin

text \<open>
  \<open>internal/notification/hub.go\<close>: fan-out of notification identifiers to the open event
  streams of their owner. \<open>pubsub\<close> is the interface its callers rely on, \<open>hub_pubsub\<close> the
  proof that the hub provides it. A Go map is an association list, a channel an index into
  the list of all channels made so far, holding what is buffered in it. The mutex makes
  every operation one step.
\<close>

definition subscriberBuffer :: nat where
  "subscriberBuffer = 16"

record hub =
  nextID :: "64 word"
  subscribers :: "(string \<times> (64 word \<times> nat) list) list"
  channels :: "uuid list list"

text \<open>What \<open>Subscribe\<close> returns: the channel, and what the unsubscribe function captured.\<close>

record subscription =
  sub_owner :: string
  sub_id :: "64 word"
  sub_channel :: nat

section \<open>The operations\<close>

definition NewHub :: hub where
  "NewHub = \<lparr>nextID = 0, subscribers = [], channels = []\<rparr>"

definition owner_subscribers :: "hub \<Rightarrow> string \<Rightarrow> (64 word \<times> nat) list" where
  \<comment> \<open>indexing a map by an absent key gives the nil map\<close>
  "owner_subscribers h owner = (case map_of (subscribers h) owner of Some m \<Rightarrow> m | None \<Rightarrow> [])"

definition Subscribe :: "string \<Rightarrow> hub \<Rightarrow> subscription \<times> hub" where
  "Subscribe owner h =
     (let i = nextID h; ch = length (channels h) in
      (\<lparr>sub_owner = owner, sub_id = i, sub_channel = ch\<rparr>,
       \<lparr>nextID = i + 1,
        subscribers = AList.update owner (AList.update i ch (owner_subscribers h owner)) (subscribers h),
        channels = channels h @ [[]]\<rparr>))"

definition unsubscribe :: "subscription \<Rightarrow> hub \<Rightarrow> hub" where
  "unsubscribe s h =
     (let rest = AList.delete (sub_id s) (owner_subscribers h (sub_owner s));
          subs = (if map_of (subscribers h) (sub_owner s) = None then subscribers h
                  else AList.update (sub_owner s) rest (subscribers h)) in
      h\<lparr>subscribers := (if rest = [] then AList.delete (sub_owner s) subs else subs)\<rparr>)"

text \<open>Sending without blocking: a full channel drops the value.\<close>

definition try_send :: "uuid \<Rightarrow> nat \<Rightarrow> uuid list list \<Rightarrow> uuid list list" where
  "try_send i ch cs = (if length (cs ! ch) < subscriberBuffer then cs[ch := cs ! ch @ [i]] else cs)"

definition Publish :: "string \<Rightarrow> uuid \<Rightarrow> hub \<Rightarrow> hub" where
  "Publish owner i h =
     h\<lparr>channels := fold (try_send i) (map snd (owner_subscribers h owner)) (channels h)\<rparr>"

text \<open>The reader's side: a receive that would block gives \<open>None\<close>.\<close>

definition receive :: "subscription \<Rightarrow> hub \<Rightarrow> uuid option \<times> hub" where
  "receive s h =
     (case channels h ! sub_channel s of
        [] \<Rightarrow> (None, h)
      | i # is \<Rightarrow> (Some i, h\<lparr>channels := (channels h)[sub_channel s := is]\<rparr>))"

section \<open>The interface\<close>

text \<open>
  \<open>members\<close>: who is subscribed, \<open>inbox\<close>: what is waiting for a subscription, \<open>room\<close>: another
  subscription can be made.
\<close>

locale pubsub =
  fixes sub :: "'o \<Rightarrow> 'h \<Rightarrow> 's \<times> 'h"
    and unsub :: "'s \<Rightarrow> 'h \<Rightarrow> 'h"
    and pub :: "'o \<Rightarrow> 'm \<Rightarrow> 'h \<Rightarrow> 'h"
    and recv :: "'s \<Rightarrow> 'h \<Rightarrow> 'm option \<times> 'h"
    and inv :: "'h \<Rightarrow> bool"
    and room :: "'h \<Rightarrow> bool"
    and members :: "'h \<Rightarrow> ('o \<times> 's) set"
    and inbox :: "'h \<Rightarrow> 's \<Rightarrow> 'm list"
    and cap :: nat
  assumes sub_law: "inv h \<Longrightarrow> room h \<Longrightarrow> sub ow h = (s, h') \<Longrightarrow>
      inv h' \<and> members h' = insert (ow, s) (members h) \<and> s \<notin> snd ` members h \<and>
      inbox h' s = [] \<and> (\<forall>t \<in> snd ` members h. inbox h' t = inbox h t)"
    and unsub_law: "inv h \<Longrightarrow> (ow, s) \<in> members h \<Longrightarrow>
      inv (unsub s h) \<and> members (unsub s h) = members h - {(ow, s)} \<and> inbox (unsub s h) = inbox h"
    and pub_law: "inv h \<Longrightarrow>
      inv (pub ow m h) \<and> members (pub ow m h) = members h \<and>
      (\<forall>t \<in> snd ` members h. inbox (pub ow m h) t =
         (if (ow, t) \<in> members h \<and> length (inbox h t) < cap then inbox h t @ [m] else inbox h t))"
    and recv_law: "inv h \<Longrightarrow> (ow, s) \<in> members h \<Longrightarrow> recv s h = (r, h') \<Longrightarrow>
      inv h' \<and> members h' = members h \<and>
      (case inbox h s of [] \<Rightarrow> r = None \<and> inbox h' s = [] | m # ms \<Rightarrow> r = Some m \<and> inbox h' s = ms) \<and>
      (\<forall>t \<in> snd ` members h. t \<noteq> s \<longrightarrow> inbox h' t = inbox h t)"
    and owner_unique: "inv h \<Longrightarrow> (ow, s) \<in> members h \<Longrightarrow> (ow', s) \<in> members h \<Longrightarrow> ow = ow'"
begin

lemma pub_inbox:
  assumes "inv h" "(ow, s) \<in> members h"
  shows "inbox (pub q m h) s =
    (if q = ow \<and> length (inbox h s) < cap then inbox h s @ [m] else inbox h s)"
proof -
  have "s \<in> snd ` members h" using assms(2) by force
  moreover have "(q, s) \<in> members h \<longleftrightarrow> q = ow"
    using owner_unique [OF assms] assms(2) by blast
  moreover have "\<forall>t \<in> snd ` members h. inbox (pub q m h) t =
      (if (q, t) \<in> members h \<and> length (inbox h t) < cap then inbox h t @ [m] else inbox h t)"
    using pub_law [OF assms(1), of q m] by blast
  ultimately show ?thesis by metis
qed

text \<open>A burst of publications fills the inbox with the owner's, in order, up to its capacity.\<close>

lemma burst:
  assumes "inv h" "(ow, s) \<in> members h"
  shows "inv (fold (\<lambda>(q, m). pub q m) evs h) \<and> members (fold (\<lambda>(q, m). pub q m) evs h) = members h \<and>
    inbox (fold (\<lambda>(q, m). pub q m) evs h) s =
      inbox h s @ take (cap - length (inbox h s)) (map snd (filter (\<lambda>e. fst e = ow) evs))"
  using assms
proof (induction evs arbitrary: h)
  case Nil
  then show ?case by simp
next
  case (Cons e evs)
  obtain q m where e: "e = (q, m)" by (cases e)
  have p: "inv (pub q m h)" "members (pub q m h) = members h"
    using pub_law [OF Cons.prems(1), of q m] by blast+
  note i = pub_inbox [OF Cons.prems(1,2), of q m]
  have mem: "(ow, s) \<in> members (pub q m h)" using p(2) Cons.prems(2) by simp
  have all: "inbox h s @ take (cap - length (inbox h s)) (map snd (filter (\<lambda>x. fst x = ow) (e # evs))) =
      inbox (pub q m h) s @ take (cap - length (inbox (pub q m h) s)) (map snd (filter (\<lambda>x. fst x = ow) evs))"
  proof (cases "length (inbox h s) < cap")
    case True
    then have "cap - length (inbox h s) = Suc (cap - Suc (length (inbox h s)))" by simp
    then show ?thesis using True by (simp add: i e)
  next
    case False
    then show ?thesis by (simp add: i e)
  qed
  show ?case
    using Cons.IH [OF p(1) mem] unfolding all by (simp only: e fold_Cons comp_apply p(2) prod.case simp_thms)
qed

text \<open>
  Any mixture of publications and of receives by members: what one member received and what
  still waits for it are, in order, some of what was published to its owner.
\<close>

fun traffic :: "('o \<times> 'm + 's) list \<Rightarrow> 's \<Rightarrow> 'h \<Rightarrow> 'm list \<times> 'h" where
  "traffic [] s h = ([], h)"
| "traffic (Inl (q, m) # es) s h = traffic es s (pub q m h)"
| "traffic (Inr t # es) s h =
     (let (r, h1) = recv t h; (got, h2) = traffic es s h1
      in (if t = s then case r of Some m \<Rightarrow> m # got | None \<Rightarrow> got else got, h2))"

definition sent_to :: "'o \<Rightarrow> ('o \<times> 'm + 's) list \<Rightarrow> 'm list" where
  "sent_to ow es = concat (map (\<lambda>e. case e of Inl (q, m) \<Rightarrow> if q = ow then [m] else [] | Inr _ \<Rightarrow> []) es)"

lemma in_order:
  assumes "inv h" "(ow, s) \<in> members h" "\<forall>t. Inr t \<in> set es \<longrightarrow> t \<in> snd ` members h"
    and "traffic es s h = (got, h')"
  shows "subseq (got @ inbox h' s) (inbox h s @ sent_to ow es)"
  using assms
proof (induction es arbitrary: h got)
  case Nil
  then show ?case by (simp add: sent_to_def)
next
  case (Cons e es)
  show ?case
  proof (cases e)
    case (Inl p)
    obtain q m where p: "p = (q, m)" by (cases p)
    have l: "inv (pub q m h)" "members (pub q m h) = members h"
      using pub_law [OF Cons.prems(1), of q m] by blast+
    note i = pub_inbox [OF Cons.prems(1,2), of q m]
    have mem: "(ow, s) \<in> members (pub q m h)"
      and rest: "\<forall>t. Inr t \<in> set es \<longrightarrow> t \<in> snd ` members (pub q m h)"
      and run: "traffic es s (pub q m h) = (got, h')"
      using l(2) Cons.prems Inl p by auto
    have "subseq (got @ inbox h' s) (inbox (pub q m h) s @ sent_to ow es)"
      by (rule Cons.IH [OF l(1) mem rest run])
    moreover have "subseq (inbox (pub q m h) s @ sent_to ow es) (inbox h s @ sent_to ow (e # es))"
      using i by (auto simp: Inl p sent_to_def subseq_append')
    ultimately show ?thesis by (rule subseq_order.trans)
  next
    case (Inr t)
    obtain r h1 where r: "recv t h = (r, h1)" by fastforce
    obtain got1 where run: "traffic es s h1 = (got1, h')"
      and got: "got = (if t = s then case r of Some m \<Rightarrow> m # got1 | None \<Rightarrow> got1 else got1)"
      using Cons.prems(4) Inr r by (auto split: prod.splits)
    obtain q where "(q, t) \<in> members h" using Cons.prems(3) Inr by auto
    note l = recv_law [OF Cons.prems(1) this r]
    have "subseq (got1 @ inbox h' s) (inbox h1 s @ sent_to ow es)"
      using Cons.IH [OF _ _ _ run] l Cons.prems(2,3) by auto
    moreover have "inbox h s = (if t = s then case r of Some m \<Rightarrow> m # inbox h1 s | None \<Rightarrow> inbox h1 s
        else inbox h1 s)"
    proof (cases "t = s")
      case True
      then show ?thesis using l by (auto split: list.splits)
    next
      case False
      then show ?thesis using l Cons.prems(2) by force
    qed
    moreover have "sent_to ow (e # es) = sent_to ow es" by (simp add: Inr sent_to_def)
    ultimately show ?thesis using got by (cases r) auto
  qed
qed

end

section \<open>The hub provides the interface\<close>

text \<open>
  The invariant of the hub: one entry per owner, no empty entry left behind, identifiers
  below the next one, and no channel shared.
\<close>

definition hub_members :: "hub \<Rightarrow> (string \<times> subscription) set" where
  "hub_members h = {(ow, s). sub_owner s = ow \<and> (sub_id s, sub_channel s) \<in> set (owner_subscribers h ow)}"

definition hub_inbox :: "hub \<Rightarrow> subscription \<Rightarrow> uuid list" where
  "hub_inbox h s = channels h ! sub_channel s"

definition hub_room :: "hub \<Rightarrow> bool" where
  "hub_room h \<longleftrightarrow> nextID h \<noteq> - 1"

definition hub_ok :: "hub \<Rightarrow> bool" where
  "hub_ok h \<longleftrightarrow> distinct (map fst (subscribers h)) \<and>
     (\<forall>ow m. map_of (subscribers h) ow = Some m \<longrightarrow> m \<noteq> [] \<and> distinct (map fst m)) \<and>
     (\<forall>ow. \<forall>(i, ch) \<in> set (owner_subscribers h ow). i < nextID h \<and> ch < length (channels h)) \<and>
     (\<forall>ow ow' i ch i'. (i, ch) \<in> set (owner_subscribers h ow) \<and> (i', ch) \<in> set (owner_subscribers h ow')
        \<longrightarrow> ow = ow' \<and> i = i')"

lemma owner_subscribers_update:
  "owner_subscribers (h\<lparr>subscribers := AList.update ow m (subscribers h)\<rparr>) q =
     (if q = ow then m else owner_subscribers h q)"
  by (simp add: owner_subscribers_def update_conv)

lemma word_less_next: "(x :: 64 word) \<noteq> - 1 \<Longrightarrow> x < x + 1"
  using inc_less_eq_triv_imp [of x] by (auto simp: not_le [symmetric])

lemma update_absent: "k \<notin> fst ` set m \<Longrightarrow> AList.update k v m = m @ [(k, v)]"
  by (induction m) auto

lemma owner_subscribers_distinct:
  "hub_ok h \<Longrightarrow> distinct (map fst (owner_subscribers h ow))"
  by (auto simp: owner_subscribers_def hub_ok_def split: option.splits)

lemma hub_bound:
  "hub_ok h \<Longrightarrow> (i, ch) \<in> set (owner_subscribers h q) \<Longrightarrow> i < nextID h \<and> ch < length (channels h)"
  unfolding hub_ok_def by blast

lemma hub_unshared:
  "hub_ok h \<Longrightarrow> (i, ch) \<in> set (owner_subscribers h q) \<Longrightarrow> (i', ch) \<in> set (owner_subscribers h q') \<Longrightarrow>
     q = q' \<and> i = i'"
  unfolding hub_ok_def by blast

lemma hub_same_channel:
  assumes "hub_ok h" "(q, t) \<in> hub_members h" "(q', t') \<in> hub_members h"
    "sub_channel t = sub_channel t'"
  shows "q = q' \<and> t = t'"
  using assms hub_unshared [OF assms(1), of "sub_id t" "sub_channel t" q "sub_id t'" q']
  by (auto simp: hub_members_def intro: subscription.equality)

lemma nth_append_new [simp]: "ch < length xs \<Longrightarrow> (xs @ [y]) ! ch = xs ! ch" 
  by (simp add: nth_append)

lemma Subscribe_law:
  assumes ok: "hub_ok h" and room: "hub_room h" and run: "Subscribe ow h = (s, h')"
  shows "hub_ok h' \<and> hub_members h' = insert (ow, s) (hub_members h) \<and> s \<notin> snd ` hub_members h \<and>
    hub_inbox h' s = [] \<and> (\<forall>t \<in> snd ` hub_members h. hub_inbox h' t = hub_inbox h t)"
proof -
  let ?m = "owner_subscribers h ow" and ?i = "nextID h" and ?ch = "length (channels h)"
  have bound: "i < ?i \<and> ch < ?ch" if "(i, ch) \<in> set (owner_subscribers h q)" for i ch q
    using ok that unfolding hub_ok_def by blast
  have lt: "?i < ?i + 1" using room by (simp add: hub_room_def word_less_next)
  have "?i \<notin> fst ` set ?m" using bound by fastforce
  then have up: "AList.update ?i ?ch ?m = ?m @ [(?i, ?ch)]" by (rule update_absent)
  have s: "s = \<lparr>sub_owner = ow, sub_id = ?i, sub_channel = ?ch\<rparr>"
    and h': "h' = \<lparr>nextID = ?i + 1, subscribers = AList.update ow (?m @ [(?i, ?ch)]) (subscribers h),
        channels = channels h @ [[]]\<rparr>"
    using run by (simp_all add: Subscribe_def Let_def up)
  have os: "owner_subscribers h' q = (if q = ow then ?m @ [(?i, ?ch)] else owner_subscribers h q)" for q
    unfolding h' by (simp add: owner_subscribers_def update_conv)
  have mem: "(i, ch) \<in> set (owner_subscribers h' q) \<longleftrightarrow>
      (i, ch) \<in> set (owner_subscribers h q) \<or> (q = ow \<and> i = ?i \<and> ch = ?ch)" for i ch q
    by (auto simp: os)
  have "hub_ok h'"
    unfolding hub_ok_def
  proof (intro conjI)
    show "distinct (map fst (subscribers h'))"
      using ok by (auto simp: h' hub_ok_def intro: distinct_update)
    show "\<forall>q m. map_of (subscribers h') q = Some m \<longrightarrow> m \<noteq> [] \<and> distinct (map fst m)"
      using ok owner_subscribers_distinct [OF ok, of ow] \<open>?i \<notin> fst ` set ?m\<close>
      unfolding hub_ok_def h' by (auto simp: update_conv split: if_splits)
    show "\<forall>q. \<forall>(i, ch) \<in> set (owner_subscribers h' q). i < nextID h' \<and> ch < length (channels h')"
    proof (intro allI ballI, clarify)
      fix q i ch
      assume "(i, ch) \<in> set (owner_subscribers h' q)"
      then show "i < nextID h' \<and> ch < length (channels h')"
        unfolding mem using bound [of i ch q] lt by (auto simp: h')
    qed
    show "\<forall>q q' i ch i'. (i, ch) \<in> set (owner_subscribers h' q) \<and> (i', ch) \<in> set (owner_subscribers h' q')
        \<longrightarrow> q = q' \<and> i = i'"
      using ok bound unfolding mem hub_ok_def by blast
  qed
  moreover have "hub_members h' = insert (ow, s) (hub_members h)"
    unfolding hub_members_def mem s by (auto intro: subscription.equality)
  moreover have "s \<notin> snd ` hub_members h" by (auto simp: hub_members_def s dest!: bound)
  moreover have "hub_inbox h' s = []" by (simp add: hub_inbox_def h' s)
  moreover have "\<forall>t \<in> snd ` hub_members h. hub_inbox h' t = hub_inbox h t"
    using bound by (fastforce simp: hub_members_def hub_inbox_def h')
  ultimately show ?thesis by blast
qed

lemma unsubscribe_subscribers:
  assumes ok: "hub_ok h" and mem: "(ow, s) \<in> hub_members h"
  shows "owner_subscribers (unsubscribe s h) q =
      (if q = ow then AList.delete (sub_id s) (owner_subscribers h ow) else owner_subscribers h q)"
    and "map_of (subscribers (unsubscribe s h)) q = (if q = ow then
      (let rest = AList.delete (sub_id s) (owner_subscribers h ow) in if rest = [] then None else Some rest)
      else map_of (subscribers h) q)"
    and "distinct (map fst (subscribers (unsubscribe s h)))"
    and "nextID (unsubscribe s h) = nextID h" "channels (unsubscribe s h) = channels h"
proof -
  have ow: "sub_owner s = ow" using mem by (simp add: hub_members_def)
  have "map_of (subscribers h) ow \<noteq> None"
    using mem by (cases "map_of (subscribers h) ow") (auto simp: hub_members_def owner_subscribers_def)
  with ow show "map_of (subscribers (unsubscribe s h)) q = (if q = ow then
      (let rest = AList.delete (sub_id s) (owner_subscribers h ow) in if rest = [] then None else Some rest)
      else map_of (subscribers h) q)"
    by (auto simp: unsubscribe_def Let_def update_conv delete_conv delete_conv')
  then show "owner_subscribers (unsubscribe s h) q =
      (if q = ow then AList.delete (sub_id s) (owner_subscribers h ow) else owner_subscribers h q)"
    by (simp add: owner_subscribers_def [of "unsubscribe s h"] Let_def)
      (simp add: owner_subscribers_def)
  have "distinct (map fst (subscribers h))" using ok by (simp add: hub_ok_def)
  then show "distinct (map fst (subscribers (unsubscribe s h)))"
    by (simp add: unsubscribe_def Let_def distinct_update distinct_delete)
qed (simp_all add: unsubscribe_def Let_def)

lemma unsubscribe_law:
  assumes ok: "hub_ok h" and mem: "(ow, s) \<in> hub_members h"
  shows "hub_ok (unsubscribe s h) \<and> hub_members (unsubscribe s h) = hub_members h - {(ow, s)} \<and>
    hub_inbox (unsubscribe s h) = hub_inbox h"
proof -
  note U = unsubscribe_subscribers [OF ok mem]
  have s: "sub_owner s = ow" "(sub_id s, sub_channel s) \<in> set (owner_subscribers h ow)"
    using mem by (auto simp: hub_members_def)
  have mem': "(i, ch) \<in> set (owner_subscribers (unsubscribe s h) q) \<longleftrightarrow>
      (i, ch) \<in> set (owner_subscribers h q) \<and> \<not> (q = ow \<and> i = sub_id s)" for i ch q
    by (auto simp: U(1) AList.delete_eq)
  have "hub_ok (unsubscribe s h)"
    unfolding hub_ok_def
  proof (intro conjI)
    show "\<forall>q m. map_of (subscribers (unsubscribe s h)) q = Some m \<longrightarrow> m \<noteq> [] \<and> distinct (map fst m)"
      using ok owner_subscribers_distinct [OF ok, of ow]
      unfolding hub_ok_def U(2) by (auto simp: Let_def distinct_delete split: if_splits)
    show "\<forall>q. \<forall>(i, ch) \<in> set (owner_subscribers (unsubscribe s h) q).
        i < nextID (unsubscribe s h) \<and> ch < length (channels (unsubscribe s h))"
      using ok mem' U(4,5) unfolding hub_ok_def by fastforce
    show "\<forall>q q' i ch i'. (i, ch) \<in> set (owner_subscribers (unsubscribe s h) q) \<and>
        (i', ch) \<in> set (owner_subscribers (unsubscribe s h) q') \<longrightarrow> q = q' \<and> i = i'"
      using ok unfolding mem' hub_ok_def by blast
  qed (rule U(3))
  moreover have "hub_members (unsubscribe s h) = hub_members h - {(ow, s)}"
  proof -
    have "t = s" if "(sub_id t, sub_channel t) \<in> set (owner_subscribers h ow)" "sub_id t = sub_id s"
      "sub_owner t = ow" for t
    proof -
      have "sub_channel t = sub_channel s"
        using that(1,2) s(2) owner_subscribers_distinct [OF ok, of ow] by (metis eq_key_imp_eq_value)
      then show ?thesis using that(2,3) s(1) by simp
    qed
    then show ?thesis using s by (auto simp: hub_members_def mem')
  qed
  moreover have "hub_inbox (unsubscribe s h) = hub_inbox h" by (simp add: hub_inbox_def fun_eq_iff U)
  ultimately show ?thesis by blast
qed

lemma try_send_all:
  assumes "distinct chs" "\<forall>c \<in> set chs. c < length cs"
  shows "length (fold (try_send i) chs cs) = length cs \<and>
    (c < length cs \<longrightarrow> fold (try_send i) chs cs ! c =
       (if c \<in> set chs \<and> length (cs ! c) < subscriberBuffer then cs ! c @ [i] else cs ! c))"
  using assms by (induction chs arbitrary: cs) (auto simp: try_send_def nth_list_update)

lemma owner_channels:
  assumes ok: "hub_ok h"
  shows "distinct (map snd (owner_subscribers h ow))"
    "\<forall>c \<in> set (map snd (owner_subscribers h ow)). c < length (channels h)"
proof -
  have "inj_on snd (set (owner_subscribers h ow))"
    using hub_unshared [OF ok] by (auto simp: inj_on_def)
  then show "distinct (map snd (owner_subscribers h ow))"
    using owner_subscribers_distinct [OF ok, of ow] by (simp add: distinct_map)
  show "\<forall>c \<in> set (map snd (owner_subscribers h ow)). c < length (channels h)"
    using hub_bound [OF ok] by auto
qed

lemma hub_channel_bound: "hub_ok h \<Longrightarrow> (ow, s) \<in> hub_members h \<Longrightarrow> sub_channel s < length (channels h)"
  using hub_bound by (auto simp: hub_members_def)

lemma frame_channels:
  assumes "subscribers h' = subscribers h" "nextID h' = nextID h" "length (channels h') = length (channels h)"
  shows "hub_ok h' = hub_ok h" "hub_members h' = hub_members h"
  using assms by (simp_all add: hub_ok_def hub_members_def owner_subscribers_def)

lemma Publish_law:
  assumes ok: "hub_ok h"
  shows "hub_ok (Publish ow i h) \<and> hub_members (Publish ow i h) = hub_members h \<and>
    (\<forall>t \<in> snd ` hub_members h. hub_inbox (Publish ow i h) t =
       (if (ow, t) \<in> hub_members h \<and> length (hub_inbox h t) < subscriberBuffer
        then hub_inbox h t @ [i] else hub_inbox h t))"
proof -
  note send = try_send_all [OF owner_channels [OF ok, of ow], of i]
  have "subscribers (Publish ow i h) = subscribers h" "nextID (Publish ow i h) = nextID h"
    "length (channels (Publish ow i h)) = length (channels h)"
    using send by (simp_all add: Publish_def)
  note f = frame_channels [OF this]
  have "hub_inbox (Publish ow i h) t =
      (if (ow, t) \<in> hub_members h \<and> length (hub_inbox h t) < subscriberBuffer
       then hub_inbox h t @ [i] else hub_inbox h t)" if t: "(q, t) \<in> hub_members h" for q t
  proof -
    have "sub_channel t \<in> set (map snd (owner_subscribers h ow)) \<longleftrightarrow> (ow, t) \<in> hub_members h"
    proof
      assume "sub_channel t \<in> set (map snd (owner_subscribers h ow))"
      then obtain k where "(k, sub_channel t) \<in> set (owner_subscribers h ow)" by auto
      moreover have "(sub_id t, sub_channel t) \<in> set (owner_subscribers h q)" "sub_owner t = q"
        using t by (simp_all add: hub_members_def)
      ultimately have "ow = q" using hub_unshared [OF ok] by blast
      then show "(ow, t) \<in> hub_members h" using t by simp
    next
      assume "(ow, t) \<in> hub_members h"
      then show "sub_channel t \<in> set (map snd (owner_subscribers h ow))"
        by (force simp: hub_members_def)
    qed
    then show ?thesis
      using send [of "sub_channel t"] hub_channel_bound [OF ok t]
      by (simp add: Publish_def hub_inbox_def)
  qed
  then show ?thesis using f ok by auto
qed

lemma receive_law:
  assumes ok: "hub_ok h" and mem: "(ow, s) \<in> hub_members h" and run: "receive s h = (r, h')"
  shows "hub_ok h' \<and> hub_members h' = hub_members h \<and>
    (case hub_inbox h s of [] \<Rightarrow> r = None \<and> hub_inbox h' s = []
      | m # ms \<Rightarrow> r = Some m \<and> hub_inbox h' s = ms) \<and>
    (\<forall>t \<in> snd ` hub_members h. t \<noteq> s \<longrightarrow> hub_inbox h' t = hub_inbox h t)"
proof -
  have "hub_ok h'" "hub_members h' = hub_members h"
    using run ok frame_channels [of h' h] by (auto simp: receive_def split: list.splits)
  moreover have "case hub_inbox h s of [] \<Rightarrow> r = None \<and> hub_inbox h' s = []
      | m # ms \<Rightarrow> r = Some m \<and> hub_inbox h' s = ms"
    using run hub_channel_bound [OF ok mem]
    by (cases "channels h ! sub_channel s") (auto simp: receive_def hub_inbox_def)
  moreover have "hub_inbox h' t = hub_inbox h t" if "(q, t) \<in> hub_members h" "t \<noteq> s" for q t
  proof -
    have "sub_channel t \<noteq> sub_channel s" using hub_same_channel [OF ok that(1) mem] that(2) by blast
    then show ?thesis
      using run by (cases "channels h ! sub_channel s") (auto simp: receive_def hub_inbox_def)
  qed
  ultimately show ?thesis by auto
qed

interpretation hub_pubsub: pubsub Subscribe unsubscribe Publish receive hub_ok hub_room hub_members
    hub_inbox subscriberBuffer
proof (unfold_locales, goal_cases)
  case 1
  then show ?case by (rule Subscribe_law)
next
  case 2
  then show ?case by (rule unsubscribe_law)
next
  case 3
  then show ?case by (rule Publish_law)
next
  case 4
  then show ?case by (rule receive_law)
next
  case 5
  then show ?case by (simp add: hub_members_def)
qed

section \<open>Properties\<close>

lemma hub_ok_NewHub: "hub_ok NewHub"
  by (simp add: hub_ok_def NewHub_def owner_subscribers_def)

text \<open>
  A run of the hub: publications (left) and receives (right). The first component collects
  what the reader of \<open>s\<close> got.
\<close>

fun hub_traffic :: "(string \<times> uuid + subscription) list \<Rightarrow> subscription \<Rightarrow> hub \<Rightarrow> uuid list \<times> hub" where
  "hub_traffic [] s h = ([], h)"
| "hub_traffic (Inl (q, i) # es) s h = hub_traffic es s (Publish q i h)"
| "hub_traffic (Inr t # es) s h =
     (let (r, h1) = receive t h; (got, h2) = hub_traffic es s h1
      in (if t = s then case r of Some i \<Rightarrow> i # got | None \<Rightarrow> got else got, h2))"

lemma hub_traffic_eq: "hub_traffic es s h = hub_pubsub.traffic es s h"
  by (induction es s h rule: hub_traffic.induct) (auto split: prod.split)

fun published_to :: "string \<Rightarrow> (string \<times> uuid + subscription) list \<Rightarrow> uuid list" where
  "published_to ow [] = []"
| "published_to ow (Inl (q, i) # es) = (if q = ow then i # published_to ow es else published_to ow es)"
| "published_to ow (Inr t # es) = published_to ow es"

lemma published_to_eq: "published_to ow es = hub_pubsub.sent_to ow es"
  by (induction ow es rule: published_to.induct) (auto simp: hub_pubsub.sent_to_def)

text \<open>
  An event stream shows its owner's notifications and nobody else's: after any
  run of publications and receives, what the reader of a subscription got together with
  what is still buffered for it is, in the same order and without repetition, part of what
  was buffered before and what was published to its owner.
\<close>

theorem stream_isolation:
  assumes "hub_ok h" and "(ow, s) \<in> hub_members h"
    and "\<forall>t. Inr t \<in> set es \<longrightarrow> t \<in> snd ` hub_members h"
    and "hub_traffic es s h = (got, h')"
  shows "subseq (got @ hub_inbox h' s) (hub_inbox h s @ published_to ow es)"
  using hub_pubsub.in_order [OF assms(1-3)] assms(4) by (simp add: hub_traffic_eq published_to_eq)

text \<open>
  Nothing is lost while there is room: a burst of publications to any owners
  leaves in a stream's buffer exactly the identifiers published to its owner, in order, up
  to the 16 the buffer holds; the publisher never waits, and those that do not fit are
  dropped.
\<close>

theorem burst_delivery:
  assumes "hub_ok h" and "(ow, s) \<in> hub_members h"
  shows "hub_inbox (fold (\<lambda>(q, i). Publish q i) evs h) s =
    hub_inbox h s @ take (subscriberBuffer - length (hub_inbox h s)) (map snd (filter (\<lambda>e. fst e = ow) evs))"
  using hub_pubsub.burst [OF assms, of evs] by simp

lemma Publish_subscribers [simp]:
  "subscribers (fold (\<lambda>(q, i). Publish q i) evs h) = subscribers h"
  by (induction evs arbitrary: h) (auto simp: Publish_def)

text \<open>
  Closing a stream leaves nothing behind: after subscribing, any
  publications and unsubscribing, the table of subscribers is the one before, and with
  nobody subscribed it is empty.
\<close>

theorem unsubscribe_no_leak:
  assumes "hub_ok h" and "hub_room h" and "Subscribe ow h = (s, h')"
  shows "subscribers (unsubscribe s (fold (\<lambda>(q, i). Publish q i) evs h')) = subscribers h \<and>
    (hub_members h = {} \<longrightarrow> subscribers h = [])"
proof -
  let ?m = "owner_subscribers h ow" and ?i = "nextID h"
  have new: "?i \<notin> fst ` set ?m" using hub_bound [OF assms(1)] by fastforce
  have s: "sub_owner s = ow" "sub_id s = ?i"
    and h': "subscribers h' = AList.update ow (?m @ [(?i, length (channels h))]) (subscribers h)"
    using assms(3) by (auto simp: Subscribe_def Let_def update_absent [OF new])
  have del: "AList.delete ?i (?m @ [(?i, c)]) = ?m" for c
    using new by (simp add: AList.delete_eq filter_id_conv) (auto simp: image_iff)
  have triv: "AList.update ow ?m (subscribers h) = subscribers h" if "map_of (subscribers h) ow \<noteq> None"
    using that by (auto simp: owner_subscribers_def update_triv)
  have none: "?m = [] \<longleftrightarrow> map_of (subscribers h) ow = None"
    using assms(1) by (auto simp: owner_subscribers_def hub_ok_def split: option.splits)
  have absent: "AList.delete ow (subscribers h) = subscribers h" if "map_of (subscribers h) ow = None"
    using that by (simp add: map_of_eq_None_iff)
  have "subscribers (unsubscribe s (fold (\<lambda>(q, i). Publish q i) evs h')) = subscribers h"
    using s del triv none absent
    by (cases "map_of (subscribers h) ow = None")
      (auto simp: unsubscribe_def Let_def h' owner_subscribers_def [of "fold _ _ _"] update_conv
        delete_update_same)
  moreover have "subscribers h = []" if "hub_members h = {}"
  proof (rule ccontr)
    assume "subscribers h \<noteq> []"
    then obtain q m rest where "subscribers h = (q, m) # rest" by (metis list.exhaust surj_pair)
    then have "map_of (subscribers h) q = Some m" by simp
    moreover from this have "m \<noteq> []" using assms(1) unfolding hub_ok_def by blast
    ultimately obtain i c where "(i, c) \<in> set (owner_subscribers h q)"
      by (cases m) (auto simp: owner_subscribers_def)
    then have "(q, \<lparr>sub_owner = q, sub_id = i, sub_channel = c\<rparr>) \<in> hub_members h"
      by (simp add: hub_members_def)
    then show False using that by simp
  qed
  ultimately show ?thesis by blast
qed

section \<open>Witnesses\<close>

text \<open>Two streams of alice and one of bob.\<close>

definition three_streams :: hub where
  "three_streams = snd (Subscribe ''bob'' (snd (Subscribe ''alice'' (snd (Subscribe ''alice'' NewHub)))))"

definition alice_stream :: subscription where
  "alice_stream = \<lparr>sub_owner = ''alice'', sub_id = 0, sub_channel = 0\<rparr>"

lemma three_streams_ok: "hub_ok three_streams"
proof -
  have "hub_ok (snd (Subscribe q h))" if "hub_ok h" "hub_room h" for q h
    using Subscribe_law [OF that, of q "fst (Subscribe q h)" "snd (Subscribe q h)"] by simp
  moreover have "hub_room NewHub" "hub_room (snd (Subscribe ''alice'' NewHub))"
    "hub_room (snd (Subscribe ''alice'' (snd (Subscribe ''alice'' NewHub))))" by code_simp+
  ultimately show ?thesis using hub_ok_NewHub by (simp add: three_streams_def)
qed

lemma alice_member: "(''alice'', alice_stream) \<in> hub_members three_streams"
proof -
  have "(0, 0) \<in> set (owner_subscribers three_streams ''alice'')" by code_simp
  then show ?thesis by (simp add: hub_members_def alice_stream_def)
qed

definition sample_traffic :: "(string \<times> uuid + subscription) list" where
  "sample_traffic = [Inl (''alice'', 1), Inl (''bob'', 2), Inr alice_stream, Inl (''alice'', 3)]"

theorem stream_isolation_witness:
  "subseq ([1] @ [3]) (published_to ''alice'' sample_traffic) \<and>
   fst (hub_traffic sample_traffic alice_stream three_streams) = [1]"
proof -
  have run: "fst (hub_traffic sample_traffic alice_stream three_streams) = [1]"
    "hub_inbox (snd (hub_traffic sample_traffic alice_stream three_streams)) alice_stream = [3]"
    "hub_inbox three_streams alice_stream = []" by code_simp+
  have "\<forall>t. Inr t \<in> set sample_traffic \<longrightarrow> t \<in> snd ` hub_members three_streams"
    using alice_member by (auto simp: sample_traffic_def intro: rev_image_eqI)
  then show ?thesis
    using stream_isolation [OF three_streams_ok alice_member _ surjective_pairing, of sample_traffic]
      run by simp
qed

theorem burst_delivery_witness:
  "hub_inbox (fold (\<lambda>(q, i). Publish q i) [(''alice'', 1), (''bob'', 2), (''alice'', 3)] three_streams)
     alice_stream = [1, 3]"
proof -
  have "hub_inbox three_streams alice_stream = []" by code_simp
  then show ?thesis
    using burst_delivery [OF three_streams_ok alice_member, of "[(''alice'', 1), (''bob'', 2), (''alice'', 3)]"]
    by (simp add: subscriberBuffer_def)
qed

theorem unsubscribe_no_leak_witness:
  "subscribers (unsubscribe alice_stream (Publish ''alice'' 9 (snd (Subscribe ''alice'' NewHub)))) = []"
proof -
  have "Subscribe ''alice'' NewHub = (alice_stream, snd (Subscribe ''alice'' NewHub))"
    "hub_room NewHub" "subscribers NewHub = []" by code_simp+
  then show ?thesis
    using unsubscribe_no_leak [OF hub_ok_NewHub, of "''alice''" alice_stream
        "snd (Subscribe ''alice'' NewHub)" "[(''alice'', 9)]"] by simp
qed

end
