(* ===== verification/Api_Errors.thy ===== *)
theory Api_Errors
  imports Go_Errors
begin

text \<open>
  \<open>internal/api/errors.go\<close>: from errors to HTTP responses. An \<open>apiError\<close> is the error
  \<open>ApiError status code message\<close>. What \<open>echo.StatusCode\<close> makes of an error is the
  framework's business and an argument of \<open>errorHandler\<close>.
\<close>

record error_response =
  er_status :: int
  er_code :: string
  er_error :: string

text \<open>\<open>errors.AsType[apiError]\<close>\<close>

fun as_api_error :: "go_error \<Rightarrow> (int \<times> string \<times> string) option"
  and first_api_error :: "go_error list \<Rightarrow> (int \<times> string \<times> string) option" where
  "as_api_error (ApiError st cd msg) = Some (st, cd, msg)"
| "as_api_error (Wrapped m e) = as_api_error e"
| "as_api_error (Joined es) = first_api_error es"
| "as_api_error e = None"
| "first_api_error [] = None"
| "first_api_error (e # es) =
     (case as_api_error e of Some p \<Rightarrow> Some p | None \<Rightarrow> first_api_error es)"

definition errorCatalog :: "(go_error \<times> int \<times> string \<times> string) list" where
  "errorCatalog =
    [(ErrRecordNotFound, 404, ''not_found'', ''resource not found''),
     (ErrUsernameExists, 409, ''username_exists'', ''username already exists''),
     (ErrEmailExists, 409, ''email_exists'', ''email already exists''),
     (ErrUniqueViolation, 409, ''already_exists'', ''resource already exists''),
     (ErrForeignKeyViolation, 409, ''related_not_found'', ''related resource not found''),
     (ErrInsufficientBalance, 422, ''insufficient_balance'', ''insufficient balance''),
     (ErrBalanceLimitExceeded, 422, ''destination_balance_limit_exceeded'',
        ''destination balance exceeds the supported limit''),
     (ErrCurrencyMismatch, 400, ''currency_mismatch'', ''currency mismatch''),
     (ErrDailyLimitExceeded, 422, ''daily_limit_exceeded'', ''daily transfer limit exceeded''),
     (ErrNumericOutOfRange, 422, ''amount_too_large'', ''amount too large''),
     (ErrIdempotencyConflict, 409, ''idempotency_conflict'',
        ''idempotency key conflicts with an existing transfer''),
     (ErrInvalidSession, 401, ''invalid_session'', ''invalid session''),
     (ErrExpiredToken, 401, ''token_expired'', ''token has expired''),
     (ErrInvalidToken, 401, ''token_invalid'', ''token is invalid'')]"

definition internal_error :: "int \<times> string \<times> string" where
  "internal_error = (500, ''internal_error'', ''internal server error'')"

definition lookupError :: "go_error \<Rightarrow> int \<times> string \<times> string" where
  "lookupError err =
     (case find (\<lambda>(e, _). errors_is err e) errorCatalog of
        Some (_, a) \<Rightarrow> a | None \<Rightarrow> internal_error)"

text \<open>\<open>http.StatusText\<close> is an argument: the text belongs to the standard library.\<close>

definition statusError :: "(int \<Rightarrow> string) \<Rightarrow> int \<Rightarrow> int \<times> string \<times> string" where
  "statusError status_text status =
     (status,
      (if status = 400 then ''bad_request'' else if status = 401 then ''unauthorized''
       else if status = 403 then ''forbidden'' else if status = 404 then ''not_found''
       else if status = 405 then ''method_not_allowed'' else if status = 409 then ''conflict''
       else if status = 413 then ''payload_too_large''
       else if status = 415 then ''unsupported_media_type''
       else if status = 429 then ''rate_limited'' else ''request_failed''),
      status_text status)"

text \<open>
  The response written, or \<open>None\<close> when one was committed before. \<open>status_of\<close> stands for
  \<open>echo.StatusCode\<close>, 0 when the error carries no status.
\<close>

definition errorHandler ::
  "(go_error \<Rightarrow> int) \<Rightarrow> (int \<Rightarrow> string) \<Rightarrow> bool \<Rightarrow> go_error \<Rightarrow> error_response option" where
  "errorHandler status_of status_text committed err =
     (let respond = (\<lambda>(st, cd, msg). Some \<lparr>er_status = st, er_code = cd, er_error = msg\<rparr>) in
      if committed then None
      else case as_api_error err of
          Some a \<Rightarrow> respond a
        | None \<Rightarrow>
            let a = lookupError err in
            if fst (snd a) \<noteq> ''internal_error'' then respond a
            else if status_of err \<noteq> 0 then respond (statusError status_text (status_of err))
            else respond a)"

section \<open>Properties\<close>

text \<open>The errors the code makes itself: an API error, or a sentinel of the store or the tokens.\<close>

definition is_sentinel :: "go_error \<Rightarrow> bool" where
  "is_sentinel e \<longleftrightarrow> e \<in> set (map fst errorCatalog)"

lemma find_first:
  assumes "\<And>x. x \<in> set xs \<Longrightarrow> P x \<Longrightarrow> x = y" "y \<in> set xs" "P y"
  shows "find P xs = Some y"
proof (cases "find P xs")
  case None
  then show ?thesis using assms(2,3) by (simp add: find_None_iff)
next
  case (Some x)
  then show ?thesis using assms(1) find_Some_set [OF Some] by simp
qed

lemma catalog_errors:
  "map fst errorCatalog =
     [ErrRecordNotFound, ErrUsernameExists, ErrEmailExists, ErrUniqueViolation, ErrForeignKeyViolation,
      ErrInsufficientBalance, ErrBalanceLimitExceeded, ErrCurrencyMismatch, ErrDailyLimitExceeded,
      ErrNumericOutOfRange, ErrIdempotencyConflict, ErrInvalidSession, ErrExpiredToken, ErrInvalidToken]"
  by (simp only: errorCatalog_def list.map fst_conv)

lemma catalog_distinct: "distinct (map fst errorCatalog)"
  unfolding catalog_errors by simp

lemma lookupError_sentinel:
  assumes "(e, a) \<in> set errorCatalog"
  shows "lookupError e = a"
proof -
  have atom: "errors_is e e' \<longleftrightarrow> e = e'" for e'
    using assms by (auto simp: errorCatalog_def)
  have "find (\<lambda>(e', _). errors_is e e') errorCatalog = Some (e, a)"
    using assms atom catalog_distinct
    by (intro find_first) (auto simp: eq_key_imp_eq_value)
  then show ?thesis by (simp add: lookupError_def)
qed

text \<open>
  Each of the fourteen domain errors reaches the client as its own status, code
  and message, also when it comes wrapped any number of times in context that is meant for
  the log only, and no two of them share a code.
\<close>

theorem sentinel_response:
  assumes "(e, st, cd, msg) \<in> set errorCatalog"
  shows "errorHandler status_of status_text False (foldr Wrapped ctx e) =
      Some \<lparr>er_status = st, er_code = cd, er_error = msg\<rparr> \<and>
    (\<forall>(e', st', cd', msg') \<in> set errorCatalog. cd' = cd \<longrightarrow> e' = e)"
proof -
  have atom: "as_api_error e = None" "\<not> (\<exists>m x. e = Wrapped m x)"
    "cd \<noteq> ''internal_error''" "\<forall>(e', st', cd', msg') \<in> set errorCatalog. cd' = cd \<longrightarrow> e' = e"
    using assms by (auto simp: errorCatalog_def)
  have "as_api_error (foldr Wrapped ctx e) = None" using atom(1) by (induction ctx) auto
  moreover have "errors_is (foldr Wrapped ctx e) t \<longleftrightarrow> errors_is e t" if "is_sentinel t" for t
  proof -
    have "\<forall>m x. t \<noteq> Wrapped m x" using that by (auto simp: is_sentinel_def errorCatalog_def)
    then show ?thesis by (induction ctx) auto
  qed
  then have "find (\<lambda>(t, _). errors_is (foldr Wrapped ctx e) t) errorCatalog =
      find (\<lambda>(t, _). errors_is e t) errorCatalog"
    by (intro find_cong refl) (metis (no_types, lifting) case_prod_beta fst_conv is_sentinel_def
        list.set_map rev_image_eqI)
  then have "lookupError (foldr Wrapped ctx e) = (st, cd, msg)"
    using lookupError_sentinel [OF assms] by (simp add: lookupError_def)
  ultimately show ?thesis using atom(3,4) by (simp add: errorHandler_def)
qed

text \<open>
  C34 (safety). What the database or a panic reports never reaches the client: an error that
  neither is nor wraps an API error or a domain error gets, whatever text it carries, the
  fixed internal error, or just the status the framework assigns to it.
\<close>

theorem internal_detail_hidden:
  assumes "as_api_error err = None" and "\<forall>e. is_sentinel e \<longrightarrow> \<not> errors_is err e"
  shows "errorHandler status_of status_text False err =
    Some (if status_of err = 0
      then \<lparr>er_status = 500, er_code = ''internal_error'', er_error = ''internal server error''\<rparr>
      else \<lparr>er_status = status_of err, er_code = fst (snd (statusError status_text (status_of err))),
            er_error = status_text (status_of err)\<rparr>)"
proof -
  have "find (\<lambda>(e, _). errors_is err e) errorCatalog = None"
    using assms(2) by (auto simp: find_None_iff is_sentinel_def image_iff split_beta)
  then have "lookupError err = internal_error" by (simp add: lookupError_def)
  then show ?thesis
    using assms(1) by (simp add: errorHandler_def internal_error_def statusError_def Let_def)
qed

section \<open>Witnesses\<close>

theorem sentinel_response_witness:
  "errorHandler (\<lambda>_. 0) (\<lambda>_. '''') False (Wrapped ''a'' (Wrapped ''b'' ErrDailyLimitExceeded)) =
     Some \<lparr>er_status = 422, er_code = ''daily_limit_exceeded'', er_error = ''daily transfer limit exceeded''\<rparr>"
  using sentinel_response [of ErrDailyLimitExceeded 422 "''daily_limit_exceeded''"
      "''daily transfer limit exceeded''" "\<lambda>_. 0" "\<lambda>_. ''''" "[''a'', ''b'']"]
  by (simp add: errorCatalog_def)

theorem internal_detail_hidden_witness:
  "errorHandler (\<lambda>_. 0) (\<lambda>_. '''') False (Wrapped ''ctx'' (PgError ''42P01'' ''secret_table'')) =
     Some \<lparr>er_status = 500, er_code = ''internal_error'', er_error = ''internal server error''\<rparr>"
  using internal_detail_hidden [of "Wrapped ''ctx'' (PgError ''42P01'' ''secret_table'')" "\<lambda>_. 0" "\<lambda>_. ''''"]
  by (simp add: is_sentinel_def errorCatalog_def)

end
