(* ===== verification/Config.thy ===== *)
theory Config
  imports Currency Go_Errors "HOL-Library.Multiset"
begin

text \<open>
  \<open>internal/config/config.go\<close>: the configuration, its validation and the decoding of the
  limits. A Go map decoded from JSON is the list of its entries in the order the loop
  happens to visit them, with different keys; \<open>None\<close> is the nil map. \<open>url.Parse\<close> and the
  JSON decoder are arguments. A \<open>time.Duration\<close> is a number of microseconds.
\<close>

record currency_limit =
  MaxPerTransfer :: int
  Daily :: int

type_synonym transfer_limits = "(string \<times> currency_limit) list"
type_synonym opening_limits = "(string \<times> int) list"

record config =
  HTTPAddr :: string
  DBSource :: string
  DBMaxConns :: int
  DBMinConns :: int
  DBMaxConnLifetime :: time
  DBMaxConnIdleTime :: time
  JWTSecret :: string
  AccessTTL :: time
  RefreshTTL :: time
  SMTPHost :: string
  SMTPPort :: int
  SMTPUsername :: string
  SMTPPassword :: string
  SMTPFrom :: string
  SMTPInsecure :: bool
  SMTPSSL :: bool
  SMTPTLSCAFile :: string
  RiverMaxWorkers :: int
  TLSCertFile :: string
  TLSKeyFile :: string
  TrustedProxies :: "string list"
  PublicBaseURL :: string
  SessionCookieSecure :: bool
  TransferLimits :: "transfer_limits option"
  transferLimitsErr :: "go_error option"
  AccountOpeningLimits :: "opening_limits option"
  accountOpeningLimitsErr :: "go_error option"

text \<open>Indexing a map by an absent key, or the nil map, gives the zero value.\<close>

definition transfer_limit :: "config \<Rightarrow> string \<Rightarrow> currency_limit" where
  "transfer_limit c code =
     (case TransferLimits c of
        None \<Rightarrow> \<lparr>MaxPerTransfer = 0, Daily = 0\<rparr>
      | Some m \<Rightarrow> (case map_of m code of Some l \<Rightarrow> l | None \<Rightarrow> \<lparr>MaxPerTransfer = 0, Daily = 0\<rparr>))"

definition opening_limit :: "config \<Rightarrow> string \<Rightarrow> int" where
  "opening_limit c code =
     (case AccountOpeningLimits c of
        None \<Rightarrow> 0
      | Some m \<Rightarrow> (case map_of m code of Some l \<Rightarrow> l | None \<Rightarrow> 0))"

section \<open>URLs\<close>

text \<open>What the code reads of a parsed URL.\<close>

record url =
  url_scheme :: string
  url_host :: string
  url_hostname :: string
  url_has_user :: bool
  url_path :: string
  url_raw_query :: string
  url_fragment :: string

text \<open>\<open>strings.EqualFold\<close> on ASCII strings.\<close>

definition to_lower :: "char \<Rightarrow> char" where
  "to_lower c = (if (65 :: nat) \<le> of_char c \<and> of_char c \<le> (90 :: nat) then char_of (of_char c + 32 :: nat) else c)"

definition equal_fold :: "string \<Rightarrow> string \<Rightarrow> bool" where
  "equal_fold a b \<longleftrightarrow> map to_lower a = map to_lower b"

section \<open>Validation\<close>

definition validate_base_url :: "(string \<Rightarrow> go_error + url) \<Rightarrow> config \<Rightarrow> go_error option" where
  "validate_base_url parse_url c =
     (case parse_url (PublicBaseURL c) of
        Inl err \<Rightarrow> Some (Wrapped ''invalid public-base-url'' err)
      | Inr u \<Rightarrow>
          if \<not> equal_fold (url_scheme u) ''http'' \<and> \<not> equal_fold (url_scheme u) ''https''
            then Some (PlainError ''public-base-url must use an explicit http or https scheme'')
          else if url_host u = '''' \<or> url_hostname u = '''' \<or> url_has_user u \<or>
              url_path u \<noteq> '''' \<or> url_raw_query u \<noteq> '''' \<or> url_fragment u \<noteq> ''''
            then Some (PlainError ''public-base-url must be an origin without credentials, path, query, or fragment'')
          else if equal_fold (url_scheme u) ''https'' \<and> \<not> SessionCookieSecure c
            then Some (PlainError ''session-cookie-secure must be true for an HTTPS public-base-url'')
          else None)"

definition Validate :: "(string \<Rightarrow> go_error + url) \<Rightarrow> config \<Rightarrow> go_error option" where
  "Validate parse_url c =
     (if DBSource c = '''' then Some (PlainError ''db-source is required'')
      else if length (JWTSecret c) < 32
        then Some (PlainError ''jwt-secret must be at least 32 characters'')
      else if AccessTTL c \<le> 0 then Some (PlainError ''access-ttl must be positive'')
      else if RefreshTTL c \<le> 0 then Some (PlainError ''refresh-ttl must be positive'')
      else if SMTPFrom c = '''' then Some (PlainError ''smtp-from is required'')
      else if (TLSCertFile c = '''') \<noteq> (TLSKeyFile c = '''')
        then Some (PlainError ''tls-cert-file and tls-key-file must be set together'')
      else if TLSCertFile c \<noteq> '''' \<and> \<not> SessionCookieSecure c
        then Some (PlainError ''session-cookie-secure must be true when direct TLS is configured'')
      else if PublicBaseURL c \<noteq> '''' \<and> validate_base_url parse_url c \<noteq> None
        then validate_base_url parse_url c
      else case transferLimitsErr c of
          Some e \<Rightarrow> Some (Wrapped ''invalid transfer-limits'' e)
        | None \<Rightarrow>
            (case accountOpeningLimitsErr c of
               Some e \<Rightarrow> Some (Wrapped ''invalid account-opening-limits'' e)
             | None \<Rightarrow> None))"

section \<open>Decoding the limits\<close>

text \<open>
  One JSON decoder over the string: \<open>decode_first\<close> reads the target and returns the rest
  of the input, \<open>decode_next\<close> is what the second \<open>Decode\<close> returns on that rest: the end of
  the input, another value, or a syntax error.
\<close>

datatype json_next = Next_EOF | Next_Value | Next_Error go_error

definition decodeStrictJSON ::
  "(string \<Rightarrow> go_error + ('a \<times> string)) \<Rightarrow> (string \<Rightarrow> json_next) \<Rightarrow> string \<Rightarrow> go_error + 'a" where
  "decodeStrictJSON decode_first decode_next raw =
     (case decode_first raw of
        Inl err \<Rightarrow> Inl err
      | Inr (x, rest) \<Rightarrow>
          (case decode_next rest of
             Next_EOF \<Rightarrow> Inr x
           | Next_Value \<Rightarrow> Inl (PlainError ''multiple JSON values'')
           | Next_Error err \<Rightarrow> Inl err))"

fun check_transfer_limits :: "transfer_limits \<Rightarrow> go_error option" where
  "check_transfer_limits [] = None"
| "check_transfer_limits ((code, l) # ls) =
     (if \<not> IsSupported code then Some (PlainError (''unsupported currency '' @ code))
      else if MaxPerTransfer l < 0
        then Some (PlainError (''max per-transfer limit for '' @ code @ '' must not be negative''))
      else if Daily l < 0
        then Some (PlainError (''daily limit for '' @ code @ '' must not be negative''))
      else if MaxPerTransfer l > MaxSafeMinorUnits
        then Some (PlainError (''max per-transfer limit for '' @ code @ '' exceeds JavaScript safe integer''))
      else if Daily l > MaxSafeMinorUnits
        then Some (PlainError (''daily limit for '' @ code @ '' exceeds JavaScript safe integer''))
      else check_transfer_limits ls)"

fun check_opening_limits :: "opening_limits \<Rightarrow> go_error option" where
  "check_opening_limits [] = None"
| "check_opening_limits ((code, cap) # ls) =
     (if \<not> IsSupported code then Some (PlainError (''unsupported currency '' @ code))
      else if cap < 0 then Some (PlainError (''negative opening balance cap for '' @ code))
      else if cap > MaxSafeMinorUnits
        then Some (PlainError (''opening balance cap for '' @ code @ '' exceeds JavaScript safe integer''))
      else check_opening_limits ls)"

definition is_space :: "char \<Rightarrow> bool" where
  "is_space ch \<longleftrightarrow> of_char ch \<in> {9, 10, 11, 12, 13, 32 :: nat}"

text \<open>\<open>strings.TrimSpace(raw) == ""\<close> for an ASCII string.\<close>

definition blank :: "string \<Rightarrow> bool" where
  "blank raw \<longleftrightarrow> list_all is_space raw"

definition parseTransferLimits ::
  "(string \<Rightarrow> go_error + (transfer_limits option \<times> string)) \<Rightarrow> (string \<Rightarrow> json_next) \<Rightarrow> string
    \<Rightarrow> go_error + transfer_limits option" where
  "parseTransferLimits decode_first decode_next raw =
     (if blank raw then Inr None
      else case decodeStrictJSON decode_first decode_next raw of
          Inl err \<Rightarrow> Inl err
        | Inr None \<Rightarrow> Inl (PlainError ''limits must be a JSON object'')
        | Inr (Some ls) \<Rightarrow>
            (case check_transfer_limits ls of Some e \<Rightarrow> Inl e | None \<Rightarrow> Inr (Some ls)))"

definition parseAccountOpeningLimits ::
  "(string \<Rightarrow> go_error + (opening_limits option \<times> string)) \<Rightarrow> (string \<Rightarrow> json_next) \<Rightarrow> string
    \<Rightarrow> go_error + opening_limits option" where
  "parseAccountOpeningLimits decode_first decode_next raw =
     (if blank raw then Inr None
      else case decodeStrictJSON decode_first decode_next raw of
          Inl err \<Rightarrow> Inl err
        | Inr None \<Rightarrow> Inl (PlainError ''limits must be a JSON object'')
        | Inr (Some ls) \<Rightarrow>
            (case check_opening_limits ls of Some e \<Rightarrow> Inl e | None \<Rightarrow> Inr (Some ls)))"

section \<open>Limits in force\<close>

definition limit_ok :: "string \<times> currency_limit \<Rightarrow> bool" where
  "limit_ok = (\<lambda>(code, l). IsSupported code \<and> 0 \<le> MaxPerTransfer l \<and> MaxPerTransfer l \<le> MaxSafeMinorUnits \<and>
     0 \<le> Daily l \<and> Daily l \<le> MaxSafeMinorUnits)"

definition opening_ok :: "string \<times> int \<Rightarrow> bool" where
  "opening_ok = (\<lambda>(code, cap). IsSupported code \<and> 0 \<le> cap \<and> cap \<le> MaxSafeMinorUnits)"

lemma check_transfer_limits_None: "check_transfer_limits ls = None \<longleftrightarrow> list_all limit_ok ls"
  by (induction ls rule: check_transfer_limits.induct) (auto simp: limit_ok_def)

lemma check_opening_limits_None: "check_opening_limits ls = None \<longleftrightarrow> list_all opening_ok ls"
  by (induction ls rule: check_opening_limits.induct) (auto simp: opening_ok_def)

text \<open>The limits a configuration holds came out of the two parsers.\<close>

definition limits_ok :: "config \<Rightarrow> bool" where
  "limits_ok c \<longleftrightarrow>
     (case TransferLimits c of None \<Rightarrow> True | Some ls \<Rightarrow> list_all limit_ok ls) \<and>
     (case AccountOpeningLimits c of None \<Rightarrow> True | Some ls \<Rightarrow> list_all opening_ok ls)"

lemma transfer_limit_bounds:
  "limits_ok c \<Longrightarrow> 0 \<le> Daily (transfer_limit c code) \<and> Daily (transfer_limit c code) \<le> MaxSafeMinorUnits \<and>
     0 \<le> MaxPerTransfer (transfer_limit c code) \<and> MaxPerTransfer (transfer_limit c code) \<le> MaxSafeMinorUnits"
  by (auto simp: limits_ok_def transfer_limit_def limit_ok_def list_all_iff MaxSafe_numeral
      dest!: map_of_SomeD split: option.splits)

lemma opening_limit_bounds:
  "limits_ok c \<Longrightarrow> 0 \<le> opening_limit c code \<and> opening_limit c code \<le> MaxSafeMinorUnits \<and>
     (\<not> IsSupported code \<longrightarrow> opening_limit c code = 0)"
  by (auto simp: limits_ok_def opening_limit_def opening_ok_def list_all_iff MaxSafe_numeral
      dest!: map_of_SomeD split: option.splits)

section \<open>Properties\<close>

text \<open>A guard with an early return.\<close>

lemma guard_None: "(if b then Some e else r) = None \<longleftrightarrow> \<not> b \<and> r = None"
  by simp

lemma guard_Some: "(if b \<and> x \<noteq> None then x else r) = None \<longleftrightarrow> \<not> (b \<and> x \<noteq> None) \<and> r = None"
  by auto

text \<open>
  Whatever the JSON decoder returns, and in whatever order the map is visited,
  limits that are accepted name supported currencies only and lie between 0 and the
  largest amount JavaScript can represent; limits that break this are refused in every
  order. The currency limits a handler then looks up are within the same bounds.
\<close>

theorem transfer_limits_sound:
  assumes "parseTransferLimits decode_first decode_next raw = Inr r"
    and "TransferLimits c = r" "AccountOpeningLimits c = None"
  shows "(\<forall>ls. r = Some ls \<longrightarrow> list_all limit_ok ls) \<and>
    0 \<le> Daily (transfer_limit c code) \<and> Daily (transfer_limit c code) \<le> MaxSafeMinorUnits \<and>
    0 \<le> MaxPerTransfer (transfer_limit c code) \<and>
    (\<forall>ls ms. mset ls = mset ms \<longrightarrow> (check_transfer_limits ls = None \<longleftrightarrow> check_transfer_limits ms = None))"
proof -
  have r: "r = Some ls \<Longrightarrow> list_all limit_ok ls" for ls
    using assms(1)
    by (auto simp: parseTransferLimits_def check_transfer_limits_None split: if_splits sum.splits option.splits)
  then have "limits_ok c" using assms(2,3) by (cases r) (auto simp: limits_ok_def)
  moreover have "check_transfer_limits ls = None \<longleftrightarrow> check_transfer_limits ms = None"
    if "mset ls = mset ms" for ls ms
    using mset_eq_setD [OF that] by (simp add: check_transfer_limits_None list_all_iff)
  ultimately show ?thesis using r transfer_limit_bounds by blast
qed

text \<open>
  A configuration is accepted exactly when the database source and the sender
  address are given, the signing key has at least 32 characters, both lifetimes are
  positive, the TLS files come together, the limits could be decoded, and a public URL, if
  given, is a bare http or https origin; and the session cookie is Secure whenever the
  server speaks TLS itself or is published under https.
\<close>

theorem Validate_iff:
  "Validate parse_url c = None \<longleftrightarrow>
     DBSource c \<noteq> '''' \<and> 32 \<le> length (JWTSecret c) \<and> 0 < AccessTTL c \<and> 0 < RefreshTTL c \<and>
     SMTPFrom c \<noteq> '''' \<and> (TLSCertFile c = '''') = (TLSKeyFile c = '''') \<and>
     (TLSCertFile c \<noteq> '''' \<longrightarrow> SessionCookieSecure c) \<and>
     (PublicBaseURL c \<noteq> '''' \<longrightarrow>
        (\<exists>u. parse_url (PublicBaseURL c) = Inr u \<and>
           (equal_fold (url_scheme u) ''http'' \<or> equal_fold (url_scheme u) ''https'') \<and>
           url_host u \<noteq> '''' \<and> url_hostname u \<noteq> '''' \<and> \<not> url_has_user u \<and> url_path u = '''' \<and>
           url_raw_query u = '''' \<and> url_fragment u = '''' \<and>
           (equal_fold (url_scheme u) ''https'' \<longrightarrow> SessionCookieSecure c))) \<and>
     transferLimitsErr c = None \<and> accountOpeningLimitsErr c = None"
proof -
  have "validate_base_url parse_url c = None \<longleftrightarrow>
      (\<exists>u. parse_url (PublicBaseURL c) = Inr u \<and>
         (equal_fold (url_scheme u) ''http'' \<or> equal_fold (url_scheme u) ''https'') \<and>
         url_host u \<noteq> '''' \<and> url_hostname u \<noteq> '''' \<and> \<not> url_has_user u \<and> url_path u = '''' \<and>
         url_raw_query u = '''' \<and> url_fragment u = '''' \<and>
         (equal_fold (url_scheme u) ''https'' \<longrightarrow> SessionCookieSecure c))"
    by (auto simp: validate_base_url_def split: sum.splits if_splits)
  moreover have "Validate parse_url c = None \<longleftrightarrow>
     DBSource c \<noteq> '''' \<and> \<not> length (JWTSecret c) < 32 \<and> \<not> AccessTTL c \<le> 0 \<and> \<not> RefreshTTL c \<le> 0 \<and>
     SMTPFrom c \<noteq> '''' \<and> \<not> (TLSCertFile c = '''') \<noteq> (TLSKeyFile c = '''') \<and>
     \<not> (TLSCertFile c \<noteq> '''' \<and> \<not> SessionCookieSecure c) \<and>
     \<not> (PublicBaseURL c \<noteq> '''' \<and> validate_base_url parse_url c \<noteq> None) \<and>
     transferLimitsErr c = None \<and> accountOpeningLimitsErr c = None"
    unfolding Validate_def guard_None guard_Some
    by (cases "transferLimitsErr c"; cases "accountOpeningLimitsErr c") simp_all
  ultimately show ?thesis by (simp add: not_less not_le) blast
qed

section \<open>Witnesses\<close>

definition sample_limits :: transfer_limits where
  "sample_limits = [(''USD'', \<lparr>MaxPerTransfer = 40, Daily = 50\<rparr>)]"

definition sample_config :: config where
  "sample_config = \<lparr>HTTPAddr = '':8080'', DBSource = ''postgres://db'',
     DBMaxConns = 0, DBMinConns = 0, DBMaxConnLifetime = 0, DBMaxConnIdleTime = 0,
     JWTSecret = replicate 32 CHR ''k'', AccessTTL = 900 * second, RefreshTTL = 86400 * second,
     SMTPHost = ''mail'', SMTPPort = 1025, SMTPUsername = '''', SMTPPassword = '''',
     SMTPFrom = ''bank@example.org'', SMTPInsecure = False, SMTPSSL = False, SMTPTLSCAFile = '''',
     RiverMaxWorkers = 10, TLSCertFile = '''', TLSKeyFile = '''', TrustedProxies = [],
     PublicBaseURL = '''', SessionCookieSecure = True, TransferLimits = Some sample_limits,
     transferLimitsErr = None, AccountOpeningLimits = None, accountOpeningLimitsErr = None\<rparr>"

theorem transfer_limits_sound_witness:
  "Daily (transfer_limit sample_config ''USD'') = 50 \<and>
   Daily (transfer_limit sample_config ''USD'') \<le> MaxSafeMinorUnits"
proof -
  let ?first = "\<lambda>_. Inr (Some sample_limits, '''')"
  have "parseTransferLimits ?first (\<lambda>_. Next_EOF) ''{}'' = Inr (Some sample_limits)"
    "Daily (transfer_limit sample_config ''USD'') = 50"
    "TransferLimits sample_config = Some sample_limits" "AccountOpeningLimits sample_config = None"
    by code_simp+
  then show ?thesis
    using transfer_limits_sound [of ?first "\<lambda>_. Next_EOF" "''{}''" "Some sample_limits" sample_config "''USD''"]
    by simp
qed

theorem Validate_iff_witness:
  "Validate (\<lambda>_. Inl ErrNoRows) sample_config = None \<and>
   Validate (\<lambda>_. Inl ErrNoRows) (sample_config\<lparr>AccessTTL := 0\<rparr>) \<noteq> None"
proof -
  have "DBSource sample_config \<noteq> ''''" "SMTPFrom sample_config \<noteq> ''''"
    "0 < AccessTTL sample_config" "0 < RefreshTTL sample_config"
    "TLSCertFile sample_config = ''''" "TLSKeyFile sample_config = ''''"
    "PublicBaseURL sample_config = ''''" "length (JWTSecret sample_config) = 32"
    "transferLimitsErr sample_config = None" "accountOpeningLimitsErr sample_config = None" by code_simp+
  then show ?thesis
    using Validate_iff [of "\<lambda>_. Inl ErrNoRows" sample_config]
      Validate_iff [of "\<lambda>_. Inl ErrNoRows" "sample_config\<lparr>AccessTTL := 0\<rparr>"] by simp
qed

end
