(* ===== verification/Token.thy ===== *)
theory Token
  imports Go_Errors
begin

text \<open>
  \<open>internal/token\<close>: the claims of access and refresh tokens and the maker that signs and
  verifies them. The JWT library is an argument: \<open>sign key claims\<close> is the signed HS256
  token, \<open>decode key token\<close> the claims of a well-formed HS256 token whose signature the key
  verifies, \<open>numeric_date\<close> the precision in which it writes instants. \<open>jwt_library\<close> states what
  the code relies on.
\<close>

definition Access :: string where "Access = ''access''"
definition Refresh :: string where "Refresh = ''refresh''"

text \<open>The fields \<open>pl_jti\<close> to \<open>pl_not_before\<close> are the registered claims.\<close>

record payload =
  pl_id :: uuid
  pl_username :: string
  pl_role :: string
  pl_token_type :: string
  pl_nonce :: string
  pl_jti :: string
  pl_subject :: string
  pl_issued_at :: "time option"
  pl_expires_at :: "time option"
  pl_not_before :: "time option"

text \<open>\<open>Payload.Validate\<close>; the expected type is the one the receiver of the claims was made with.\<close>

definition validate_payload :: "string \<Rightarrow> payload \<Rightarrow> go_error option" where
  "validate_payload expected p =
     (if expected \<noteq> '''' \<and> pl_token_type p \<noteq> expected then Some ErrInvalidToken
      else if pl_token_type p \<noteq> Access \<and> pl_token_type p \<noteq> Refresh then Some ErrInvalidToken
      else None)"

record jwt_lib =
  sign :: "string \<Rightarrow> payload \<Rightarrow> go_error + string"
  decode :: "string \<Rightarrow> string \<Rightarrow> payload option"
  numeric_date :: "time \<Rightarrow> time"

text \<open>
  What the maker takes from outside when it makes a token: the clock, the nonce
  \<open>uuid.New()\<close>, and, unless an identifier is given, \<open>uuid.NewV7()\<close>.
\<close>

record mint =
  mint_now :: time
  mint_nonce :: uuid
  mint_id :: uuid

definition NewPayloadWithID ::
  "jwt_lib \<Rightarrow> mint \<Rightarrow> uuid \<Rightarrow> string \<Rightarrow> string \<Rightarrow> string \<Rightarrow> time \<Rightarrow> payload" where
  "NewPayloadWithID lib m i username role tokenType dur =
     \<lparr>pl_id = i, pl_username = username, pl_role = role, pl_token_type = tokenType,
      pl_nonce = uuid_string (mint_nonce m), pl_jti = uuid_string i, pl_subject = username,
      pl_issued_at = Some (numeric_date lib (mint_now m)),
      pl_expires_at = Some (numeric_date lib (mint_now m + dur)), pl_not_before = None\<rparr>"

definition NewPayload ::
  "jwt_lib \<Rightarrow> mint \<Rightarrow> string \<Rightarrow> string \<Rightarrow> string \<Rightarrow> time \<Rightarrow> payload" where
  "NewPayload lib m username role tokenType dur =
     NewPayloadWithID lib m (mint_id m) username role tokenType dur"

section \<open>The maker\<close>

definition NewJWTMaker :: "string \<Rightarrow> go_error + string" where
  "NewJWTMaker secretKey =
     (if length secretKey < 32 then Inl (PlainError ''secret key must be at least 32 characters'')
      else Inr secretKey)"

definition signPayload :: "jwt_lib \<Rightarrow> string \<Rightarrow> payload \<Rightarrow> go_error + (string \<times> payload)" where
  "signPayload lib key p = map_sum id (\<lambda>signed. (signed, p)) (sign lib key p)"

definition CreateToken ::
  "jwt_lib \<Rightarrow> string \<Rightarrow> mint \<Rightarrow> string \<Rightarrow> string \<Rightarrow> string \<Rightarrow> time \<Rightarrow> go_error + (string \<times> payload)" where
  "CreateToken lib key m username role tokenType dur =
     signPayload lib key (NewPayload lib m username role tokenType dur)"

definition CreateTokenWithID ::
  "jwt_lib \<Rightarrow> string \<Rightarrow> mint \<Rightarrow> uuid \<Rightarrow> string \<Rightarrow> string \<Rightarrow> string \<Rightarrow> time
    \<Rightarrow> go_error + (string \<times> payload)" where
  "CreateTokenWithID lib key m i username role tokenType dur =
     signPayload lib key (NewPayloadWithID lib m i username role tokenType dur)"

text \<open>
  \<open>VerifyToken\<close>: the library verifies the signature, then the times (expired at or after
  \<open>exp\<close>, not yet valid before \<open>nbf\<close>) and \<open>Validate\<close>, and joins all it finds; an expiry among
  them is reported as such, anything else as an invalid token.
\<close>

definition token_expired :: "time \<Rightarrow> payload \<Rightarrow> bool" where
  "token_expired t p \<longleftrightarrow> (case pl_expires_at p of Some e \<Rightarrow> \<not> t < e | None \<Rightarrow> False)"

definition not_yet_valid :: "time \<Rightarrow> payload \<Rightarrow> bool" where
  "not_yet_valid t p \<longleftrightarrow> (case pl_not_before p of Some b \<Rightarrow> t < b | None \<Rightarrow> False)"

definition VerifyToken ::
  "jwt_lib \<Rightarrow> string \<Rightarrow> time \<Rightarrow> string \<Rightarrow> string \<Rightarrow> go_error + payload" where
  "VerifyToken lib key t tok expectedType =
     (case decode lib key tok of
        None \<Rightarrow> Inl ErrInvalidToken
      | Some p \<Rightarrow>
          if token_expired t p then Inl ErrExpiredToken
          else if not_yet_valid t p \<or> validate_payload expectedType p \<noteq> None then Inl ErrInvalidToken
          else Inr p)"

section \<open>Properties\<close>

text \<open>
  What is documented of the library: a signed token decodes, under the same key, to the
  claims that were signed; a decoded token was signed with that key; dates are cut to a
  whole second.
\<close>

definition jwt_library :: "jwt_lib \<Rightarrow> bool" where
  "jwt_library lib \<longleftrightarrow>
     (\<forall>key p tok. sign lib key p = Inr tok \<longleftrightarrow> decode lib key tok = Some p) \<and>
     (\<forall>t. numeric_date lib t \<le> t \<and> t < numeric_date lib t + second)"

text \<open>
  C33 (roundtrip). A token that was made verifies, as the claims it was made of, when it is
  presented as what it is before it expires; from its expiry on, which is at the end of
  its lifetime up to the second, it is reported as expired, whatever it is presented as;
  and before it is refused as a token of the other type.
\<close>

theorem token_roundtrip:
  assumes lib: "jwt_library lib"
    and made: "CreateTokenWithID lib key m i username role tokenType dur = Inr (tok, p)"
    and ty: "tokenType \<in> {Access, Refresh}"
  defines "expiry \<equiv> numeric_date lib (mint_now m + dur)"
  shows "(t < expiry \<longrightarrow> VerifyToken lib key t tok tokenType = Inr p) \<and>
    (expiry \<le> t \<longrightarrow> VerifyToken lib key t tok other = Inl ErrExpiredToken) \<and>
    (t < expiry \<and> other \<in> {Access, Refresh} \<and> other \<noteq> tokenType \<longrightarrow>
       VerifyToken lib key t tok other = Inl ErrInvalidToken) \<and>
    mint_now m + dur - second < expiry \<and> expiry \<le> mint_now m + dur \<and>
    pl_id p = i \<and> pl_username p = username \<and> pl_role p = role \<and> pl_expires_at p = Some expiry"
proof -
  have p: "p = NewPayloadWithID lib m i username role tokenType dur"
    and "sign lib key p = Inr tok"
    using made by (auto simp: CreateTokenWithID_def signPayload_def map_sum_def split: sum.splits)
  then have "decode lib key tok = Some p" using lib by (simp add: jwt_library_def)
  moreover have "expiry \<le> mint_now m + dur" "mint_now m + dur < expiry + second"
    using lib by (simp_all add: jwt_library_def expiry_def)
  ultimately show ?thesis
    using ty
    by (auto simp: VerifyToken_def token_expired_def not_yet_valid_def validate_payload_def p
        NewPayloadWithID_def expiry_def Access_def Refresh_def)
qed

text \<open>
  Nobody without the key gets in: whatever string is presented, if it is accepted
  as a token of some type then it was signed with this key, with claims of that type, and
  has not expired.
\<close>

theorem verified_was_signed:
  assumes "jwt_library lib" and "VerifyToken lib key t tok expectedType = Inr p" and "expectedType \<noteq> ''''"
  shows "sign lib key p = Inr tok \<and> pl_token_type p = expectedType \<and>
    (expectedType = Access \<or> expectedType = Refresh) \<and> (\<forall>e. pl_expires_at p = Some e \<longrightarrow> t < e)"
  using assms
  by (auto simp: VerifyToken_def jwt_library_def validate_payload_def token_expired_def
      split: option.splits if_splits)

section \<open>Witnesses\<close>

text \<open>
  A library given by the table of the tokens it can sign: (claims, token) pairs, one token
  for each claims.
\<close>

definition table_lib :: "(payload \<times> string) list \<Rightarrow> jwt_lib" where
  "table_lib tbl = \<lparr>
     sign = (\<lambda>key p. case map_of tbl p of Some tok \<Rightarrow> Inr (key @ tok) | None \<Rightarrow> Inl (PlainError ''unsupported'')),
     decode = (\<lambda>key tok. map_option fst (find (\<lambda>(p, t). key @ t = tok) tbl)),
     numeric_date = (\<lambda>t. (t div second) * second)\<rparr>"

lemma table_lib_ok:
  assumes "distinct (map fst tbl)" "distinct (map snd tbl)"
  shows "jwt_library (table_lib tbl)"
proof -
  have "sign (table_lib tbl) key p = Inr tok \<longleftrightarrow> (\<exists>t. (p, t) \<in> set tbl \<and> key @ t = tok)" for key p tok
    using map_of_eq_Some_iff [OF assms(1), symmetric]
    by (cases "map_of tbl p") (auto simp: table_lib_def)
  moreover have "decode (table_lib tbl) key tok = Some p \<longleftrightarrow> (\<exists>t. (p, t) \<in> set tbl \<and> key @ t = tok)"
    for key p tok
  proof -
    have "find (\<lambda>(p, t). key @ t = tok) tbl = Some (p, t) \<longleftrightarrow> (p, t) \<in> set tbl \<and> key @ t = tok" for t
    proof
      assume a: "(p, t) \<in> set tbl \<and> key @ t = tok"
      then obtain x where x: "find (\<lambda>(p, t). key @ t = tok) tbl = Some x"
        by (metis (mono_tags, lifting) case_prodI find_None_set not_None_eq)
      then have "x \<in> set tbl" "snd x = t" using find_Some_set [OF x] a by auto
      then show "find (\<lambda>(p, t). key @ t = tok) tbl = Some (p, t)"
        using x a distinct_key_eq [OF assms(2), of x "(p, t)"] by simp
    qed (auto dest: find_Some_set)
    then show ?thesis by (auto simp: table_lib_def)
  qed
  moreover have "(t div second) * second \<le> t \<and> t < (t div second) * second + second" for t :: int
    by (simp add: second_def) linarith
  ultimately show ?thesis by (simp add: jwt_library_def) (simp add: table_lib_def)
qed

definition sample_key :: string where
  "sample_key = replicate 32 CHR ''k''"

definition sample_mint :: mint where
  "sample_mint = \<lparr>mint_now = 10 * second + 7, mint_nonce = 77, mint_id = 21\<rparr>"

definition sample_claims :: "string \<Rightarrow> payload" where
  "sample_claims ty = \<lparr>pl_id = 20, pl_username = ''alice'', pl_role = ''depositor'', pl_token_type = ty,
     pl_nonce = uuid_string 77, pl_jti = uuid_string 20, pl_subject = ''alice'',
     pl_issued_at = Some (10 * second), pl_expires_at = Some (910 * second), pl_not_before = None\<rparr>"

definition sample_lib :: jwt_lib where
  "sample_lib = table_lib [(sample_claims Access, ''.a''), (sample_claims Refresh, ''.r'')]"

lemma sample_lib_ok: "jwt_library sample_lib"
proof -
  have "sample_claims Access \<noteq> sample_claims Refresh" by (simp add: sample_claims_def Access_def Refresh_def)
  then show ?thesis by (simp add: sample_lib_def table_lib_ok)
qed

lemma sample_token:
  "CreateTokenWithID sample_lib sample_key sample_mint 20 ''alice'' ''depositor'' Refresh (900 * second) =
     Inr (sample_key @ ''.r'', sample_claims Refresh)"
  by code_simp

theorem token_roundtrip_witness:
  "VerifyToken sample_lib sample_key (909 * second) (sample_key @ ''.r'') Refresh = Inr (sample_claims Refresh) \<and>
   VerifyToken sample_lib sample_key (909 * second) (sample_key @ ''.r'') Access = Inl ErrInvalidToken \<and>
   VerifyToken sample_lib sample_key (910 * second) (sample_key @ ''.r'') Refresh = Inl ErrExpiredToken"
proof -
  have d: "numeric_date sample_lib (mint_now sample_mint + 900 * second) = 910 * second" by code_simp
  have lt: "909 * second < 910 * second" "Access \<noteq> Refresh" by (simp_all add: second_def Access_def Refresh_def)
  show ?thesis
    using token_roundtrip [OF sample_lib_ok sample_token, of "909 * second" Access, unfolded d]
      token_roundtrip [OF sample_lib_ok sample_token, of "910 * second" Refresh, unfolded d] lt by simp
qed

theorem verified_was_signed_witness:
  "sign sample_lib sample_key (sample_claims Refresh) = Inr (sample_key @ ''.r'')"
proof -
  have "VerifyToken sample_lib sample_key 0 (sample_key @ ''.r'') Refresh = Inr (sample_claims Refresh)"
    "Refresh \<noteq> ''''" by code_simp+
  then show ?thesis using verified_was_signed [OF sample_lib_ok] by simp
qed

end
