(* ===== verification/Api_Core.thy ===== *)
theory Api_Core
  imports Query_Facts Config Token Sample
begin

text \<open>
  What the HTTP handlers of \<open>internal/api\<close> share. A handler is an operation on the database
  connection that returns an error, which \<open>errorHandler\<close> turns into a response, or a status
  and a body. What the framework has read from the request is an argument: \<open>bound\<close> is the
  decoded JSON body (\<open>None\<close> when it could not be decoded), \<open>valid\<close> the validator applied to
  it, path and query parameters are strings or what \<open>QueryParamOr\<close> returned for them,
  \<open>auth\<close> the claims the authentication middleware has put in the context (\<open>None\<close> without).
\<close>

type_synonym 'b response = "int \<times> 'b"

section \<open>\<open>validator.go\<close>\<close>

text \<open>\<open>customValidator.Validate\<close>; \<open>valid\<close> is the validator applied to the struct's tags.\<close>

definition cv_Validate :: "('r \<Rightarrow> bool) \<Rightarrow> 'r \<Rightarrow> go_error option" where
  "cv_Validate valid i =
     (if valid i then None else Some (ApiError 400 ''invalid_request_payload'' ''invalid request payload''))"

definition bindValidate :: "'r option \<Rightarrow> ('r \<Rightarrow> bool) \<Rightarrow> go_error + 'r" where
  "bindValidate bound valid =
     (case bound of
        None \<Rightarrow> Inl (ApiError 400 ''invalid_request_body'' ''invalid request body'')
      | Some req \<Rightarrow> (case cv_Validate valid req of Some err \<Rightarrow> Inl err | None \<Rightarrow> Inr req))"

lemma bindValidate_Inr: "bindValidate bound valid = Inr req \<longleftrightarrow> bound = Some req \<and> valid req"
  by (auto simp: bindValidate_def cv_Validate_def split: option.splits if_splits)

section \<open>\<open>middleware.go\<close>: who is calling\<close>

definition ErrUnauthorized :: go_error where
  "ErrUnauthorized = HTTPError 401"

definition authPayload :: "payload option \<Rightarrow> go_error + payload" where
  "authPayload auth = (case auth of None \<Rightarrow> Inl ErrUnauthorized | Some p \<Rightarrow> Inr p)"

definition authorizeOwner :: "payload \<Rightarrow> string \<Rightarrow> go_error + unit" where
  "authorizeOwner p owner =
     (if pl_username p \<noteq> owner
      then Inl (ApiError 403 ''forbidden'' ''you do not have access to this resource'')
      else Inr ())"

lemma authPayload_Inr [simp]: "authPayload auth = Inr p \<longleftrightarrow> auth = Some p"
  by (simp add: authPayload_def split: option.split)

lemma authorizeOwner_Inr [simp]: "authorizeOwner p owner = Inr u \<longleftrightarrow> pl_username p = owner"
  by (simp add: authorizeOwner_def)

lemma lift_res_Inr [simp]: "lift_res r s = (Inr x, s') \<longleftrightarrow> r = Inr x \<and> s' = s"
  by (auto simp: lift_res_def)

section \<open>Pages\<close>

text \<open>
  The page arithmetic of \<open>listAccounts\<close> and \<open>listTransfers\<close>: the size is clamped to 1..100 with
  the handler's default, the offset is computed in 64 bits from 32-bit parameters.
\<close>

definition page_window :: "int \<Rightarrow> int \<Rightarrow> int \<Rightarrow> int \<times> int" where
  "page_window dflt page sz =
     (let page = max page 1;
          sz = (if sz < 1 then dflt else sz);
          sz = min sz 100
      in (sz, wrap64 (wrap32 (page - 1) * sz)))"

definition max_int32 :: int where
  "max_int32 = 2147483647"

lemma page_window_exact:
  assumes "- 2147483648 \<le> page" "page \<le> max_int32" "1 \<le> dflt" "dflt \<le> 100"
  shows "page_window dflt page sz =
      (min (if sz < 1 then dflt else sz) 100,
       (max page 1 - 1) * min (if sz < 1 then dflt else sz) 100)"
    and "1 \<le> min (if sz < 1 then dflt else sz) (100 :: int)"
proof -
  let ?sz = "min (if sz < 1 then dflt else sz) 100 :: int" and ?p = "max page 1 - 1"
  have sz: "1 \<le> ?sz" "?sz \<le> 100" using assms by auto
  have p: "0 \<le> ?p" "?p < 2147483647" using assms by (auto simp: max_int32_def)
  then have w: "wrap32 ?p = ?p" by (simp add: wrap32_def)
  have "0 \<le> ?p * ?sz" using p sz by simp
  moreover have "?p * ?sz \<le> 2147483647 * 100" using p sz by (intro mult_mono) auto
  ultimately have "wrap64 (?p * ?sz) = ?p * ?sz" by (intro wrap64_id) auto
  then show "page_window dflt page sz = (?sz, ?p * ?sz)" unfolding page_window_def Let_def w by simp
  show "1 \<le> ?sz" by (rule sz(1))
qed

text \<open>What \<open>LIMIT\<close> and \<open>OFFSET\<close> select from a list.\<close>

definition page_slice :: "int \<Rightarrow> int \<Rightarrow> 'r list \<Rightarrow> 'r list" where
  "page_slice sz offset rows = take (nat sz) (drop (nat offset) rows)"

lemma query_page_rows:
  "0 \<le> off \<Longrightarrow> 0 \<le> lim \<Longrightarrow> query_page lim off f c d = Inr (page_slice lim off (f d), d)"
  by (simp add: query_page_def page_of_def page_slice_def)

end
