(* ===== verification/Account_Tx.thy ===== *)
theory Account_Tx
  imports Query_Facts Sample
begin

text \<open>
  \<open>internal/db/account_tx.go\<close>: opening an account, and its properties. An account that
  opens with money gets a matching opening entry, so the books stay balanced.
\<close>

definition account_body :: "pg_env \<Rightarrow> string \<Rightarrow> int \<Rightarrow> string \<Rightarrow> account pg_op" where
  "account_body env owner bal cur =
     andthen (map_error ClassifyError (CreateAccount env owner bal cur)) (\<lambda>a.
     if bal \<noteq> 0
     then andthen (map_error ClassifyError (CreateEntry env (acc_id a) bal)) (\<lambda>_. ret a)
     else ret a)"

definition CreateAccountTx :: "pg_env \<Rightarrow> string \<Rightarrow> int \<Rightarrow> string \<Rightarrow> account pg_op" where
  "CreateAccountTx env owner bal cur = execTx env (account_body env owner bal cur)"

section \<open>What opening an account does\<close>

definition account_opened :: "string \<Rightarrow> int \<Rightarrow> string \<Rightarrow> db \<Rightarrow> account \<Rightarrow> db \<Rightarrow> bool" where
  "account_opened owner bal cur d a d' \<longleftrightarrow>
     0 \<le> bal \<and> bal \<le> MaxSafeMinorUnits \<and> acc_id a \<notin> acc_id ` set (accounts d) \<and>
     acc_owner a = owner \<and> acc_balance a = bal \<and> acc_currency a = cur \<and>
     (\<exists>es. (if bal = 0 then es = []
            else \<exists>e. es = [e] \<and> ent_account_id e = acc_id a \<and> ent_amount e = bal) \<and>
        d' = d\<lparr>accounts := accounts d @ [a], entries := entries d @ es\<rparr>)"

lemma CreateAccount_Inr:
  assumes "CreateAccount env owner bal cur s = (Inr a, s')"
  shows "account_opened owner 0 cur (tables s) (a\<lparr>acc_balance := 0\<rparr>)
      ((tables s)\<lparr>accounts := accounts (tables s) @ [a\<lparr>acc_balance := 0\<rparr>]\<rparr>) \<and>
    0 \<le> bal \<and> bal \<le> MaxSafeMinorUnits \<and> acc_balance a = bal \<and> pending s' = pending s \<and>
    tables s' = (tables s)\<lparr>accounts := accounts (tables s) @ [a]\<rparr>"
  using assms unfolding CreateAccount_def
  by (rule run_sql_InrE)
    (auto simp: createAccount_sql_def Let_def account_opened_def MaxSafe_numeral split: if_splits)

lemma CreateEntry_Inr:
  assumes "CreateEntry env i amt s = (Inr e, s')"
  shows "ent_account_id e = i \<and> ent_amount e = amt \<and> pending s' = pending s \<and>
    tables s' = (tables s)\<lparr>entries := entries (tables s) @ [e]\<rparr>"
  using assms unfolding CreateEntry_def by (rule run_sql_InrE) (auto dest!: createEntry_Inr)

lemma account_body_Inr:
  assumes "account_body env owner bal cur s = (Inr a, s')"
  shows "account_opened owner bal cur (tables s) a (tables s') \<and> pending s' = pending s"
proof -
  show ?thesis
  proof (cases "bal = 0")
    case True
    then have "CreateAccount env owner bal cur s = (Inr a, s')"
      using assms by (auto simp: account_body_def andthen_Inr ret_def)
    from CreateAccount_Inr [OF this] show ?thesis using True by (auto simp: account_opened_def)
  next
    case False
    with assms obtain s1 e where c: "CreateAccount env owner bal cur s = (Inr a, s1)"
      and e: "CreateEntry env (acc_id a) bal s1 = (Inr e, s')"
      by (auto simp: account_body_def andthen_Inr ret_def)
    show ?thesis
      using CreateAccount_Inr [OF c] CreateEntry_Inr [OF e] False by (auto simp: account_opened_def)
  qed
qed

lemma account_body_keeps_schema: "keeps (on_tables schema_ok) (account_body env owner bal cur)"
  unfolding account_body_def by (intro keeps_intros sql_keeps)

lemma opened_ledger:
  assumes "account_opened owner bal cur d a d'" "schema_ok d" "ledger_ok d"
  shows "ledger_ok d'"
proof -
  have "\<forall>e \<in> set (entries d). ent_account_id e \<in> acc_id ` set (accounts d)"
    using assms(2) by (simp add: schema_ok_def entries_ok_def)
  then have none: "filter (\<lambda>e. ent_account_id e = acc_id a) (entries d) = []"
    using assms(1) unfolding account_opened_def filter_empty_conv by metis
  show ?thesis
    using assms(1,3) none
    by (fastforce simp: account_opened_def ledger_ok_def entry_sum_def split: if_splits)
qed

interpretation account_books: tx_body "account_body env owner bal cur" books_ok
  for env owner bal cur
proof
  show "books_ok (tables s')"
    if "account_body env owner bal cur s = (Inr a, s')" "books_ok (tables s)" for s a s'
    using account_body_Inr [OF that(1)] keepsD [OF account_body_keeps_schema _ that(1)] that(2)
      opened_ledger
    by (auto simp: books_ok_def on_tables_def account_opened_def)
qed simp

text \<open>
  Opening an account keeps the books in order, whatever the arguments and
  however the database fails: every balance is still the sum of the entries.
\<close>

theorem create_account_keeps_books:
  assumes "books_ok (tables s)" and "CreateAccountTx env owner bal cur s = (r, s')"
  shows "books_ok (tables s')"
  using keepsD [OF account_books.execTx_keeps _ assms(2) [unfolded CreateAccountTx_def]] assms(1)
  by (simp add: on_tables_def)

section \<open>When an account is opened\<close>

text \<open>The decision of the code and the constraints, in the order they are checked.\<close>

definition open_verdict :: "string \<Rightarrow> int \<Rightarrow> string \<Rightarrow> db \<Rightarrow> go_error option" where
  "open_verdict owner bal cur d =
     (if bal > MaxSafeMinorUnits then Some ErrBalanceLimitExceeded
      else if bal < 0 then Some (PgError ''23514'' ''accounts_balance_nonnegative'')
      else if (owner, cur) \<in> (\<lambda>a. (acc_owner a, acc_currency a)) ` set (accounts d)
        then Some ErrUniqueViolation
      else if owner \<notin> usr_username ` set (users d) then Some ErrForeignKeyViolation
      else None)"

lemma account_body_healthy:
  assumes h: "healthy env" and ok: "schema_ok (tables s)"
    and fresh: "uuid_at env (tick s) \<notin> acc_id ` set (accounts (tables s))"
      "uuid_at env (Suc (tick s)) \<notin> ent_id ` set (entries (tables s))"
  shows "\<exists>s' a. account_body env owner bal cur s =
    (case open_verdict owner bal cur (tables s) of Some e \<Rightarrow> (Inl e, s') | None \<Rightarrow> (Inr a, s'))"
  using h fresh
  by (auto simp: account_body_def open_verdict_def andthen_def map_error_def CreateAccount_def
      createAccount_sql_def CreateEntry_def createEntry_sql_def Let_def ret_def MaxSafe_numeral)

text \<open>
  On a working database an account is opened exactly when the balance is
  within 0 and the limit, the owner exists and has no account in that currency yet; the
  account carries what was asked for, an opening entry is written exactly when the balance
  is not zero, and nothing else changes. Otherwise the first violated condition is
  reported, as the store's error for it, and the tables are unchanged.
\<close>

theorem create_account_decides:
  assumes h: "healthy env" and ok: "schema_ok (tables s)"
    and fresh: "uuid_at env (Suc (tick s)) \<notin> acc_id ` set (accounts (tables s))"
      "uuid_at env (Suc (Suc (tick s))) \<notin> ent_id ` set (entries (tables s))"
    and run: "CreateAccountTx env owner bal cur s = (r, s')"
  shows "case open_verdict owner bal cur (tables s) of
      Some e \<Rightarrow> r = Inl e \<and> tables s' = tables s
    | None \<Rightarrow> \<exists>a. r = Inr a \<and> account_opened owner bal cur (tables s) a (tables s')"
proof -
  have "\<exists>s1 a. account_body env owner bal cur (begin_tx env s) =
    (case open_verdict owner bal cur (tables s) of Some e \<Rightarrow> (Inl e, s1) | None \<Rightarrow> (Inr a, s1))"
    using account_body_healthy [OF h, of "begin_tx env s" owner bal cur] ok fresh by simp
  then obtain s1 a where b: "account_body env owner bal cur (begin_tx env s) =
    (case open_verdict owner bal cur (tables s) of Some e \<Rightarrow> (Inl e, s1) | None \<Rightarrow> (Inr a, s1))"
    by blast
  show ?thesis
  proof (cases "open_verdict owner bal cur (tables s)")
    case None
    then have "account_body env owner bal cur (begin_tx env s) = (Inr a, s1)" using b by simp
    moreover from account_body_Inr [OF this]
    have "account_opened owner bal cur (tables s) a (publish_pending (step_tick s1))"
      by (simp add: publish_pending_def account_opened_def)
    ultimately show ?thesis
      using None run by (auto simp: CreateAccountTx_def healthy_execTx [OF h])
  next
    case (Some e)
    then show ?thesis using b run by (auto simp: CreateAccountTx_def healthy_execTx [OF h])
  qed
qed

section \<open>Witnesses\<close>

abbreviation open_eur :: "account pg_op" where
  "open_eur \<equiv> CreateAccountTx sample_env ''alice'' 250 ''EUR''"

theorem create_account_keeps_books_witness:
  "books_ok (tables (after open_eur start)) \<and>
   map acc_balance (accounts (tables (after open_eur start))) = [100, 0, 250]"
proof -
  have "books_ok sample_db"
    "map acc_balance (accounts (tables (after open_eur start))) = [100, 0, 250]" by code_simp+
  then show ?thesis
    using create_account_keeps_books [of start sample_env, OF _ run_eq [of open_eur]] by simp
qed

theorem create_account_decides_witness:
  "(\<exists>a. result open_eur start = Inr a \<and>
      account_opened ''alice'' 250 ''EUR'' sample_db a (tables (after open_eur start))) \<and>
   result (CreateAccountTx sample_env ''alice'' 0 ''USD'') start = Inl ErrUniqueViolation"
proof -
  have "healthy sample_env" by (simp add: healthy_def sample_env_def)
  moreover have "uuid_at sample_env 1 \<notin> acc_id ` set (accounts sample_db)"
    "uuid_at sample_env 2 \<notin> ent_id ` set (entries sample_db)"
    "open_verdict ''alice'' 250 ''EUR'' sample_db = None"
    "open_verdict ''alice'' 0 ''USD'' sample_db = Some ErrUniqueViolation" by code_simp+
  ultimately show ?thesis
    using create_account_decides [of sample_env start, OF _ _ _ _ run_eq [of open_eur]]
      create_account_decides [of sample_env start, OF _ _ _ _
        run_eq [of "CreateAccountTx sample_env ''alice'' 0 ''USD''"]] sample_schema
    by (auto simp: numeral_2_eq_2)
qed

end
