(* ===== verification/Api_Account.thy ===== *)
theory Api_Account
  imports Api_Core Account_Tx
begin

text \<open>
  \<open>internal/api/account.go\<close>: opening, reading and listing accounts.
\<close>

record create_account_request =
  car_currency :: string
  car_balance :: int

definition createAccount ::
  "pg_env \<Rightarrow> config \<Rightarrow> create_account_request option \<Rightarrow> (create_account_request \<Rightarrow> bool) \<Rightarrow> payload option
    \<Rightarrow> account response pg_op" where
  "createAccount env cfg bound valid auth =
     andthen (lift_res (bindValidate bound valid)) (\<lambda>req.
     if \<not> IsSupported (car_currency req)
       then raise (ApiError 400 ''unsupported_currency'' ''unsupported currency'')
     else if car_balance req > MaxSafeMinorUnits
       then raise (ApiError 422 ''opening_balance_limit_exceeded''
                     ''opening balance exceeds the supported limit'')
     else if car_balance req > opening_limit cfg (car_currency req)
       then raise (ApiError 422 ''opening_balance_limit_exceeded''
                     ''opening balance exceeds the configured limit'')
     else
       andthen (lift_res (authPayload auth)) (\<lambda>p.
       andthen (map_error ClassifyError
          (CreateAccountTx env (pl_username p) (car_balance req) (car_currency req))) (\<lambda>account.
       ret (201, account))))"

definition getAccount ::
  "(string \<Rightarrow> go_error + uuid) \<Rightarrow> pg_env \<Rightarrow> string \<Rightarrow> payload option \<Rightarrow> account response pg_op" where
  "getAccount parse_uuid env param auth =
     (case parse_uuid param of
        Inl _ \<Rightarrow> raise (ApiError 400 ''invalid_account_id'' ''invalid account id'')
      | Inr i \<Rightarrow>
          andthen (map_error ClassifyError (GetAccount env i)) (\<lambda>account.
          andthen (lift_res (authPayload auth)) (\<lambda>p.
          andthen (lift_res (authorizeOwner p (acc_owner account))) (\<lambda>_.
          ret (200, account)))))"

definition listAccounts ::
  "pg_env \<Rightarrow> go_error + int \<Rightarrow> go_error + int \<Rightarrow> payload option \<Rightarrow> account list response pg_op" where
  "listAccounts env page_param size_param auth =
     (case page_param of
        Inl _ \<Rightarrow> raise (ApiError 400 ''invalid_page'' ''invalid page'')
      | Inr page \<Rightarrow>
     (case size_param of
        Inl _ \<Rightarrow> raise (ApiError 400 ''invalid_size'' ''invalid size'')
      | Inr sz \<Rightarrow>
          let (sz, offset) = page_window 5 page sz in
          if offset > max_int32 then ret (200, [])
          else
            andthen (lift_res (authPayload auth)) (\<lambda>p.
            andthen (map_error ClassifyError
              (ListAccounts env (pl_username p) sz (wrap32 offset))) (\<lambda>accounts.
            ret (200, accounts)))))"

section \<open>Opening\<close>

lemma account_opened_notified:
  "account_opened ow b cur d a d' \<Longrightarrow> notified d' = notified d"
  by (auto simp: account_opened_def)

lemma CreateAccountTx_outcome:
  assumes "CreateAccountTx env owner bal cur s = (r, s')"
  obtains (same) "tables s' = tables s" "isl r"
    | (opened) a where "account_opened owner bal cur (tables s) a (tables s')"
        "r = Inr a \<or> (\<exists>m. r = Inl (DriverError m))"
proof (cases r)
  case (Inr a)
  with assms obtain s1 where b: "account_body env owner bal cur (begin_tx env s) = (Inr a, s1)"
    "s' = commit (step_tick s1)"
    by (auto simp: CreateAccountTx_def elim: execTx_InrE)
  then have "account_opened owner bal cur (tables s) a (tables s')"
    using account_body_Inr [OF b(1)] by (simp add: publish_pending_def)
  then show thesis using Inr by (intro opened) auto
next
  case (Inl e)
  with assms have "execTx env (account_body env owner bal cur) s = (Inl e, s')"
    by (simp add: CreateAccountTx_def)
  then show thesis
  proof (cases rule: execTx_InlE)
    case (lost m a s1)
    then have "account_opened owner bal cur (tables s) a (tables s')"
      using account_body_Inr [OF lost(2)] by (simp add: publish_pending_def)
    then show thesis using Inl lost(1) by (intro opened) auto
  qed (use Inl same in auto)
qed

text \<open>
  C26 (safety). An account is only ever opened for the authenticated caller, in a supported
  currency, with an opening balance the configuration allows (zero where it names no limit
  for the currency); the books stay in order, and any answer other than 201 or a lost
  acknowledgement leaves the tables unchanged.
\<close>

theorem createAccount_safe:
  assumes books: "books_ok (tables s)" and cfg: "limits_ok cfg"
    and valid: "\<And>req. valid req \<Longrightarrow> 0 \<le> car_balance req"
    and run: "createAccount env cfg bound valid auth s = (r, s')"
  shows "books_ok (tables s') \<and>
    (tables s' \<noteq> tables s \<or> \<not> isl r \<longrightarrow>
      (\<exists>req p a. bound = Some req \<and> auth = Some p \<and> IsSupported (car_currency req) \<and>
         0 \<le> car_balance req \<and> car_balance req \<le> opening_limit cfg (car_currency req) \<and>
         account_opened (pl_username p) (car_balance req) (car_currency req) (tables s) a (tables s') \<and>
         (r = Inr (201, a) \<or> (\<exists>m. r = Inl (DriverError m)))))"
proof (cases "\<exists>req p. bindValidate bound valid = Inr req \<and> auth = Some p \<and> IsSupported (car_currency req) \<and>
    car_balance req \<le> MaxSafeMinorUnits \<and> car_balance req \<le> opening_limit cfg (car_currency req)")
  case False
  then have "isl r \<and> s' = s"
    using run
    by (auto simp: createAccount_def andthen_def raise_def lift_res_def authPayload_def
        split: sum.splits if_splits option.splits)
  then show ?thesis using books by simp
next
  case True
  then obtain req p where c: "bindValidate bound valid = Inr req" "auth = Some p"
    "IsSupported (car_currency req)" "car_balance req \<le> MaxSafeMinorUnits"
    "car_balance req \<le> opening_limit cfg (car_currency req)" by blast
  obtain r1 s1 where tx: "CreateAccountTx env (pl_username p) (car_balance req) (car_currency req) s = (r1, s1)"
    by fastforce
  have s': "s' = s1" and r: "r = (case r1 of Inl e \<Rightarrow> Inl (ClassifyError e) | Inr a \<Rightarrow> Inr (201, a))"
    using run c tx
    by (auto simp: createAccount_def andthen_def lift_res_def authPayload_def map_error_def ret_def
        split: sum.splits)
  have ok: "books_ok (tables s1)"
    using keepsD [OF account_books.execTx_keeps _ tx [unfolded CreateAccountTx_def]] books
    by (simp add: on_tables_def)
  have req: "bound = Some req" "valid req" using c(1) by (simp_all add: bindValidate_Inr)
  from tx show ?thesis
  proof (cases rule: CreateAccountTx_outcome)
    case same
    then show ?thesis using ok r s' by (cases r1) auto
  next
    case (opened a)
    then show ?thesis using ok r s' req c valid by (cases r1) auto
  qed
qed

section \<open>Reading\<close>

text \<open>
  Reading an account on a working database: it is returned exactly to its
  owner. Anybody else gets a refusal (forbidden, or unauthorized without claims), an absent account is
  reported as not found before the caller is looked at, a malformed identifier as a bad request; nothing
  changes.
\<close>

theorem getAccount_decides:
  assumes "healthy env" and "getAccount parse_uuid env param auth s = (r, s')"
  shows "tables s' = tables s \<and>
    r = (case parse_uuid param of
       Inl _ \<Rightarrow> Inl (ApiError 400 ''invalid_account_id'' ''invalid account id'')
     | Inr i \<Rightarrow>
         (case find_account i (tables s) of
            None \<Rightarrow> Inl ErrRecordNotFound
          | Some a \<Rightarrow>
              (case auth of
                 None \<Rightarrow> Inl ErrUnauthorized
               | Some p \<Rightarrow>
                   if pl_username p = acc_owner a then Inr (200, a)
                   else Inl (ApiError 403 ''forbidden'' ''you do not have access to this resource''))))"
  using assms
  by (auto simp: getAccount_def andthen_def map_error_def raise_def lift_res_def authPayload_def
      authorizeOwner_def ret_def GetAccount_def query_row_def split: sum.splits option.splits if_splits)

text \<open>The caller's accounts in the order of the listing.\<close>

definition accounts_of :: "string \<Rightarrow> db \<Rightarrow> account list" where
  "accounts_of owner d = sort_key acc_id (filter (\<lambda>a. acc_owner a = owner) (accounts d))"

text \<open>
  Listing accounts, on a working database, for any 32-bit page and size: the answer
  is exactly that page of the caller's accounts in the order of their identifiers, with
  the size clamped to 1..100. No arithmetic wraps around; a page beyond what a 32-bit offset can
  address is empty, and it would have been empty anyway while the caller has at most
  \<open>2^31\<close> accounts.
\<close>

theorem listAccounts_page:
  assumes h: "healthy env" and page: "- 2147483648 \<le> page" "page \<le> max_int32"
    and few: "int (length (accounts_of (pl_username p) (tables s))) \<le> max_int32 + 1"
    and run: "listAccounts env (Inr page) (Inr sz) (Some p) s = (r, s')"
  defines "n \<equiv> min (if sz < 1 then 5 else sz) 100"
  shows "tables s' = tables s \<and>
    r = Inr (200, page_slice n ((max page 1 - 1) * n) (accounts_of (pl_username p) (tables s)))"
proof -
  have w: "page_window 5 page sz = (n, (max page 1 - 1) * n)" and n: "1 \<le> n"
    using page_window_exact [OF page, of 5 sz] by (auto simp: n_def)
  let ?off = "(max page 1 - 1) * n"
  have off: "0 \<le> ?off" using n by simp
  show ?thesis
  proof (cases "?off > max_int32")
    case True
    then have "drop (nat ?off) (accounts_of (pl_username p) (tables s)) = []" using few by simp
    then show ?thesis using run True by (simp add: listAccounts_def w ret_def page_slice_def)
  next
    case False
    then have "wrap32 ?off = ?off" using off by (simp add: wrap32_def max_int32_def)
    moreover have "ListAccounts env (pl_username p) n ?off s =
        (Inr (page_slice n ?off (accounts_of (pl_username p) (tables s))), step_tick s)"
      using h off n
      by (simp add: ListAccounts_def listAccounts_sql_def query_page_rows accounts_of_def)
    ultimately show ?thesis
      using run False
      by (auto simp: listAccounts_def w andthen_def map_error_def authPayload_def lift_res_def ret_def)
  qed
qed

section \<open>Witnesses\<close>

definition alice_auth :: payload where
  "alice_auth = sample_claims Access"

definition open_request :: create_account_request where
  "open_request = \<lparr>car_currency = ''EUR'', car_balance = 0\<rparr>"

abbreviation open_call :: "account response pg_op" where
  "open_call \<equiv> createAccount sample_env sample_config (Some open_request) (\<lambda>q. 0 \<le> car_balance q) (Some alice_auth)"

theorem createAccount_safe_witness:
  "books_ok (tables (after open_call start)) \<and>
   (\<exists>a. account_opened ''alice'' 0 ''EUR'' sample_db a (tables (after open_call start)))"
proof -
  have "books_ok sample_db" "limits_ok sample_config" "\<not> isl (result open_call start)"
    "pl_username alice_auth = ''alice''" by code_simp+
  then show ?thesis
    using createAccount_safe [OF _ _ _ run_eq [of open_call start]] by (auto simp: open_request_def)
qed

definition sample_parse :: "string \<Rightarrow> go_error + uuid" where
  "sample_parse str = (if str = ''ten'' then Inr 10 else if str = ''eleven'' then Inr 11
     else if str = ''key'' then Inr 77 else if str = ''thirty'' then Inr 30 else Inl (PlainError ''uuid''))"

theorem getAccount_decides_witness:
  "result (getAccount sample_parse sample_env ''ten'' (Some alice_auth)) start =
     Inr (200, sample_account 10 ''alice'' 100) \<and>
   result (getAccount sample_parse sample_env ''eleven'' (Some alice_auth)) start =
     Inl (ApiError 403 ''forbidden'' ''you do not have access to this resource'')"
proof -
  have "healthy sample_env" by (simp add: healthy_def sample_env_def)
  moreover have "find_account 10 sample_db = Some (sample_account 10 ''alice'' 100)"
    "find_account 11 sample_db = Some (sample_account 11 ''bob'' 0)" "pl_username alice_auth = ''alice''"
    by code_simp+
  ultimately show ?thesis
    using getAccount_decides [OF _ run_eq [of "getAccount sample_parse sample_env ''ten'' (Some alice_auth)" start]]
      getAccount_decides [OF _ run_eq [of "getAccount sample_parse sample_env ''eleven'' (Some alice_auth)" start]]
    by (simp add: sample_parse_def sample_account_def)
qed

abbreviation list_call :: "account list response pg_op" where
  "list_call \<equiv> listAccounts sample_env (Inr 2000000000) (Inr 0) (Some alice_auth)"

theorem listAccounts_page_witness:
  "result list_call start = Inr (200, [])"
proof -
  have "healthy sample_env" by (simp add: healthy_def sample_env_def)
  moreover have "accounts_of (pl_username alice_auth) sample_db = [sample_account 10 ''alice'' 100]" by code_simp
  ultimately show ?thesis
    using listAccounts_page [OF _ _ _ _ run_eq [of list_call start]]
    by (simp add: max_int32_def page_slice_def)
qed

end
