(* ===== verification/Api_Transfer.thy ===== *)
theory Api_Transfer
  imports Api_Account Transfer_Witnesses
begin

text \<open>
  \<open>internal/api/transfer.go\<close>: the checks in front of \<open>TransferTx\<close>, and the history of an
  account.
\<close>

record transfer_request =
  trq_from_account_id :: string
  trq_to_account_id :: string
  trq_amount :: int
  trq_currency :: string
  trq_idempotency_key :: string

record transfer_response =
  trs_transfer :: transfer
  trs_from_account :: account

text \<open>\<open>id, _ := uuid.Parse(s)\<close>: the zero UUID when it cannot be parsed.\<close>

definition parse_or_zero :: "(string \<Rightarrow> go_error + uuid) \<Rightarrow> string \<Rightarrow> uuid" where
  "parse_or_zero parse_uuid str = (case parse_uuid str of Inl _ \<Rightarrow> 0 | Inr u \<Rightarrow> u)"

definition validAccount :: "pg_env \<Rightarrow> uuid \<Rightarrow> string \<Rightarrow> account pg_op" where
  "validAccount env i cur =
     andthen (map_error ClassifyError (GetAccount env i)) (\<lambda>account.
     if acc_currency account \<noteq> cur
     then raise (ApiError 400 ''currency_mismatch'' ''currency mismatch'')
     else ret account)"

definition tx_params ::
  "(string \<Rightarrow> go_error + uuid) \<Rightarrow> config \<Rightarrow> transfer_request \<Rightarrow> transfer_params" where
  "tx_params parse_uuid cfg req =
     \<lparr>par_from_account_id = parse_or_zero parse_uuid (trq_from_account_id req),
      par_to_account_id = parse_or_zero parse_uuid (trq_to_account_id req),
      par_amount = trq_amount req, par_currency = trq_currency req,
      par_idempotency_key = parse_or_zero parse_uuid (trq_idempotency_key req),
      par_daily_limit = Daily (transfer_limit cfg (trq_currency req))\<rparr>"

definition createTransfer ::
  "(string \<Rightarrow> go_error + uuid) \<Rightarrow> pg_env \<Rightarrow> config \<Rightarrow> transfer_request option \<Rightarrow> (transfer_request \<Rightarrow> bool)
    \<Rightarrow> payload option \<Rightarrow> transfer_response response pg_op" where
  "createTransfer parse_uuid env cfg bound valid auth =
     andthen (lift_res (bindValidate bound valid)) (\<lambda>req.
     let limit = transfer_limit cfg (trq_currency req); arg = tx_params parse_uuid cfg req in
     if trq_amount req > MaxSafeMinorUnits
       then raise (ApiError 422 ''amount_too_large'' ''amount exceeds the supported limit'')
     else if MaxPerTransfer limit > 0 \<and> trq_amount req > MaxPerTransfer limit
       then raise (ApiError 422 ''transfer_limit_exceeded'' ''amount exceeds the per-transfer limit'')
     else if par_from_account_id arg = par_to_account_id arg
       then raise (ApiError 400 ''same_account_transfer'' ''cannot transfer to the same account'')
     else
       andthen (validAccount env (par_from_account_id arg) (trq_currency req)) (\<lambda>fromAccount.
       andthen (lift_res (authPayload auth)) (\<lambda>p.
       andthen (lift_res (authorizeOwner p (acc_owner fromAccount))) (\<lambda>_.
       andthen (validAccount env (par_to_account_id arg) (trq_currency req)) (\<lambda>_.
       andthen (TransferTx env arg) (\<lambda>result.
       ret (200, \<lparr>trs_transfer = res_transfer result, trs_from_account = res_from_account result\<rparr>)))))))"

definition listTransfers ::
  "(string \<Rightarrow> go_error + uuid) \<Rightarrow> pg_env \<Rightarrow> string \<Rightarrow> go_error + int \<Rightarrow> go_error + int \<Rightarrow> payload option
    \<Rightarrow> transfer list response pg_op" where
  "listTransfers parse_uuid env param page_param size_param auth =
     (case parse_uuid param of
        Inl _ \<Rightarrow> raise (ApiError 400 ''invalid_account_id'' ''invalid account id'')
      | Inr i \<Rightarrow>
     (case page_param of
        Inl _ \<Rightarrow> raise (ApiError 400 ''invalid_page'' ''invalid page'')
      | Inr page \<Rightarrow>
     (case size_param of
        Inl _ \<Rightarrow> raise (ApiError 400 ''invalid_size'' ''invalid size'')
      | Inr sz \<Rightarrow>
          let (sz, offset) = page_window 10 page sz in
          andthen (map_error ClassifyError (GetAccount env i)) (\<lambda>account.
          andthen (lift_res (authPayload auth)) (\<lambda>p.
          andthen (lift_res (authorizeOwner p (acc_owner account))) (\<lambda>_.
          if offset > max_int32 then ret (200, [])
          else
            andthen (map_error ClassifyError
              (ListTransfersByAccount env i (wrap32 offset) sz)) (\<lambda>transfers.
            ret (200, transfers))))))))"

section \<open>What reaches the store\<close>

lemma validAccount_Inr:
  "validAccount env i cur s = (Inr a, s') \<Longrightarrow>
     find_account i (tables s) = Some a \<and> acc_currency a = cur \<and> tables s' = tables s"
  by (auto simp: validAccount_def andthen_Inr GetAccount_def ret_def raise_def
      dest!: run_query_row_Inr split: if_splits)

lemma validAccount_Inl: "validAccount env i cur s = (Inl e, s') \<Longrightarrow> tables s' = tables s"
  by (auto simp: validAccount_def andthen_def map_error_def GetAccount_def ret_def raise_def
      run_sql_def query_row_def split: sum.splits option.splits if_splits prod.splits)

text \<open>
  Everything that must hold before \<open>TransferTx\<close> is called: a valid request within the limits,
  two different accounts in its currency, the source owned by the caller.
\<close>

definition admitted ::
  "(string \<Rightarrow> go_error + uuid) \<Rightarrow> config \<Rightarrow> transfer_request \<Rightarrow> payload \<Rightarrow> db \<Rightarrow> bool" where
  "admitted parse_uuid cfg req p d \<longleftrightarrow>
     (let arg = tx_params parse_uuid cfg req; limit = transfer_limit cfg (trq_currency req) in
      trq_amount req \<le> MaxSafeMinorUnits \<and>
      (MaxPerTransfer limit \<le> 0 \<or> trq_amount req \<le> MaxPerTransfer limit) \<and>
      par_from_account_id arg \<noteq> par_to_account_id arg \<and>
      (\<exists>a b. find_account (par_from_account_id arg) d = Some a \<and> acc_currency a = trq_currency req \<and>
         acc_owner a = pl_username p \<and>
         find_account (par_to_account_id arg) d = Some b \<and> acc_currency b = trq_currency req))"

lemma andthen_lift: "andthen (lift_res (Inr x)) f = f x"
  by (simp add: fun_eq_iff andthen_def lift_res_def)

text \<open>A call either stops before the store without effect, or is one call of \<open>TransferTx\<close>.\<close>

lemma createTransfer_cases:
  assumes run: "createTransfer parse_uuid env cfg bound valid auth s = (r, s')"
  obtains (refused) "isl r" "tables s' = tables s"
    | (passed) req p s1 r1 where "bindValidate bound valid = Inr req" "auth = Some p"
        "admitted parse_uuid cfg req p (tables s)" "tables s1 = tables s"
        "TransferTx env (tx_params parse_uuid cfg req) s1 = (r1, s')"
        "r = map_sum id (\<lambda>res. (200, \<lparr>trs_transfer = res_transfer res, trs_from_account = res_from_account res\<rparr>)) r1"
proof (cases "bindValidate bound valid")
  case (Inl e)
  then show thesis using run by (intro refused) (auto simp: createTransfer_def andthen_def lift_res_def)
next
  case (Inr req)
  let ?arg = "tx_params parse_uuid cfg req" and ?cur = "trq_currency req"
  let ?limit = "transfer_limit cfg ?cur"
  show thesis
  proof (cases "trq_amount req > MaxSafeMinorUnits \<or>
      (MaxPerTransfer ?limit > 0 \<and> trq_amount req > MaxPerTransfer ?limit) \<or>
      par_from_account_id ?arg = par_to_account_id ?arg")
    case True
    then show thesis
      using run Inr
      by (intro refused)
        (auto simp: createTransfer_def andthen_def lift_res_def Let_def raise_def split: if_splits)
  next
    case False
    then have g: "\<not> trq_amount req > MaxSafeMinorUnits"
      "\<not> (MaxPerTransfer ?limit > 0 \<and> trq_amount req > MaxPerTransfer ?limit)"
      "par_from_account_id ?arg \<noteq> par_to_account_id ?arg" by blast+
    have call: "andthen (validAccount env (par_from_account_id ?arg) ?cur) (\<lambda>fromAccount.
       andthen (lift_res (authPayload auth)) (\<lambda>p.
       andthen (lift_res (authorizeOwner p (acc_owner fromAccount))) (\<lambda>_.
       andthen (validAccount env (par_to_account_id ?arg) ?cur) (\<lambda>_.
       andthen (TransferTx env ?arg) (\<lambda>result.
       ret (200, \<lparr>trs_transfer = res_transfer result, trs_from_account = res_from_account result\<rparr>)))))) s
        = (r, s')"
      using run unfolding createTransfer_def Let_def Inr andthen_lift
      by (simp only: if_not_P [OF g(1)] if_not_P [OF g(2)] if_not_P [OF g(3)])
    obtain ra sa where va: "validAccount env (par_from_account_id ?arg) ?cur s = (ra, sa)" by fastforce
    show thesis
    proof (cases "\<exists>a p. ra = Inr a \<and> auth = Some p \<and> acc_owner a = pl_username p")
      case no: False
      have "isl r \<and> s' = sa"
        using call va no
        by (auto simp: andthen_def lift_res_def authPayload_def authorizeOwner_def split: sum.splits option.splits if_splits)
      moreover have "tables sa = tables s"
        using va by (cases ra) (auto dest: validAccount_Inr validAccount_Inl)
      ultimately show thesis using refused by simp
    next
      case yes: True
      then obtain a p where a: "ra = Inr a" "auth = Some p" "acc_owner a = pl_username p" by blast
      note fa = validAccount_Inr [OF va [unfolded a(1)]]
      obtain rb sb where vb: "validAccount env (par_to_account_id ?arg) ?cur sa = (rb, sb)" by fastforce
      show thesis
      proof (cases rb)
        case (Inl e)
        then have "isl r" "s' = sb"
          using call va vb a by (auto simp: andthen_def lift_res_def authPayload_def authorizeOwner_def)
        then show thesis using validAccount_Inl [OF vb [unfolded Inl]] fa refused by simp
      next
        case inr: (Inr b)
        note fb = validAccount_Inr [OF vb [unfolded inr]]
        obtain r1 s1 where tx: "TransferTx env ?arg sb = (r1, s1)" by fastforce
        have res: "r = map_sum id (\<lambda>res. (200, \<lparr>trs_transfer = res_transfer res, trs_from_account = res_from_account res\<rparr>)) r1"
          and s1: "s' = s1"
          using call va vb a inr tx
          by (auto simp: andthen_def lift_res_def authPayload_def authorizeOwner_def ret_def split: sum.splits)
        have "admitted parse_uuid cfg req p (tables s)"
          using False fa fb a(3) by (auto simp: admitted_def Let_def)
        then show thesis using Inr a(2) fa fb tx res s1 by (intro passed [of req p sb r1]) auto
      qed
    qed
  qed
qed

section \<open>Properties\<close>

text \<open>
  Only the owner can spend: if a call of the transfer endpoint changes anything, or
  answers with a transfer, then the caller is authenticated and owns the source account,
  both accounts exist in the currency of the request and are different, the amount is positive and within the
  per-transfer limit of that currency and the largest supported amount; and what changed
  is one committed transfer with exactly these parameters.
\<close>

theorem createTransfer_authorized:
  assumes schema: "schema_ok (tables s)" and valid: "\<And>q. valid q \<Longrightarrow> 0 < trq_amount q"
    and run: "createTransfer parse_uuid env cfg bound valid auth s = (r, s')"
    and eff: "tables s' \<noteq> tables s \<or> \<not> isl r"
  shows "\<exists>req p. bound = Some req \<and> auth = Some p \<and> 0 < trq_amount req \<and>
    admitted parse_uuid cfg req p (tables s) \<and>
    (tables s' \<noteq> tables s \<longrightarrow>
       (\<exists>at res. committed (tx_params parse_uuid cfg req) at (tables s) res (tables s')))"
  using run
proof (cases rule: createTransfer_cases)
  case refused
  then show ?thesis using eff by simp
next
  case (passed req p s1 r1)
  have "tables s' \<noteq> tables s \<longrightarrow> (\<exists>at res. committed (tx_params parse_uuid cfg req) at (tables s) res (tables s'))"
    using TransferTx_outcome [OF passed(5)] schema passed(4) by metis
  then show ?thesis using passed(1-3) valid by (auto simp: bindValidate_Inr)
qed

text \<open>
  Whatever is sent to the transfer endpoint, by whomever, and however the
  database fails, the books stay in order and no money appears or disappears.
\<close>

theorem createTransfer_keeps_books:
  assumes "books_ok (tables s)" and run: "createTransfer parse_uuid env cfg bound valid auth s = (r, s')"
  shows "books_ok (tables s') \<and> total_balance (tables s') = total_balance (tables s)"
  using run
proof (cases rule: createTransfer_cases)
  case refused
  then show ?thesis using assms(1) by simp
next
  case (passed req p s1 r1)
  have "schema_ok (tables s1)" using assms(1) passed(4) by (simp add: books_ok_def)
  from passed(5) this have "total_balance (tables s') = total_balance (tables s1)"
    by (rule TransferTx_outcome)
      (auto elim!: committed_posting dest: posting_total [OF _ \<open>schema_ok (tables s1)\<close>] simp: total_balance_def)
  moreover have "books_ok (tables s')"
    using keepsD [OF TransferTx_keeps [OF transfer_books.execTx_keeps] _ passed(5)] assms(1) passed(4)
    by (simp add: on_tables_def)
  ultimately show ?thesis using passed(4) by simp
qed

text \<open>The transfers of an account, newest first.\<close>

definition history_of :: "uuid \<Rightarrow> db \<Rightarrow> transfer list" where
  "history_of i d = newest_first (\<lambda>t. Stamp (tr_created_at t) (tr_id t))
     (filter (\<lambda>t. tr_from_account_id t = i \<or> tr_to_account_id t = i) (transfers d))"

text \<open>
  C27 (safety). The history of an account is shown to its owner only, and it is the requested
  page of all transfers in and out of that account, newest first: on a working database,
  for any 32-bit page and size, with the size clamped to 1..100 and no wrap-around. To
  anybody else the answer is the same refusal whatever the account's history.
\<close>

theorem listTransfers_page:
  assumes h: "healthy env" and i: "parse_uuid param = Inr i" and a: "find_account i (tables s) = Some a"
    and page: "- 2147483648 \<le> page" "page \<le> max_int32"
    and few: "int (length (history_of i (tables s))) \<le> max_int32 + 1"
    and run: "listTransfers parse_uuid env param (Inr page) (Inr sz) (Some p) s = (r, s')"
  defines "n \<equiv> min (if sz < 1 then 10 else sz) 100"
  shows "tables s' = tables s \<and>
    r = (if acc_owner a = pl_username p
         then Inr (200, page_slice n ((max page 1 - 1) * n) (history_of i (tables s)))
         else Inl (ApiError 403 ''forbidden'' ''you do not have access to this resource''))"
proof -
  have w: "page_window 10 page sz = (n, (max page 1 - 1) * n)" and n: "1 \<le> n"
    using page_window_exact [OF page, of 10 sz] by (auto simp: n_def)
  let ?off = "(max page 1 - 1) * n"
  have off: "0 \<le> ?off" using n by simp
  have get: "GetAccount env i s = (Inr a, step_tick s)"
    using h a by (simp add: GetAccount_def query_row_def)
  show ?thesis
  proof (cases "acc_owner a = pl_username p \<and> ?off \<le> max_int32")
    case True
    then have w32: "wrap32 ?off = ?off" using off by (simp add: wrap32_def max_int32_def)
    have list: "ListTransfersByAccount env i ?off n (step_tick s) =
        (Inr (page_slice n ?off (history_of i (tables s))), step_tick (step_tick s))"
      using h off n
      by (simp add: ListTransfersByAccount_def listTransfersByAccount_sql_def query_page_rows history_of_def)
    show ?thesis
      using run i True w32
      by (auto simp: listTransfers_def w andthen_def map_error_def get list authPayload_def
          authorizeOwner_def lift_res_def ret_def)
  next
    case False
    have "?off > max_int32 \<Longrightarrow> drop (nat ?off) (history_of i (tables s)) = []" using few by simp
    then show ?thesis
      using run i False
      by (auto simp: listTransfers_def w andthen_def map_error_def get authPayload_def page_slice_def
          authorizeOwner_def lift_res_def ret_def)
  qed
qed

section \<open>Witnesses\<close>

definition pay_request :: transfer_request where
  "pay_request = \<lparr>trq_from_account_id = ''ten'', trq_to_account_id = ''eleven'', trq_amount = 30,
     trq_currency = ''USD'', trq_idempotency_key = ''key''\<rparr>"

abbreviation pay_call :: "transfer_response response pg_op" where
  "pay_call \<equiv> createTransfer sample_parse sample_env sample_config (Some pay_request)
     (\<lambda>q. 0 < trq_amount q) (Some alice_auth)"

theorem createTransfer_authorized_witness:
  "admitted sample_parse sample_config pay_request alice_auth sample_db \<and>
   (\<exists>at res. committed (tx_params sample_parse sample_config pay_request) at sample_db res
      (tables (after pay_call start)))"
proof -
  have "tables (after pay_call start) \<noteq> sample_db" by code_simp
  then show ?thesis
    using createTransfer_authorized [OF _ _ run_eq [of pay_call start]] sample_schema by simp
qed

theorem createTransfer_keeps_books_witness:
  "books_ok (tables (after pay_call start)) \<and>
   map acc_balance (accounts (tables (after pay_call start))) = [70, 30]"
proof -
  have "map acc_balance (accounts (tables (after pay_call start))) = [70, 30]" by code_simp
  then show ?thesis
    using createTransfer_keeps_books [OF _ run_eq [of pay_call start]] sample_books by simp
qed

theorem listTransfers_page_witness:
  "result (listTransfers sample_parse sample_env ''ten'' (Inr 1) (Inr 5) (Some alice_auth)) start = Inr (200, [])"
proof -
  have "healthy sample_env" by (simp add: healthy_def sample_env_def)
  moreover have "history_of 10 sample_db = []" "sample_parse ''ten'' = Inr 10"
    "find_account 10 sample_db = Some (sample_account 10 ''alice'' 100)"
    "acc_owner (sample_account 10 ''alice'' 100) = pl_username alice_auth" by code_simp+
  ultimately show ?thesis
    using listTransfers_page [OF _ _ _ _ _ _ run_eq
        [of "listTransfers sample_parse sample_env ''ten'' (Inr 1) (Inr 5) (Some alice_auth)" start]]
    by (simp add: max_int32_def page_slice_def)
qed

end
