(* ===== verification/Api_User.thy ===== *)
theory Api_User
  imports Api_Core User_Tx Verify_Email_Tx Session_Tx
begin

text \<open>
  \<open>internal/api/user.go\<close> and \<open>session_cookie.go\<close>: registration, login, renewal, logout and
  email verification. A handler here also sets cookies, which it may do before it returns
  an error, so its state is the database connection together with the cookies of the
  response. Passwords (\<open>bcrypt\<close>), digests (\<open>SHA-256\<close>), the JWT library and the River queue
  are fields of the server, arguments of the model.
\<close>

section \<open>The server and a request\<close>

record cookie =
  ck_name :: string
  ck_value :: string
  ck_path :: string
  ck_expires :: time
  ck_max_age :: int
  ck_http_only :: bool
  ck_secure :: bool
  ck_same_site :: string

record web =
  db_conn :: pg
  set_cookies :: "cookie list"

type_synonym 'a web_op = "web \<Rightarrow> (go_error + 'a) \<times> web"

definition on_db :: "'a pg_op \<Rightarrow> 'a web_op" where
  "on_db m w = (let (r, s) = m (db_conn w) in (r, w\<lparr>db_conn := s\<rparr>))"

text \<open>
  \<open>srv_queue\<close> is the River client (\<open>None\<close> is nil): it inserts a job, within the transaction
  of the connection it is given, if there is one.
\<close>

record server =
  srv_config :: config
  srv_env :: pg_env
  srv_jwt :: jwt_lib
  srv_key :: string
  srv_queue :: "(job \<Rightarrow> unit pg_op) option"
  srv_hash :: "string \<Rightarrow> go_error + string"
  srv_check :: "string \<Rightarrow> string \<Rightarrow> bool"
  srv_digest :: "string \<Rightarrow> string"

text \<open>What a request brings along: the time of \<open>time.Now\<close>, the client, randomness for tokens.\<close>

record request =
  rq_now :: time
  rq_user_agent :: string
  rq_client_ip :: string
  rq_access_mint :: mint
  rq_refresh_mint :: mint

section \<open>Cookies\<close>

definition refreshCookieName :: string where
  "refreshCookieName = ''simplebank_refresh''"

definition add_cookie :: "cookie \<Rightarrow> unit web_op" where
  "add_cookie ck w = (Inr (), w\<lparr>set_cookies := set_cookies w @ [ck]\<rparr>)"

definition setRefreshCookie :: "server \<Rightarrow> string \<Rightarrow> time \<Rightarrow> unit web_op" where
  "setRefreshCookie srv raw expiresAt = add_cookie
     \<lparr>ck_name = refreshCookieName, ck_value = raw, ck_path = ''/api/v1'', ck_expires = expiresAt,
      ck_max_age = 0, ck_http_only = True, ck_secure = SessionCookieSecure (srv_config srv),
      ck_same_site = ''Strict''\<rparr>"

definition clearRefreshCookie :: "server \<Rightarrow> unit web_op" where
  "clearRefreshCookie srv = add_cookie
     \<lparr>ck_name = refreshCookieName, ck_value = '''', ck_path = ''/api/v1'', ck_expires = second,
      ck_max_age = - 1, ck_http_only = True, ck_secure = SessionCookieSecure (srv_config srv),
      ck_same_site = ''Strict''\<rparr>"

text \<open>What reading the refresh cookie of a request gives.\<close>

datatype cookie_read = NoCookie | BadCookie | GotCookie string

section \<open>Registration\<close>

record create_user_request =
  cur_username :: string
  cur_password :: string
  cur_full_name :: string
  cur_email :: string

definition verificationAccepted :: string where
  "verificationAccepted = ''check your email for verification instructions''"

definition queue_job :: "server \<Rightarrow> job \<Rightarrow> unit pg_op" where
  "queue_job srv j = (case srv_queue srv of None \<Rightarrow> ret () | Some put \<Rightarrow> put j)"

definition queueVerifyEmailTx :: "server \<Rightarrow> string \<Rightarrow> unit pg_op" where
  "queueVerifyEmailTx srv username = queue_job srv (SendVerifyEmailArgs username)"

definition queueVerifyEmail :: "server \<Rightarrow> string \<Rightarrow> unit pg_op" where
  "queueVerifyEmail srv username = queue_job srv (SendVerifyEmailArgs username)"

definition queueRegistrationNotice :: "server \<Rightarrow> string \<Rightarrow> unit pg_op" where
  "queueRegistrationNotice srv email = queue_job srv (SendRegistrationNoticeArgs email)"

text \<open>An error that is only logged.\<close>

definition ignore_error :: "unit web_op \<Rightarrow> unit web_op" where
  "ignore_error m = handle m (\<lambda>_. ret ()) ret"

definition createUser ::
  "server \<Rightarrow> create_user_request option \<Rightarrow> (create_user_request \<Rightarrow> bool) \<Rightarrow> string response web_op" where
  "createUser srv bound valid =
     andthen (lift_res (bindValidate bound valid)) (\<lambda>req.
     andthen (lift_res (srv_hash srv (cur_password req))) (\<lambda>hashed.
     handle
       (on_db (CreateUserTx (srv_env srv)
          \<lparr>cu_username = cur_username req, cu_hashed_password = hashed,
           cu_full_name = cur_full_name req, cu_email = cur_email req\<rparr>
          (Some (\<lambda>u. queueVerifyEmailTx srv (usr_username u)))))
       (\<lambda>err.
          let classified = ClassifyError err in
          if errors_is classified ErrUsernameExists then ret (202, verificationAccepted)
          else if errors_is classified ErrEmailExists then
            andthen (ignore_error (on_db (queueRegistrationNotice srv (cur_email req)))) (\<lambda>_.
            ret (202, verificationAccepted))
          else raise classified)
       (\<lambda>_. ret (202, verificationAccepted))))"

section \<open>Tokens of a session\<close>

definition roleDepositor :: string where
  "roleDepositor = ''depositor''"

record token_pair =
  tp_access :: string
  tp_access_payload :: payload
  tp_refresh :: string
  tp_refresh_payload :: payload

definition issueTokenPairWithRefreshID ::
  "server \<Rightarrow> request \<Rightarrow> uuid \<Rightarrow> string \<Rightarrow> string \<Rightarrow> go_error + token_pair" where
  "issueTokenPairWithRefreshID srv rq refreshID username role =
     (case CreateToken (srv_jwt srv) (srv_key srv) (rq_access_mint rq) username role Access
         (AccessTTL (srv_config srv)) of
        Inl err \<Rightarrow> Inl err
      | Inr (access, accessPayload) \<Rightarrow>
          (case (if refreshID = 0
                 then CreateToken (srv_jwt srv) (srv_key srv) (rq_refresh_mint rq) username role Refresh
                        (RefreshTTL (srv_config srv))
                 else CreateTokenWithID (srv_jwt srv) (srv_key srv) (rq_refresh_mint rq) refreshID
                        username role Refresh (RefreshTTL (srv_config srv))) of
             Inl err \<Rightarrow> Inl err
           | Inr (refresh, refreshPayload) \<Rightarrow>
               Inr \<lparr>tp_access = access, tp_access_payload = accessPayload,
                    tp_refresh = refresh, tp_refresh_payload = refreshPayload\<rparr>))"

definition issueTokenPair :: "server \<Rightarrow> request \<Rightarrow> string \<Rightarrow> string \<Rightarrow> go_error + token_pair" where
  "issueTokenPair srv rq username role = issueTokenPairWithRefreshID srv rq 0 username role"

text \<open>\<open>payload.ExpiresAt.Time\<close>; the maker always sets it.\<close>

definition expiry_of :: "payload \<Rightarrow> time" where
  "expiry_of p = (case pl_expires_at p of Some t \<Rightarrow> t | None \<Rightarrow> zero_time)"

record user_response =
  urs_username :: string
  urs_full_name :: string
  urs_email :: string
  urs_is_email_verified :: bool
  urs_created_at :: time

definition newUserResponse :: "user \<Rightarrow> user_response" where
  "newUserResponse u = \<lparr>urs_username = usr_username u, urs_full_name = usr_full_name u,
     urs_email = usr_email u, urs_is_email_verified = usr_is_email_verified u,
     urs_created_at = usr_created_at u\<rparr>"

section \<open>Login\<close>

record login_request =
  lrq_username :: string
  lrq_password :: string

record login_response =
  lrs_access_token :: string
  lrs_access_token_expires_at :: time
  lrs_session_id :: string
  lrs_user :: user_response

definition invalid_credentials :: go_error where
  "invalid_credentials = ApiError 401 ''invalid_credentials'' ''invalid credentials''"

definition verification_required :: go_error where
  "verification_required = ApiError 403 ''email_verification_required'' ''email verification required''"

definition loginUser ::
  "server \<Rightarrow> request \<Rightarrow> login_request option \<Rightarrow> (login_request \<Rightarrow> bool) \<Rightarrow> login_response response web_op" where
  "loginUser srv rq bound valid =
     andthen (lift_res (bindValidate bound valid)) (\<lambda>req.
     handle (on_db (GetUser (srv_env srv) (lrq_username req)))
       (\<lambda>err. if errors_is (ClassifyError err) ErrRecordNotFound then raise invalid_credentials else raise err)
       (\<lambda>user.
          if \<not> srv_check srv (lrq_password req) (usr_hashed_password user) then raise invalid_credentials
          else if \<not> usr_is_email_verified user then raise verification_required
          else
            andthen (lift_res (issueTokenPair srv rq (usr_username user) roleDepositor)) (\<lambda>tokens.
            andthen (map_error ClassifyError (on_db (CreateSession (srv_env srv)
                (pl_id (tp_refresh_payload tokens)) (usr_username user)
                (srv_digest srv (tp_refresh tokens)) (rq_user_agent rq) (rq_client_ip rq) False
                (expiry_of (tp_refresh_payload tokens))))) (\<lambda>session.
            andthen (setRefreshCookie srv (tp_refresh tokens) (expiry_of (tp_refresh_payload tokens))) (\<lambda>_.
            ret (200, \<lparr>lrs_access_token = tp_access tokens,
                       lrs_access_token_expires_at = expiry_of (tp_access_payload tokens),
                       lrs_session_id = uuid_string (ses_id session),
                       lrs_user = newUserResponse user\<rparr>))))))"

section \<open>Renewal\<close>

record renew_response =
  rrs_access_token :: string
  rrs_access_token_expires_at :: time
  rrs_user :: user_response

definition replacement :: "server \<Rightarrow> token_pair \<Rightarrow> session_replacement" where
  "replacement srv tokens =
     \<lparr>rep_id = pl_id (tp_refresh_payload tokens),
      rep_refresh_token_hash = srv_digest srv (tp_refresh tokens),
      rep_expires_at = expiry_of (tp_refresh_payload tokens)\<rparr>"

definition rotation :: "server \<Rightarrow> request \<Rightarrow> string \<Rightarrow> payload \<Rightarrow> rotate_params" where
  "rotation srv rq cookie_value p =
     \<lparr>rot_id = pl_id p, rot_username = pl_username p,
      rot_refresh_token_hash = srv_digest srv cookie_value, rot_now = rq_now rq,
      rot_new_session = map_sum id (replacement srv)
        (issueTokenPairWithRefreshID srv rq (pl_id p) (pl_username p) (pl_role p))\<rparr>"

text \<open>
  A response without content is \<open>None\<close>. The tokens made inside \<open>RotateSessionTx\<close> are those the
  handler answers with.
\<close>

definition renewToken :: "server \<Rightarrow> request \<Rightarrow> cookie_read \<Rightarrow> renew_response option response web_op" where
  "renewToken srv rq ck =
     (case ck of
        NoCookie \<Rightarrow> ret (204, None)
      | BadCookie \<Rightarrow> raise (ApiError 401 ''invalid_session'' ''invalid session'')
      | GotCookie raw \<Rightarrow>
          andthen (lift_res (VerifyToken (srv_jwt srv) (srv_key srv) (rq_now rq) raw Refresh)) (\<lambda>p.
          andthen (map_error ClassifyError (on_db (GetUser (srv_env srv) (pl_username p)))) (\<lambda>user.
          if \<not> usr_is_email_verified user then
            andthen (clearRefreshCookie srv) (\<lambda>_. raise verification_required)
          else
            andthen (map_error ClassifyError
              (on_db (RotateSessionTx (srv_env srv) (rotation srv rq raw p)))) (\<lambda>_.
            andthen (lift_res (issueTokenPairWithRefreshID srv rq (pl_id p) (pl_username p) (pl_role p)))
              (\<lambda>tokens.
            andthen (setRefreshCookie srv (tp_refresh tokens) (expiry_of (tp_refresh_payload tokens))) (\<lambda>_.
            ret (200, Some \<lparr>rrs_access_token = tp_access tokens,
                            rrs_access_token_expires_at = expiry_of (tp_access_payload tokens),
                            rrs_user = newUserResponse user\<rparr>)))))))"

section \<open>Logout\<close>

definition logoutUser :: "server \<Rightarrow> request \<Rightarrow> cookie_read \<Rightarrow> unit response web_op" where
  "logoutUser srv rq ck =
     (let done = andthen (clearRefreshCookie srv) (\<lambda>_. ret (204, ())) in
      case ck of
        GotCookie raw \<Rightarrow>
          handle (lift_res (VerifyToken (srv_jwt srv) (srv_key srv) (rq_now rq) raw Refresh))
            (\<lambda>_. done)
            (\<lambda>p. handle (on_db (BlockSession (srv_env srv) (pl_id p)))
               (\<lambda>err.
                  if errors_is (ClassifyError err) ErrRecordNotFound then done
                  else andthen (clearRefreshCookie srv) (\<lambda>_. raise (ClassifyError err)))
               (\<lambda>_. done))
      | _ \<Rightarrow> done)"

section \<open>Verification\<close>

definition invalid_link :: go_error where
  "invalid_link = ApiError 400 ''invalid_verification_link'' ''invalid or expired verification link''"

definition verifyEmail ::
  "(string \<Rightarrow> go_error + uuid) \<Rightarrow> server \<Rightarrow> string \<Rightarrow> string \<Rightarrow> bool response web_op" where
  "verifyEmail parse_uuid srv idStr code =
     (case parse_uuid idStr of
        Inl _ \<Rightarrow> raise (ApiError 400 ''invalid_verification_link'' ''invalid id'')
      | Inr i \<Rightarrow>
          if code = '''' then raise invalid_link
          else handle (on_db (VerifyEmailTx (srv_env srv) i (srv_digest srv code)))
            (\<lambda>err. if errors_is err ErrRecordNotFound then raise invalid_link else raise err)
            (\<lambda>_. ret (200, True)))"

definition resendVerifyEmail ::
  "server \<Rightarrow> string option \<Rightarrow> (string \<Rightarrow> bool) \<Rightarrow> string response web_op" where
  "resendVerifyEmail srv bound valid =
     andthen (lift_res (bindValidate bound valid)) (\<lambda>email.
     handle (on_db (GetUserByEmail (srv_env srv) email))
       (\<lambda>err.
          let classified = ClassifyError err in
          if errors_is classified ErrRecordNotFound then ret (202, verificationAccepted)
          else raise classified)
       (\<lambda>user.
          if usr_is_email_verified user then ret (202, verificationAccepted)
          else
            andthen (ignore_error (on_db (queueVerifyEmail srv (usr_username user)))) (\<lambda>_.
            ret (202, verificationAccepted))))"

section \<open>Facts about handlers with cookies\<close>

lemma handle_Inr:
  "handle m h f s = (Inr y, s') \<longleftrightarrow>
     (\<exists>e s1. m s = (Inl e, s1) \<and> h e s1 = (Inr y, s')) \<or> (\<exists>x s1. m s = (Inr x, s1) \<and> f x s1 = (Inr y, s'))"
  by (auto simp: handle_def split: prod.splits sum.splits)

lemma raise_Inr [simp]: "raise e s \<noteq> (Inr y, s')"
  by (simp add: raise_def)

lemma on_db_eq: "on_db m w = (r, w') \<longleftrightarrow> (\<exists>s. m (db_conn w) = (r, s) \<and> w' = w\<lparr>db_conn := s\<rparr>)"
  by (auto simp: on_db_def Let_def split: prod.splits)

lemma GetUser_eq:
  "GetUser env n s = (Inr u, s') \<longleftrightarrow> fault_at env (tick s) = None \<and> find_user n (tables s) = Some u \<and> s' = step_tick s"
  by (auto simp: GetUser_def run_sql_def query_row_def split: option.splits)

lemma GetUser_Inl: "GetUser env n s = (Inl e, s') \<Longrightarrow> tables s' = tables s"
  by (auto simp: GetUser_def dest: run_sql_Inl)

lemma CreateSession_Inr:
  assumes "CreateSession env i un h ag ip bl ex s = (Inr x, s')"
  shows "ses_id x = i \<and> ses_username x = un \<and> ses_refresh_token x = h \<and> ses_is_blocked x = bl \<and>
    ses_expires_at x = ex \<and> i \<notin> ses_id ` set (sessions (tables s)) \<and>
    tables s' = (tables s)\<lparr>sessions := sessions (tables s) @ [x]\<rparr>"
  using assms unfolding CreateSession_def
  by (rule run_sql_InrE) (auto simp: createSession_sql_def Let_def split: if_splits)

lemma find_session_snoc:
  assumes "i \<notin> ses_id ` set (sessions d)" "ses_id x = i"
  shows "find_session i (d\<lparr>sessions := sessions d @ [x]\<rparr>) = Some x"
proof -
  have "find (\<lambda>x. ses_id x = i) (sessions d) = None"
    unfolding find_None_set using assms(1) by (auto simp: image_iff)
  then show ?thesis using assms(2) by (simp add: find_session_def find_append)
qed

text \<open>The pair of tokens: signed with the server's key, the refresh token carrying the given identity.\<close>

lemma issueTokenPair_refresh:
  assumes "issueTokenPairWithRefreshID srv rq i username role = Inr tk"
  shows "sign (srv_jwt srv) (srv_key srv) (tp_refresh_payload tk) = Inr (tp_refresh tk) \<and>
    pl_id (tp_refresh_payload tk) = (if i = 0 then mint_id (rq_refresh_mint rq) else i) \<and>
    pl_username (tp_refresh_payload tk) = username \<and> pl_role (tp_refresh_payload tk) = role \<and>
    pl_token_type (tp_refresh_payload tk) = Refresh \<and> pl_not_before (tp_refresh_payload tk) = None \<and>
    pl_expires_at (tp_refresh_payload tk) = Some (expiry_of (tp_refresh_payload tk))"
  using assms
  by (auto simp: issueTokenPairWithRefreshID_def CreateToken_def CreateTokenWithID_def signPayload_def
      NewPayload_def NewPayloadWithID_def expiry_of_def map_sum_def split: sum.splits if_splits)

lemma issueTokenPair_access:
  assumes "issueTokenPairWithRefreshID srv rq i username role = Inr tk"
  shows "sign (srv_jwt srv) (srv_key srv) (tp_access_payload tk) = Inr (tp_access tk) \<and>
    pl_username (tp_access_payload tk) = username \<and> pl_role (tp_access_payload tk) = role \<and>
    pl_token_type (tp_access_payload tk) = Access \<and> pl_not_before (tp_access_payload tk) = None \<and>
    pl_expires_at (tp_access_payload tk) = Some (expiry_of (tp_access_payload tk))"
  using assms
  by (auto simp: issueTokenPairWithRefreshID_def CreateToken_def CreateTokenWithID_def signPayload_def
      NewPayload_def NewPayloadWithID_def expiry_of_def map_sum_def split: sum.splits if_splits)

lemma refresh_verifies:
  assumes "jwt_library (srv_jwt srv)" "issueTokenPairWithRefreshID srv rq i username role = Inr tk"
    and "t < expiry_of (tp_refresh_payload tk)"
  shows "VerifyToken (srv_jwt srv) (srv_key srv) t (tp_refresh tk) Refresh = Inr (tp_refresh_payload tk)"
  using issueTokenPair_refresh [OF assms(2)] assms(1,3)
  by (auto simp: VerifyToken_def jwt_library_def token_expired_def not_yet_valid_def validate_payload_def Refresh_def)

lemma verified_same_claims:
  "VerifyToken lib key t tok ty = Inr p \<Longrightarrow> VerifyToken lib key t' tok ty' = Inr p' \<Longrightarrow> p' = p"
  by (auto simp: VerifyToken_def split: option.splits if_splits)

section \<open>Login\<close>

definition refresh_cookie :: "server \<Rightarrow> token_pair \<Rightarrow> cookie" where
  "refresh_cookie srv tk =
     \<lparr>ck_name = refreshCookieName, ck_value = tp_refresh tk, ck_path = ''/api/v1'',
      ck_expires = expiry_of (tp_refresh_payload tk), ck_max_age = 0, ck_http_only = True,
      ck_secure = SessionCookieSecure (srv_config srv), ck_same_site = ''Strict''\<rparr>"

lemma setRefreshCookie_eq:
  "setRefreshCookie srv (tp_refresh tk) (expiry_of (tp_refresh_payload tk)) w =
     (Inr (), w\<lparr>set_cookies := set_cookies w @ [refresh_cookie srv tk]\<rparr>)"
  by (simp add: setRefreshCookie_def add_cookie_def refresh_cookie_def)

lemma loginUser_Inr:
  assumes "loginUser srv rq bound valid w = (Inr (st, body), w')"
  obtains req u tk x where
    "bound = Some req" "valid req" "find_user (lrq_username req) (tables (db_conn w)) = Some u"
    "srv_check srv (lrq_password req) (usr_hashed_password u)" "usr_is_email_verified u"
    "issueTokenPairWithRefreshID srv rq 0 (usr_username u) roleDepositor = Inr tk"
    "pl_id (tp_refresh_payload tk) \<notin> ses_id ` set (sessions (tables (db_conn w)))"
    "ses_id x = pl_id (tp_refresh_payload tk)" "ses_username x = usr_username u"
    "ses_refresh_token x = srv_digest srv (tp_refresh tk)" "\<not> ses_is_blocked x"
    "ses_expires_at x = expiry_of (tp_refresh_payload tk)"
    "tables (db_conn w') = (tables (db_conn w))\<lparr>sessions := sessions (tables (db_conn w)) @ [x]\<rparr>"
    "set_cookies w' = set_cookies w @ [refresh_cookie srv tk]"
    "st = 200" "lrs_access_token body = tp_access tk" "lrs_user body = newUserResponse u"
    "lrs_session_id body = uuid_string (ses_id x)"
    "lrs_access_token_expires_at body = expiry_of (tp_access_payload tk)"
proof -
  from assms obtain req where req: "bound = Some req" "valid req"
    and m: "handle (on_db (GetUser (srv_env srv) (lrq_username req)))
       (\<lambda>err. if errors_is (ClassifyError err) ErrRecordNotFound then raise invalid_credentials else raise err)
       (\<lambda>user.
          if \<not> srv_check srv (lrq_password req) (usr_hashed_password user) then raise invalid_credentials
          else if \<not> usr_is_email_verified user then raise verification_required
          else
            andthen (lift_res (issueTokenPair srv rq (usr_username user) roleDepositor)) (\<lambda>tokens.
            andthen (map_error ClassifyError (on_db (CreateSession (srv_env srv)
                (pl_id (tp_refresh_payload tokens)) (usr_username user)
                (srv_digest srv (tp_refresh tokens)) (rq_user_agent rq) (rq_client_ip rq) False
                (expiry_of (tp_refresh_payload tokens))))) (\<lambda>session.
            andthen (setRefreshCookie srv (tp_refresh tokens) (expiry_of (tp_refresh_payload tokens))) (\<lambda>_.
            ret (200, \<lparr>lrs_access_token = tp_access tokens,
                       lrs_access_token_expires_at = expiry_of (tp_access_payload tokens),
                       lrs_session_id = uuid_string (ses_id session),
                       lrs_user = newUserResponse user\<rparr>))))) w = (Inr (st, body), w')"
    by (auto simp: loginUser_def andthen_Inr bindValidate_Inr)
  from m obtain u tk x s1 where u: "find_user (lrq_username req) (tables (db_conn w)) = Some u"
    "srv_check srv (lrq_password req) (usr_hashed_password u)" "usr_is_email_verified u"
    and tk: "issueTokenPairWithRefreshID srv rq 0 (usr_username u) roleDepositor = Inr tk"
    and x: "CreateSession (srv_env srv)
                (pl_id (tp_refresh_payload tk)) (usr_username u)
                (srv_digest srv (tp_refresh tk)) (rq_user_agent rq) (rq_client_ip rq) False
                (expiry_of (tp_refresh_payload tk)) (step_tick (db_conn w)) = (Inr x, s1)"
    and w': "db_conn w' = s1" "set_cookies w' = set_cookies w @ [refresh_cookie srv tk]"
    and body: "st = 200" "lrs_access_token body = tp_access tk" "lrs_user body = newUserResponse u"
    "lrs_session_id body = uuid_string (ses_id x)"
    "lrs_access_token_expires_at body = expiry_of (tp_access_payload tk)"
    by (auto simp: handle_Inr andthen_Inr on_db_eq GetUser_eq setRefreshCookie_eq issueTokenPair_def ret_def
        split: if_splits)
  show ?thesis
    using that [OF req u tk, of x] CreateSession_Inr [OF x] w' body by simp
qed

lemma run_error_tables:
  "GetUser env n s = (Inl e, s') \<Longrightarrow> tables s' = tables s"
  "CreateSession env i un h ag ip bl ex s = (Inl e, s') \<Longrightarrow> tables s' = tables s"
  by (auto simp: GetUser_def CreateSession_def dest: run_sql_Inl)

lemma loginUser_Inl:
  assumes "loginUser srv rq bound valid w = (Inl e, w')"
  shows "tables (db_conn w') = tables (db_conn w) \<and> set_cookies w' = set_cookies w"
  using assms
  by (auto simp: loginUser_def andthen_def handle_def map_error_def lift_res_def raise_def ret_def on_db_def
      Let_def setRefreshCookie_eq GetUser_eq dest!: run_error_tables
      split: prod.splits sum.splits if_splits)

text \<open>
  C19 (safety). Logging in opens a session for the right person only: an answer 200 means the name belongs to a
  user whose stored hash matches the password and whose address is verified; a session row for
  that user, unblocked, holding the digest of the new refresh token is added and nothing else changes;
  the one cookie set holds that token, HTTP only and same-site strict, and until the
  cookie expires the token verifies and the session row accepts it, so it can be renewed. Any other
  answer leaves the tables as they were and sets no cookie.
\<close>

theorem login_opens_session:
  assumes lib: "jwt_library (srv_jwt srv)" and run: "loginUser srv rq bound valid w = (r, w')"
  defines "d \<equiv> tables (db_conn w)"
  shows "case r of
      Inl e \<Rightarrow> tables (db_conn w') = d \<and> set_cookies w' = set_cookies w
    | Inr (st, body) \<Rightarrow> st = 200 \<and> (\<exists>req u ck p x.
        bound = Some req \<and> find_user (lrq_username req) d = Some u \<and>
        srv_check srv (lrq_password req) (usr_hashed_password u) \<and> usr_is_email_verified u \<and>
        lrs_user body = newUserResponse u \<and>
        tables (db_conn w') = d\<lparr>sessions := sessions d @ [x]\<rparr> \<and>
        find_session (pl_id p) (tables (db_conn w')) = Some x \<and> ses_username x = usr_username u \<and>
        ses_refresh_token x = srv_digest srv (ck_value ck) \<and> \<not> ses_is_blocked x \<and>
        set_cookies w' = set_cookies w @ [ck] \<and> ck_http_only ck \<and> ck_same_site ck = ''Strict'' \<and>
        (\<forall>rq2. rq_now rq2 < ck_expires ck \<longrightarrow>
           VerifyToken (srv_jwt srv) (srv_key srv) (rq_now rq2) (ck_value ck) Refresh = Inr p \<and>
           session_accepts (rotation srv rq2 (ck_value ck) p) x))"
proof (cases r)
  case (Inl e)
  then show ?thesis using run loginUser_Inl unfolding d_def by fastforce
next
  case (Inr a)
  obtain st body where a: "a = (st, body)" by fastforce
  from run Inr a have "loginUser srv rq bound valid w = (Inr (st, body), w')" by simp
  then show ?thesis
  proof (cases rule: loginUser_Inr)
    case (1 req u tk x)
    let ?p = "tp_refresh_payload tk" and ?ck = "refresh_cookie srv tk"
    have ck: "ck_value ?ck = tp_refresh tk" "ck_expires ?ck = expiry_of ?p" "ck_http_only ?ck"
      "ck_same_site ?ck = ''Strict''" by (simp_all add: refresh_cookie_def)
    have "session_accepts (rotation srv rq2 (tp_refresh tk) ?p) x" if "rq_now rq2 < expiry_of ?p" for rq2
      using that 1 issueTokenPair_refresh [OF 1(6)] by (simp add: session_accepts_def rotation_def)
    moreover have "find_session (pl_id ?p) (tables (db_conn w')) = Some x"
      using find_session_snoc [of "pl_id ?p" "tables (db_conn w)" x] 1 by simp
    ultimately show ?thesis
      using 1 Inr a ck refresh_verifies [OF lib 1(6)] unfolding d_def by fastforce
  qed
qed

section \<open>Renewal\<close>

lemma renewToken_Inr:
  assumes "renewToken srv rq (GotCookie raw) w = (Inr (st, body), w')"
  obtains p u tk y where
    "VerifyToken (srv_jwt srv) (srv_key srv) (rq_now rq) raw Refresh = Inr p"
    "find_user (pl_username p) (tables (db_conn w)) = Some u" "usr_is_email_verified u"
    "issueTokenPairWithRefreshID srv rq (pl_id p) (pl_username p) (pl_role p) = Inr tk"
    "rotated (rotation srv rq raw p) (tables (db_conn w)) y (tables (db_conn w'))"
    "set_cookies w' = set_cookies w @ [refresh_cookie srv tk]"
    "st = 200" "\<exists>b. body = Some b \<and> rrs_access_token b = tp_access tk \<and> rrs_user b = newUserResponse u"
proof -
  from assms obtain p u tk y s1 where p: "VerifyToken (srv_jwt srv) (srv_key srv) (rq_now rq) raw Refresh = Inr p"
    and u: "find_user (pl_username p) (tables (db_conn w)) = Some u" "usr_is_email_verified u"
    and y: "RotateSessionTx (srv_env srv) (rotation srv rq raw p) (step_tick (db_conn w)) = (Inr y, s1)"
    and tk: "issueTokenPairWithRefreshID srv rq (pl_id p) (pl_username p) (pl_role p) = Inr tk"
    and w': "db_conn w' = s1" "set_cookies w' = set_cookies w @ [refresh_cookie srv tk]"
    and b: "st = 200" "\<exists>b. body = Some b \<and> rrs_access_token b = tp_access tk \<and> rrs_user b = newUserResponse u"
    by (auto simp: renewToken_def andthen_Inr on_db_eq GetUser_eq setRefreshCookie_eq ret_def split: if_splits)
  from y have "rotated (rotation srv rq raw p) (tables (db_conn w)) y (tables (db_conn w'))"
    by (cases rule: RotateSessionTx_outcome) (use w' in auto)
  then show ?thesis using that [OF p u tk _ w'(2) b] by blast
qed

text \<open>A renewal that is refused leaves the tables alone, or lost the acknowledgement of its commit.\<close>

lemma renewToken_refused:
  assumes run: "renewToken srv rq (GotCookie raw) w = (r, w')"
    and p: "\<And>t p. VerifyToken (srv_jwt srv) (srv_key srv) t raw Refresh = Inr p \<Longrightarrow>
      \<forall>x. find_session (pl_id p) (tables (db_conn w)) = Some x \<longrightarrow>
        ses_is_blocked x \<or> ses_refresh_token x \<noteq> srv_digest srv raw"
  shows "isl r \<and> tables (db_conn w') = tables (db_conn w)"
proof (cases r)
  case (Inr a)
  obtain st body where "a = (st, body)" by fastforce
  with run Inr have "renewToken srv rq (GotCookie raw) w = (Inr (st, body), w')" by simp
  then show ?thesis
    by (cases rule: renewToken_Inr) (use p in \<open>auto simp: rotated_def session_accepts_def rotation_def\<close>)
next
  case (Inl e)
  have "tables s' = tables s" if "RotateSessionTx (srv_env srv) (rotation srv rq raw q) s = (r1, s')"
    "tables s = tables (db_conn w)" "VerifyToken (srv_jwt srv) (srv_key srv) (rq_now rq) raw Refresh = Inr q"
    for q r1 s s'
    using that(1)
    by (cases rule: RotateSessionTx_outcome)
      (use p [OF that(3)] that(2) in \<open>auto simp: rotated_def session_accepts_def rotation_def\<close>)
  then show ?thesis
    using run Inl
    by (auto simp: renewToken_def andthen_def map_error_def lift_res_def raise_def ret_def on_db_def
        Let_def setRefreshCookie_eq clearRefreshCookie_def add_cookie_def GetUser_eq
        dest!: run_error_tables split: prod.splits sum.splits if_splits)
qed

text \<open>What any renewal does to the tables: nothing, or the rotation of the session its cookie names.\<close>

lemma renewToken_tables:
  assumes run: "renewToken srv rq ck w = (r, w')"
  obtains (same) "tables (db_conn w') = tables (db_conn w)"
    | (turned) raw q y where "ck = GotCookie raw" "VerifyToken (srv_jwt srv) (srv_key srv) (rq_now rq) raw Refresh = Inr q"
        "rotated (rotation srv rq raw q) (tables (db_conn w)) y (tables (db_conn w'))"
proof (cases "\<exists>raw q. ck = GotCookie raw \<and> VerifyToken (srv_jwt srv) (srv_key srv) (rq_now rq) raw Refresh = Inr q")
  case False
  then have "db_conn w' = db_conn w"
    using run by (auto simp: renewToken_def andthen_def lift_res_def raise_def ret_def split: cookie_read.splits sum.splits)
  then show thesis using same by simp
next
  case True
  then obtain raw q where q: "ck = GotCookie raw"
    "VerifyToken (srv_jwt srv) (srv_key srv) (rq_now rq) raw Refresh = Inr q" by blast
  let ?tx = "RotateSessionTx (srv_env srv) (rotation srv rq raw q)"
  have tx: "tables s1 = tables (db_conn w) \<or> (\<exists>y. rotated (rotation srv rq raw q) (tables (db_conn w)) y (tables s1))"
    if "?tx s = (r1, s1)" "tables s = tables (db_conn w)" for r1 s s1
    using that(1) by (cases rule: RotateSessionTx_outcome) (use that(2) in auto)
  have "tables (db_conn w') = tables (db_conn w) \<or>
    (\<exists>y. rotated (rotation srv rq raw q) (tables (db_conn w)) y (tables (db_conn w')))"
    using run q
    by (auto simp: renewToken_def andthen_def map_error_def lift_res_def raise_def ret_def on_db_def
        Let_def setRefreshCookie_eq clearRefreshCookie_def add_cookie_def GetUser_eq
        dest!: run_error_tables dest: tx split: prod.splits sum.splits if_splits)
  then show thesis using same turned q by blast
qed

section \<open>Logout\<close>

definition dead_cookie :: "server \<Rightarrow> cookie" where
  "dead_cookie srv =
     \<lparr>ck_name = refreshCookieName, ck_value = '''', ck_path = ''/api/v1'', ck_expires = second,
      ck_max_age = - 1, ck_http_only = True, ck_secure = SessionCookieSecure (srv_config srv),
      ck_same_site = ''Strict''\<rparr>"

lemma clearRefreshCookie_eq:
  "clearRefreshCookie srv w = (Inr (), w\<lparr>set_cookies := set_cookies w @ [dead_cookie srv]\<rparr>)"
  by (simp add: clearRefreshCookie_def add_cookie_def dead_cookie_def)

lemma BlockSession_cases:
  assumes "BlockSession env i s = (r, s')"
  obtains (blocked) x where "r = Inr x" "find_session i (tables s') = Some x" "ses_is_blocked x"
    | (missing) "r = Inl ErrNoRows" "find_session i (tables s') = None" "tables s' = tables s"
    | (failed) m where "r = Inl (DriverError m)" "tables s' = tables s"
  using assms
  by (auto simp: BlockSession_def run_sql_def update_session_def find_session_def find_replace_by
      split: option.splits)

lemma logoutUser_outcome:
  assumes run: "logoutUser srv rq ck w = (r, w')"
  shows "set_cookies w' = set_cookies w @ [dead_cookie srv] \<and>
    (r = Inr (204, ()) \<or> (\<exists>m. r = Inl (DriverError m))) \<and>
    (\<forall>raw p x. r = Inr (204, ()) \<and> ck = GotCookie raw \<and>
       VerifyToken (srv_jwt srv) (srv_key srv) (rq_now rq) raw Refresh = Inr p \<and>
       find_session (pl_id p) (tables (db_conn w')) = Some x \<longrightarrow> ses_is_blocked x)"
proof (cases "\<exists>raw p. ck = GotCookie raw \<and> VerifyToken (srv_jwt srv) (srv_key srv) (rq_now rq) raw Refresh = Inr p")
  case False
  then have "set_cookies w' = set_cookies w @ [dead_cookie srv]" "r = Inr (204, ())"
    using run
    by (auto simp: logoutUser_def Let_def handle_def lift_res_def andthen_def clearRefreshCookie_eq ret_def
        split: cookie_read.splits sum.splits)
  then show ?thesis using False by blast
next
  case True
  then obtain raw p where c: "ck = GotCookie raw" "VerifyToken (srv_jwt srv) (srv_key srv) (rq_now rq) raw Refresh = Inr p"
    by blast
  obtain r1 s1 where b: "BlockSession (srv_env srv) (pl_id p) (db_conn w) = (r1, s1)" by fastforce
  have out: "set_cookies w' = set_cookies w @ [dead_cookie srv] \<and>
    (case r1 of Inr _ \<Rightarrow> r = Inr (204, ()) | Inl e \<Rightarrow>
       if errors_is (ClassifyError e) ErrRecordNotFound then r = Inr (204, ()) else r = Inl (ClassifyError e)) \<and>
    db_conn w' = s1"
    using run c b
    by (auto simp: logoutUser_def Let_def handle_def lift_res_def andthen_def clearRefreshCookie_eq ret_def raise_def
        on_db_def split: sum.splits if_splits)
  have "\<forall>x. find_session (pl_id p) (tables s1) = Some x \<longrightarrow> ses_is_blocked x" if "r = Inr (204, ())"
    using b by (cases rule: BlockSession_cases) (use out that in auto)
  moreover have "r = Inr (204, ()) \<or> (\<exists>m. r = Inl (DriverError m))"
    using b by (cases rule: BlockSession_cases) (use out in auto)
  ultimately show ?thesis using out c by auto
qed

section \<open>Registration and resending\<close>

text \<open>
  A queue that works accepts the job, within the transaction it is called in: it stores it, or,
  since both jobs are declared unique for a period, finds the same job already stored.
  \<open>enqueued\<close> is its effect, nothing when the server has no queue.
\<close>

definition enqueued :: "server \<Rightarrow> job \<Rightarrow> db \<Rightarrow> db \<Rightarrow> bool" where
  "enqueued srv j d d' \<longleftrightarrow>
     (if srv_queue srv = None then d' = d
      else d' = d\<lparr>jobs := jobs d @ [j]\<rparr> \<or> (j \<in> set (jobs d) \<and> d' = d))"

definition queue_delivers :: "server \<Rightarrow> bool" where
  "queue_delivers srv \<longleftrightarrow> (\<forall>put j s. srv_queue srv = Some put \<longrightarrow>
     (\<exists>s'. put j s = (Inr (), s') \<and> enqueued srv j (tables s) (tables s') \<and>
        pending s' = pending s \<and> tx_start s' = tx_start s))"

lemma queue_job_ok:
  assumes "queue_delivers srv"
  obtains s' where "queue_job srv j s = (Inr (), s')" "enqueued srv j (tables s) (tables s')"
    "pending s' = pending s"
proof (cases "srv_queue srv")
  case None
  then show ?thesis using that [of s] by (simp add: queue_job_def enqueued_def ret_def)
next
  case (Some put)
  from assms [unfolded queue_delivers_def, rule_format, OF this, of j s] obtain s' where
    "put j s = (Inr (), s')" "enqueued srv j (tables s) (tables s')" "pending s' = pending s" by auto
  then show ?thesis using that [of s'] Some by (simp add: queue_job_def)
qed

lemma CreateUser_healthy:
  assumes "healthy env" "uuid_at env (tick s) \<notin> usr_id ` set (users (tables s))"
  shows "\<exists>u s'. CreateUser env un h fn em s =
    (if un \<in> usr_username ` set (users (tables s)) then (Inl (PgError ''23505'' ''users_username_key''), s')
     else if em \<in> usr_email ` set (users (tables s)) then (Inl (PgError ''23505'' ''users_email_key''), s')
     else (Inr u, s')) \<and> (un \<notin> usr_username ` set (users (tables s)) \<and>
       em \<notin> usr_email ` set (users (tables s)) \<longrightarrow> usr_username u = un \<and> pending s' = pending s)"
  using assms by (auto simp: CreateUser_def createUser_sql_def Let_def ctx_of_def)

lemma CreateUserTx_queue:
  assumes h: "healthy (srv_env srv)" and q: "queue_delivers srv"
    and id: "uuid_at (srv_env srv) (Suc (tick s)) \<notin> usr_id ` set (users (tables s))"
  obtains r s' where "CreateUserTx (srv_env srv) arg (Some (\<lambda>u. queueVerifyEmailTx srv (usr_username u))) s = (r, s')"
    "cu_username arg \<in> usr_username ` set (users (tables s)) \<Longrightarrow> r = Inl ErrUsernameExists \<and> tables s' = tables s"
    "cu_username arg \<notin> usr_username ` set (users (tables s)) \<Longrightarrow> cu_email arg \<in> usr_email ` set (users (tables s)) \<Longrightarrow>
       r = Inl ErrEmailExists \<and> tables s' = tables s"
    "cu_username arg \<notin> usr_username ` set (users (tables s)) \<Longrightarrow> cu_email arg \<notin> usr_email ` set (users (tables s)) \<Longrightarrow>
       \<exists>u. r = Inr u \<and> registered arg (tables s) u \<and>
         enqueued srv (SendVerifyEmailArgs (cu_username arg))
           ((tables s)\<lparr>users := users (tables s) @ [u]\<rparr>) (tables s')"
proof -
  let ?s = "begin_tx (srv_env srv) s" and ?f = "\<lambda>u. queueVerifyEmailTx srv (usr_username u)"
  let ?U = "cu_username arg \<in> usr_username ` set (users (tables s))"
    and ?E = "cu_email arg \<in> usr_email ` set (users (tables s))"
  obtain r s' where tx: "CreateUserTx (srv_env srv) arg (Some ?f) s = (r, s')" by fastforce
  obtain u s1 where c: "CreateUser (srv_env srv) (cu_username arg) (cu_hashed_password arg)
      (cu_full_name arg) (cu_email arg) ?s =
    (if ?U then (Inl (PgError ''23505'' ''users_username_key''), s1)
     else if ?E then (Inl (PgError ''23505'' ''users_email_key''), s1) else (Inr u, s1))"
    and u: "\<not> ?U \<Longrightarrow> \<not> ?E \<Longrightarrow> usr_username u = cu_username arg \<and> pending s1 = []"
  proof -
    have "uuid_at (srv_env srv) (tick ?s) \<notin> usr_id ` set (users (tables ?s))" using id by simp
    from CreateUser_healthy [OF h this, unfolded begin_tx_sel, of "cu_username arg" "cu_hashed_password arg"
        "cu_full_name arg" "cu_email arg"] that show thesis by metis
  qed
  have run: "(r, s') = (case user_body (srv_env srv) arg (Some ?f) ?s of
      (Inl e, s1) \<Rightarrow> (Inl e, rollback s s1) | (Inr x, s1) \<Rightarrow> (Inr x, commit (step_tick s1)))"
    using tx healthy_execTx [OF h, of "user_body (srv_env srv) arg (Some ?f)" s]
    by (simp add: CreateUserTx_def execTx_defs)
  obtain s2 where qj: "queueVerifyEmailTx srv (usr_username u) s1 = (Inr (), s2)"
    "enqueued srv (SendVerifyEmailArgs (usr_username u)) (tables s1) (tables s2)" "pending s2 = pending s1"
    using queue_job_ok [OF q] unfolding queueVerifyEmailTx_def by metis
  show thesis
  proof (rule that [OF tx])
    assume n: "\<not> ?U" "\<not> ?E"
    then have cr: "CreateUser (srv_env srv) (cu_username arg) (cu_hashed_password arg)
      (cu_full_name arg) (cu_email arg) ?s = (Inr u, s1)" using c by simp
    have "r = Inr u" "s' = commit (step_tick s2)"
      using run cr qj by (simp_all add: user_body_def andthen_def map_error_def ret_def)
    moreover have "registered arg (tables s) u" "tables s1 = (tables s)\<lparr>users := users (tables s) @ [u]\<rparr>"
      using CreateUser_Inr [OF cr] by (simp_all add: registered_def)
    ultimately show "\<exists>u. r = Inr u \<and> registered arg (tables s) u \<and>
         enqueued srv (SendVerifyEmailArgs (cu_username arg))
           ((tables s)\<lparr>users := users (tables s) @ [u]\<rparr>) (tables s')"
      using qj u n by (auto simp: publish_pending_def)
  qed (use run c in \<open>auto simp: user_body_def andthen_def map_error_def split: if_splits\<close>)
qed

lemma createUser_outcome:
  assumes h: "healthy (srv_env srv)" and q: "queue_delivers srv"
    and id: "uuid_at (srv_env srv) (Suc (tick (db_conn w))) \<notin> usr_id ` set (users (tables (db_conn w)))"
    and req: "bindValidate bound valid = Inr req" and hash: "srv_hash srv (cur_password req) = Inr hashed"
    and run: "createUser srv bound valid w = (r, w')"
  defines "d \<equiv> tables (db_conn w)"
  defines "arg \<equiv> \<lparr>cu_username = cur_username req, cu_hashed_password = hashed,
           cu_full_name = cur_full_name req, cu_email = cur_email req\<rparr>"
  shows "r = Inr (202, verificationAccepted) \<and> set_cookies w' = set_cookies w \<and>
    (if cur_username req \<in> usr_username ` set (users d) then tables (db_conn w') = d
     else if cur_email req \<in> usr_email ` set (users d)
       then enqueued srv (SendRegistrationNoticeArgs (cur_email req)) d (tables (db_conn w'))
     else (\<exists>u. registered arg d u \<and>
       enqueued srv (SendVerifyEmailArgs (cur_username req)) (d\<lparr>users := users d @ [u]\<rparr>)
         (tables (db_conn w'))))"
proof (rule CreateUserTx_queue [OF h q id, of arg])
  fix r1 s1
  let ?U = "cu_username arg \<in> usr_username ` set (users (tables (db_conn w)))"
    and ?E = "cu_email arg \<in> usr_email ` set (users (tables (db_conn w)))"
  assume tx: "CreateUserTx (srv_env srv) arg (Some (\<lambda>u. queueVerifyEmailTx srv (usr_username u))) (db_conn w) = (r1, s1)"
    and out: "?U \<Longrightarrow> r1 = Inl ErrUsernameExists \<and> tables s1 = tables (db_conn w)"
      "\<not> ?U \<Longrightarrow> ?E \<Longrightarrow> r1 = Inl ErrEmailExists \<and> tables s1 = tables (db_conn w)"
      "\<not> ?U \<Longrightarrow> \<not> ?E \<Longrightarrow> \<exists>u. r1 = Inr u \<and> registered arg (tables (db_conn w)) u \<and>
         enqueued srv (SendVerifyEmailArgs (cu_username arg))
           ((tables (db_conn w))\<lparr>users := users (tables (db_conn w)) @ [u]\<rparr>) (tables s1)"
  obtain s2 where n: "queueRegistrationNotice srv (cur_email req) s1 = (Inr (), s2)"
    "enqueued srv (SendRegistrationNoticeArgs (cur_email req)) (tables s1) (tables s2)"
    using queue_job_ok [OF q] unfolding queueRegistrationNotice_def by metis
  have arg: "cu_username arg = cur_username req" "cu_email arg = cur_email req" by (simp_all add: arg_def)
  have run': "(r, w') = handle (on_db (CreateUserTx (srv_env srv) arg
        (Some (\<lambda>u. queueVerifyEmailTx srv (usr_username u)))))
       (\<lambda>err.
          let classified = ClassifyError err in
          if errors_is classified ErrUsernameExists then ret (202, verificationAccepted)
          else if errors_is classified ErrEmailExists then
            andthen (ignore_error (on_db (queueRegistrationNotice srv (cur_email req)))) (\<lambda>_.
            ret (202, verificationAccepted))
          else raise classified)
       (\<lambda>_. ret (202, verificationAccepted)) w"
    using run req hash by (simp add: createUser_def andthen_def lift_res_def arg_def)
  show ?thesis
  proof (cases "?U \<or> ?E")
    case True
    then show ?thesis
      using run' tx out n unfolding d_def
      by (auto simp: handle_def on_db_def Let_def ret_def andthen_def ignore_error_def arg split: if_splits)
  next
    case False
    then show ?thesis
      using run' tx out(3) unfolding d_def by (auto simp: handle_def on_db_def ret_def arg)
  qed
qed

text \<open>
  C22 (safety). Registration does not reveal who is registered: on a working database and queue every
  well-formed request gets the same answer, whether the name is taken, the address is taken, or
  neither. A taken name changes nothing; a taken address only queues a notice to its holder;
  otherwise one new user, unverified, with the hashed password, is added together with its
  verification job. The rows of existing users never change.
\<close>

theorem createUser_uniform:
  assumes h: "healthy (srv_env srv)" and q: "queue_delivers srv"
    and id: "uuid_at (srv_env srv) (Suc (tick (db_conn w))) \<notin> usr_id ` set (users (tables (db_conn w)))"
    and req: "bindValidate bound valid = Inr req" and hash: "srv_hash srv (cur_password req) = Inr hashed"
    and run: "createUser srv bound valid w = (r, w')"
  defines "d \<equiv> tables (db_conn w)"
  defines "arg \<equiv> \<lparr>cu_username = cur_username req, cu_hashed_password = hashed,
           cu_full_name = cur_full_name req, cu_email = cur_email req\<rparr>"
  shows "r = Inr (202, verificationAccepted) \<and> set_cookies w' = set_cookies w \<and>
    (if cur_username req \<in> usr_username ` set (users d) then tables (db_conn w') = d
     else if cur_email req \<in> usr_email ` set (users d)
       then enqueued srv (SendRegistrationNoticeArgs (cur_email req)) d (tables (db_conn w'))
     else (\<exists>u. registered arg d u \<and>
       enqueued srv (SendVerifyEmailArgs (cur_username req)) (d\<lparr>users := users d @ [u]\<rparr>)
         (tables (db_conn w'))))"
  unfolding d_def arg_def by (rule createUser_outcome [OF assms(1-6)])

text \<open>
  Asking for another verification mail reveals nothing either: on a working database every
  well-formed request gets the same answer, and a mail is queued exactly when the address belongs to a
  user who has not verified it; nothing else changes.
\<close>

theorem resend_uniform:
  assumes h: "healthy (srv_env srv)" and q: "queue_delivers srv"
    and req: "bindValidate bound valid = Inr email"
    and run: "resendVerifyEmail srv bound valid w = (r, w')"
  shows "r = Inr (202, verificationAccepted) \<and> set_cookies w' = set_cookies w \<and>
    (case find (\<lambda>u. usr_email u = email) (users (tables (db_conn w))) of
       Some u \<Rightarrow> if usr_is_email_verified u then tables (db_conn w') = tables (db_conn w)
                 else enqueued srv (SendVerifyEmailArgs (usr_username u)) (tables (db_conn w)) (tables (db_conn w'))
     | None \<Rightarrow> tables (db_conn w') = tables (db_conn w))"
proof (cases "find (\<lambda>u. usr_email u = email) (users (tables (db_conn w)))")
  case None
  then show ?thesis
    using h req run
    by (auto simp: resendVerifyEmail_def andthen_def lift_res_def handle_def on_db_def GetUserByEmail_def
        query_row_def ret_def)
next
  case (Some u)
  obtain s2 where "queueVerifyEmail srv (usr_username u) (step_tick (db_conn w)) = (Inr (), s2)"
    "enqueued srv (SendVerifyEmailArgs (usr_username u)) (tables (db_conn w)) (tables s2)"
    using queue_job_ok [OF q] unfolding queueVerifyEmail_def by (metis step_tick_sel(1))
  then show ?thesis
    using h req run Some
    by (auto simp: resendVerifyEmail_def andthen_def lift_res_def handle_def on_db_def GetUserByEmail_def
        query_row_def ret_def ignore_error_def split: if_splits)
qed

end
