(* ===== verification/Api_User_Witnesses.thy ===== *)
theory Api_User_Witnesses
  imports Api_User Api_Account
begin

text \<open>
  A server on which the user handlers run, and the witnesses of their properties: Alice, with a
  verified address, logs in, renews and logs out; Carol registers; Bob asks for another mail.
\<close>

definition old_claims :: payload where
  "old_claims = (sample_claims Refresh)\<lparr>pl_nonce := ''old''\<rparr>"

definition user_lib :: jwt_lib where
  "user_lib = table_lib [(sample_claims Access, ''.a''), (sample_claims Refresh, ''.r''), (old_claims, ''.old'')]"

definition user_server :: server where
  "user_server = \<lparr>srv_config = sample_config\<lparr>RefreshTTL := 900 * second\<rparr>, srv_env = sample_env,
     srv_jwt = user_lib, srv_key = sample_key, srv_queue = Some sample_enqueue,
     srv_hash = (\<lambda>p. Inr (''bcrypt:'' @ p)),
     srv_check = (\<lambda>p h. h = ''hash'' \<and> p = ''open sesame''), srv_digest = (\<lambda>t. ''sha:'' @ t)\<rparr>"

definition user_request :: "time \<Rightarrow> request" where
  "user_request t = \<lparr>rq_now = t, rq_user_agent = ''agent'', rq_client_ip = ''::1'',
     rq_access_mint = sample_mint\<lparr>mint_id := 20\<rparr>, rq_refresh_mint = sample_mint\<lparr>mint_id := 20\<rparr>\<rparr>"

abbreviation old_cookie :: string where "old_cookie \<equiv> sample_key @ ''.old''"

definition web_start :: "session list \<Rightarrow> web" where
  "web_start ss = \<lparr>db_conn = connect_db (sample_db\<lparr>users :=
       [(sample_user 1 ''alice'')\<lparr>usr_is_email_verified := True\<rparr>, sample_user 2 ''bob''],
     sessions := ss\<rparr>), set_cookies = []\<rparr>"

definition alice_login :: login_request where
  "alice_login = \<lparr>lrq_username = ''alice'', lrq_password = ''open sesame''\<rparr>"

abbreviation login_call :: "web \<Rightarrow> (go_error + login_response response) \<times> web" where
  "login_call \<equiv> loginUser user_server (user_request second) (Some alice_login) (\<lambda>_. True)"

abbreviation renew_call :: "web \<Rightarrow> (go_error + renew_response option response) \<times> web" where
  "renew_call \<equiv> renewToken user_server (user_request (2 * second)) (GotCookie old_cookie)"

lemma user_lib_ok: "jwt_library (srv_jwt user_server)"
proof -
  have "distinct [sample_claims Access, sample_claims Refresh, old_claims]"
    by (simp add: old_claims_def sample_claims_def Access_def Refresh_def) code_simp
  then have "jwt_library user_lib"
    unfolding user_lib_def by (intro table_lib_ok) simp_all
  then show ?thesis by (simp add: user_server_def)
qed

definition user_pair :: token_pair where
  "user_pair = \<lparr>tp_access = sample_key @ ''.a'', tp_access_payload = sample_claims Access,
     tp_refresh = sample_key @ ''.r'', tp_refresh_payload = sample_claims Refresh\<rparr>"

lemma user_signs:
  "sign user_lib key (sample_claims Access) = Inr (key @ ''.a'')"
  "sign user_lib key (sample_claims Refresh) = Inr (key @ ''.r'')"
  by (simp_all add: user_lib_def table_lib_def sample_claims_def Access_def Refresh_def)

lemma user_payload:
  "NewPayloadWithID user_lib (sample_mint\<lparr>mint_id := 20\<rparr>) 20 ''alice'' ''depositor'' ty (900 * second) = sample_claims ty"
proof -
  have "numeric_date user_lib (10 * second + 7) = 10 * second"
    "numeric_date user_lib (10 * second + 7 + 900 * second) = 910 * second"
    by (simp_all add: user_lib_def table_lib_def second_def)
  then show ?thesis by (simp add: NewPayloadWithID_def sample_claims_def sample_mint_def)
qed

lemma user_issues:
  "issueTokenPairWithRefreshID user_server (user_request t) 0 ''alice'' roleDepositor = Inr user_pair"
  "issueTokenPairWithRefreshID user_server (user_request t) 20 ''alice'' ''depositor'' = Inr user_pair"
  by (simp_all add: issueTokenPairWithRefreshID_def CreateToken_def CreateTokenWithID_def NewPayload_def
      user_server_def user_request_def user_payload user_signs signPayload_def roleDepositor_def user_pair_def
      sample_config_def)

lemma user_expiry: "expiry_of (sample_claims ty) = 910 * second"
  by (simp add: expiry_of_def sample_claims_def)

lemma user_server_sel [simp]:
  "srv_env user_server = sample_env" "srv_jwt user_server = user_lib" "srv_key user_server = sample_key"
  "srv_queue user_server = Some sample_enqueue" "srv_hash user_server p = Inr (''bcrypt:'' @ p)"
  "srv_check user_server p h \<longleftrightarrow> h = ''hash'' \<and> p = ''open sesame''"
  "srv_digest user_server tok = ''sha:'' @ tok"
  by (simp_all add: user_server_def)

lemma sample_healthy: "healthy sample_env"
  by (simp add: healthy_def sample_env_def)

lemma web_start_cookies [simp]: "set_cookies (web_start ss) = []"
  by (simp add: web_start_def)

lemma find_alice:
  "find_user ''alice'' (tables (db_conn (web_start ss))) = Some ((sample_user 1 ''alice'')\<lparr>usr_is_email_verified := True\<rparr>)"
  by (simp add: find_user_def web_start_def sample_user_def)

lemma login_ok: "\<not> isl (fst (login_call (web_start [])))"
  using find_alice [of "[]"]
  by (simp add: loginUser_def andthen_def handle_def lift_res_def bindValidate_def cv_Validate_def on_db_def GetUser_def
      sample_healthy query_row_def alice_login_def issueTokenPair_def user_issues sample_user_def map_error_def
      CreateSession_def createSession_sql_def Let_def setRefreshCookie_def add_cookie_def ret_def user_pair_def
      web_start_def)

definition live_session :: session where
  "live_session = sample_session\<lparr>ses_refresh_token := ''sha:'' @ old_cookie\<rparr>"

lemma old_verifies:
  assumes "t < 910 * second"
  shows "VerifyToken user_lib sample_key t old_cookie Refresh = Inr old_claims"
proof -
  have "decode user_lib sample_key old_cookie = Some old_claims" by (simp add: user_lib_def table_lib_def)
  then show ?thesis
    using assms
    by (simp add: VerifyToken_def token_expired_def not_yet_valid_def validate_payload_def old_claims_def
        sample_claims_def Refresh_def Access_def)
qed

lemma renew_ok:
  "\<not> isl (fst (renew_call (web_start [live_session]))) \<and>
   map ck_value (set_cookies (snd (renew_call (web_start [live_session])))) = [sample_key @ ''.r'']"
proof -
  have "VerifyToken user_lib sample_key (2 * second) old_cookie Refresh = Inr old_claims"
    by (rule old_verifies) (simp add: second_def)
  moreover have "pl_id old_claims = 20" "pl_username old_claims = ''alice''" "pl_role old_claims = ''depositor''"
    by (simp_all add: old_claims_def sample_claims_def)
  moreover have "find_session 20 (tables (db_conn (web_start [live_session]))) = Some live_session"
    by (simp add: find_session_def web_start_def live_session_def sample_session_def)
  ultimately show ?thesis
    using find_alice [of "[live_session]"] user_expiry [of Refresh]
    by (simp add: renewToken_def andthen_def handle_def lift_res_def on_db_def GetUser_def sample_healthy
        query_row_def map_error_def RotateSessionTx_def healthy_execTx rotate_body_def GetSessionForUpdate_def
        hold_def ret_def session_accepts_def rotation_def user_request_def live_session_def sample_session_def
        second_def replacement_def user_issues [unfolded user_request_def] user_pair_def RotateSession_def update_session_def
        setRefreshCookie_def add_cookie_def Let_def sample_claims_def)
qed

section \<open>Witnesses\<close>

theorem login_opens_session_witness:
  "\<exists>ck x. set_cookies (snd (login_call (web_start []))) = [ck] \<and>
     sessions (tables (db_conn (snd (login_call (web_start []))))) = [x] \<and>
     ses_refresh_token x = ''sha:'' @ ck_value ck"
proof -
  obtain a where "fst (login_call (web_start [])) = Inr a"
    using login_ok by (cases "fst (login_call (web_start []))") auto
  then show ?thesis
    using login_opens_session [OF user_lib_ok prod.collapse [symmetric], of "user_request second" "Some alice_login"
        "\<lambda>_. True" "web_start []"]
    by (cases a) (auto simp: web_start_def)
qed

abbreviation logout_call :: "web \<Rightarrow> (go_error + unit response) \<times> web" where
  "logout_call \<equiv> logoutUser user_server (user_request (2 * second)) (GotCookie old_cookie)"

lemma logout_ok: "fst (logout_call (web_start [live_session])) = Inr (204, ())"
  using old_verifies [of "2 * second"]
  by (simp add: logoutUser_def Let_def handle_def lift_res_def user_request_def second_def on_db_def BlockSession_def
      sample_healthy update_session_def find_session_def web_start_def live_session_def sample_session_def
      old_claims_def sample_claims_def andthen_def clearRefreshCookie_eq ret_def)

lemma sample_queue_delivers: "queue_delivers user_server"
  by (simp add: queue_delivers_def enqueued_def sample_enqueue_def sample_healthy)

definition sign_up :: "string \<Rightarrow> string \<Rightarrow> create_user_request" where
  "sign_up name email = \<lparr>cur_username = name, cur_password = ''a long enough password'',
     cur_full_name = name, cur_email = email\<rparr>"

abbreviation sign_up_call :: "string \<Rightarrow> string \<Rightarrow> (go_error + string response) \<times> web" where
  "sign_up_call name email \<equiv> createUser user_server (Some (sign_up name email)) (\<lambda>_. True) (web_start [])"

lemma sample_ids: "uuid_at (srv_env user_server) (Suc (tick (db_conn (web_start ss)))) \<notin>
    usr_id ` set (users (tables (db_conn (web_start ss))))"
  by (simp add: sample_env_def web_start_def sample_user_def)

theorem createUser_uniform_witness:
  "fst (sign_up_call ''carol'' ''carol@example.org'') = fst (sign_up_call ''alice'' ''x@example.org'') \<and>
   tables (db_conn (snd (sign_up_call ''alice'' ''x@example.org''))) = tables (db_conn (web_start [])) \<and>
   jobs (tables (db_conn (snd (sign_up_call ''carol'' ''carol@example.org'')))) = [SendVerifyEmailArgs ''carol''] \<and>
   jobs (tables (db_conn (snd (sign_up_call ''carol'' ''bob@example.org'')))) = [SendRegistrationNoticeArgs ''bob@example.org'']"
proof -
  have req: "bindValidate (Some (sign_up n e)) (\<lambda>_. True) = Inr (sign_up n e)" for n e
    by (simp add: bindValidate_def cv_Validate_def)
  have hash: "srv_hash user_server (cur_password (sign_up n e)) = Inr (''bcrypt:'' @ ''a long enough password'')" for n e
    by (simp add: sign_up_def)
  have h: "healthy (srv_env user_server)" by (simp add: sample_healthy)
  note use = createUser_uniform [OF h sample_queue_delivers sample_ids [of "[]"] req hash prod.collapse [symmetric]]
  show ?thesis
    using use [of "''carol''" "''carol@example.org''"] use [of "''alice''" "''x@example.org''"]
      use [of "''carol''" "''bob@example.org''"]
    by (auto simp: sign_up_def web_start_def sample_user_def enqueued_def sample_db_def empty_db_def)
qed

abbreviation resend_call :: "string \<Rightarrow> (go_error + string response) \<times> web" where
  "resend_call email \<equiv> resendVerifyEmail user_server (Some email) (\<lambda>_. True) (web_start [])"

theorem resend_uniform_witness:
  "fst (resend_call ''bob@example.org'') = fst (resend_call ''nobody@example.org'') \<and>
   jobs (tables (db_conn (snd (resend_call ''bob@example.org'')))) = [SendVerifyEmailArgs ''bob''] \<and>
   jobs (tables (db_conn (snd (resend_call ''alice@example.org'')))) = []"
proof -
  have req: "bindValidate (Some e) (\<lambda>_. True) = Inr e" for e :: string by (simp add: bindValidate_def cv_Validate_def)
  note use = resend_uniform [OF _ sample_queue_delivers req prod.collapse [symmetric]]
  show ?thesis
    using use [of "''bob@example.org''" "web_start []"] use [of "''nobody@example.org''" "web_start []"]
      use [of "''alice@example.org''" "web_start []"] sample_healthy
    by (simp add: web_start_def sample_user_def enqueued_def sample_db_def empty_db_def)
qed

end
