(* ===== verification/Base64.thy ===== *)
theory Base64
  imports Prelude
begin

text \<open>
  \<open>base64.RawURLEncoding\<close> of Go's standard library, as the notification cursor uses it: the URL
  alphabet, no padding, carriage returns and line feeds in the input skipped, and, in strict mode,
  the unused low bits of the last digit required to be zero. A Go string is the list of its bytes.
\<close>

definition b64_alphabet :: string where
  "b64_alphabet = ''ABCDEFGHIJKLMNOPQRSTUVWXYZabcdefghijklmnopqrstuvwxyz0123456789-_''"

definition b64_char :: "nat \<Rightarrow> char" where
  "b64_char v = b64_alphabet ! v"

definition b64_value :: "char \<Rightarrow> nat option" where
  "b64_value c = find (\<lambda>v. b64_char v = c) [0..<64]"

section \<open>Bytes and digits\<close>

fun to_digits :: "nat list \<Rightarrow> nat list" where
  "to_digits [] = []"
| "to_digits [a] = [a div 4, a mod 4 * 16]"
| "to_digits [a, b] = [a div 4, a mod 4 * 16 + b div 16, b mod 16 * 4]"
| "to_digits (a # b # c # r) =
     [a div 4, a mod 4 * 16 + b div 16, b mod 16 * 4 + c div 64, c mod 64] @ to_digits r"

fun of_digits :: "nat list \<Rightarrow> nat list option" where
  "of_digits [] = Some []"
| "of_digits [v] = None"
| "of_digits [v, w] = (if w mod 16 = 0 then Some [v * 4 + w div 16] else None)"
| "of_digits [v, w, x] =
     (if x mod 4 = 0 then Some [v * 4 + w div 16, w mod 16 * 16 + x div 4] else None)"
| "of_digits (v # w # x # y # r) =
     map_option (\<lambda>bs. [v * 4 + w div 16, w mod 16 * 16 + x div 4, x mod 4 * 64 + y] @ bs) (of_digits r)"

definition b64_encode :: "string \<Rightarrow> string" where
  "b64_encode raw = map b64_char (to_digits (map of_char raw))"

definition b64_decode :: "string \<Rightarrow> string option" where
  "b64_decode str =
     (case those (map b64_value (filter (\<lambda>c. c \<noteq> CHR 0x0D \<and> c \<noteq> CHR 0x0A) str)) of
        None \<Rightarrow> None
      | Some vs \<Rightarrow> map_option (map char_of) (of_digits vs))"

section \<open>Decoding inverts encoding\<close>

lemma b64_all: "\<forall>v \<in> set [0..<64]. b64_value (b64_char v) = Some v \<and> b64_char v \<noteq> CHR 0x0D \<and> b64_char v \<noteq> CHR 0x0A"
  by code_simp

lemma b64_value_char [simp]: "v < 64 \<Longrightarrow> b64_value (b64_char v) = Some v"
  using b64_all by simp

lemma b64_char_line [simp]: "v < 64 \<Longrightarrow> b64_char v \<noteq> CHR 0x0D" "v < 64 \<Longrightarrow> b64_char v \<noteq> CHR 0x0A"
  using b64_all by simp_all

lemma b64_char_value: "b64_value c = Some v \<Longrightarrow> v < 64 \<and> b64_char v = c"
  using find_Some_set [of "\<lambda>v. b64_char v = c" "[0..<64]" v] by (simp add: b64_value_def)

lemma to_digits_small: "\<forall>b \<in> set bs. b < 256 \<Longrightarrow> \<forall>v \<in> set (to_digits bs). v < 64"
  by (induction bs rule: to_digits.induct) auto

lemma of_to_digits: "\<forall>b \<in> set bs. b < 256 \<Longrightarrow> of_digits (to_digits bs) = Some bs"
  by (induction bs rule: to_digits.induct) auto

lemma to_of_digits:
  "\<forall>v \<in> set vs. v < 64 \<Longrightarrow> of_digits vs = Some bs \<Longrightarrow> to_digits bs = vs \<and> (\<forall>b \<in> set bs. b < 256)"
  by (induction vs arbitrary: bs rule: of_digits.induct) (auto split: if_splits)

lemma those_map: "those (map f xs) = Some ys \<longleftrightarrow> list_all2 (\<lambda>x y. f x = Some y) xs ys"
  by (induction xs arbitrary: ys) (auto simp: list_all2_Cons1 split: option.split)

lemma bytes_small: "\<forall>b \<in> set (map (of_char :: char \<Rightarrow> nat) raw). b < 256"
  by auto

theorem b64_roundtrip: "b64_decode (b64_encode raw) = Some raw"
proof -
  let ?ds = "to_digits (map of_char raw)"
  have small: "\<forall>v \<in> set ?ds. v < 64" by (rule to_digits_small [OF bytes_small])
  then have "filter (\<lambda>c. c \<noteq> CHR 0x0D \<and> c \<noteq> CHR 0x0A) (map b64_char ?ds) = map b64_char ?ds"
    by (intro filter_True) auto
  moreover have "those (map b64_value (map b64_char ?ds)) = Some ?ds"
    using small by (auto simp: those_map list_all2_conv_all_nth)
  moreover have "map char_of (map of_char raw :: nat list) = raw" by (simp add: map_idI)
  ultimately show ?thesis
    by (simp add: b64_decode_def b64_encode_def of_to_digits [OF bytes_small])
qed

text \<open>Strict mode: a string that decodes is the encoding of what it decodes to, up to line breaks.\<close>

theorem b64_canonical:
  assumes "b64_decode str = Some raw"
  shows "filter (\<lambda>c. c \<noteq> CHR 0x0D \<and> c \<noteq> CHR 0x0A) str = b64_encode raw"
proof -
  let ?cs = "filter (\<lambda>c. c \<noteq> CHR 0x0D \<and> c \<noteq> CHR 0x0A) str"
  from assms obtain vs bs where vs: "those (map b64_value ?cs) = Some vs"
    and bs: "of_digits vs = Some bs" and raw: "raw = map char_of bs"
    by (auto simp: b64_decode_def split: option.splits)
  from vs have l: "list_all2 (\<lambda>c v. b64_value c = Some v) ?cs vs" by (simp add: those_map)
  then have "list_all (\<lambda>v. v < 64) vs" by (induction rule: list_all2_induct) (auto dest: b64_char_value)
  then have "\<forall>v \<in> set vs. v < 64" by (simp add: list_all_iff)
  from to_of_digits [OF this bs] have ds: "to_digits bs = vs" and small: "\<forall>b \<in> set bs. b < 256" by auto
  have "map of_char raw = bs" using small by (simp add: raw map_idI)
  moreover have "map b64_char vs = ?cs"
    using l by (intro nth_equalityI) (auto simp: list_all2_conv_all_nth dest: b64_char_value)
  ultimately show ?thesis by (simp add: b64_encode_def ds)
qed

end
