(* ===== verification/Api_Notification.thy ===== *)
theory Api_Notification
  imports Api_Core Api_Errors Notification_Tx Base64
begin

text \<open>
  \<open>internal/api/notification.go\<close> without its event stream: the pages of notifications with
  their opaque cursors, and the two marks. A cursor is the JSON text of an instant and an
  identifier in base64; the JSON library is an argument, as in \<open>Config\<close>: \<open>marshal\<close>, and the two
  reads \<open>decode_first\<close> and \<open>decode_next\<close> of one decoder.
\<close>

section \<open>Cursors\<close>

record notification_cursor =
  cur_created_at :: time
  cur_id :: uuid

definition errInvalidNotificationCursor :: go_error where
  "errInvalidNotificationCursor = PlainError ''invalid notification cursor''"

definition decodeNotificationCursor ::
  "(string \<Rightarrow> go_error + (notification_cursor \<times> string)) \<Rightarrow> (string \<Rightarrow> json_next) \<Rightarrow> string
    \<Rightarrow> go_error + notification_cursor" where
  "decodeNotificationCursor decode_first decode_next v =
     (case b64_decode v of
        None \<Rightarrow> Inl (PlainError ''illegal base64 data'')
      | Some raw \<Rightarrow>
          (case decode_first raw of
             Inl err \<Rightarrow> Inl err
           | Inr (cursor, rest) \<Rightarrow>
               if decode_next rest \<noteq> Next_EOF then Inl errInvalidNotificationCursor
               else if cur_created_at cursor = zero_time \<or> cur_id cursor = nil_uuid
                 then Inl errInvalidNotificationCursor
               else Inr cursor))"

definition encodeNotificationCursor ::
  "(notification_cursor \<Rightarrow> go_error + string) \<Rightarrow> notification_cursor \<Rightarrow> go_error + string" where
  "encodeNotificationCursor marshal cursor =
     (case marshal cursor of Inl err \<Rightarrow> Inl err | Inr raw \<Rightarrow> Inr (b64_encode raw))"

definition invalidNotificationCursor :: go_error where
  "invalidNotificationCursor =
     ApiError 400 ''invalid_notification_cursor'' ''invalid notification cursor''"

text \<open>What is documented of the JSON library: a marshalled value is read back, up to its end.\<close>

record cursor_json =
  cj_marshal :: "notification_cursor \<Rightarrow> go_error + string"
  cj_first :: "string \<Rightarrow> go_error + (notification_cursor \<times> string)"
  cj_next :: "string \<Rightarrow> json_next"

definition json_library :: "cursor_json \<Rightarrow> bool" where
  "json_library j \<longleftrightarrow> (\<forall>c raw. cj_marshal j c = Inr raw \<longrightarrow>
     (\<exists>rest. cj_first j raw = Inr (c, rest) \<and> cj_next j rest = Next_EOF))"

section \<open>Handlers\<close>

record notification_response =
  nrs_id :: uuid
  nrs_account_id :: uuid
  nrs_transfer_id :: uuid
  nrs_direction :: string
  nrs_amount :: int
  nrs_currency :: string
  nrs_balance :: int
  nrs_read_at :: "time option"
  nrs_created_at :: time

definition newNotificationResponse :: "notification \<Rightarrow> notification_response" where
  "newNotificationResponse n =
     \<lparr>nrs_id = ntf_id n, nrs_account_id = ntf_account_id n, nrs_transfer_id = ntf_transfer_id n,
      nrs_direction = ntf_direction n, nrs_amount = ntf_amount n, nrs_currency = ntf_currency n,
      nrs_balance = ntf_balance n, nrs_read_at = ntf_read_at n, nrs_created_at = ntf_created_at n\<rparr>"

record list_notifications_response =
  lnr_notifications :: "notification_response list"
  lnr_unread_count :: int
  lnr_next_cursor :: "string option"

text \<open>\<open>cursors\<close> are the values of the query parameter \<open>cursor\<close>, if it is present at all.\<close>

definition page_cursor :: "cursor_json \<Rightarrow> string list option \<Rightarrow> go_error + notification_cursor option" where
  "page_cursor j cursors =
     (case cursors of
        None \<Rightarrow> Inr None
      | Some [v] \<Rightarrow>
          (case decodeNotificationCursor (cj_first j) (cj_next j) v of
             Inl _ \<Rightarrow> Inl invalidNotificationCursor
           | Inr c \<Rightarrow> Inr (Some c))
      | Some _ \<Rightarrow> Inl invalidNotificationCursor)"

definition next_cursor :: "cursor_json \<Rightarrow> page_result \<Rightarrow> go_error + string option" where
  "next_cursor j page =
     (if pgr_has_more page \<and> 0 < length (pgr_notifications page) then
        (let n = pgr_notifications page ! (length (pgr_notifications page) - 1) in
         map_sum id Some (encodeNotificationCursor (cj_marshal j)
           \<lparr>cur_created_at = ntf_created_at n, cur_id = ntf_id n\<rparr>))
      else Inr None)"

definition listNotifications ::
  "cursor_json \<Rightarrow> pg_env \<Rightarrow> go_error + int \<Rightarrow> string list option \<Rightarrow> payload option
    \<Rightarrow> list_notifications_response response pg_op" where
  "listNotifications j env size_param cursors auth =
     (case size_param of
        Inl _ \<Rightarrow> raise (ApiError 400 ''invalid_size'' ''invalid size'')
      | Inr sz0 \<Rightarrow>
          let sz = (if sz0 < 1 then 20 else sz0);
              sz = min sz 100 in
          andthen (lift_res (page_cursor j cursors)) (\<lambda>c.
          andthen (lift_res (authPayload auth)) (\<lambda>p.
          andthen (ListNotificationsPage env
            \<lparr>pg_owner = pl_username p, pg_has_cursor = (c \<noteq> None),
             pg_cursor_created_at = (case c of Some x \<Rightarrow> cur_created_at x | None \<Rightarrow> zero_time),
             pg_cursor_id = (case c of Some x \<Rightarrow> cur_id x | None \<Rightarrow> nil_uuid), pg_limit = sz\<rparr>) (\<lambda>page.
          andthen (lift_res (next_cursor j page)) (\<lambda>nc.
          ret (200, \<lparr>lnr_notifications = map newNotificationResponse (pgr_notifications page),
                     lnr_unread_count = pgr_unread_count page, lnr_next_cursor = nc\<rparr>))))))"

definition markNotificationRead ::
  "(string \<Rightarrow> go_error + uuid) \<Rightarrow> pg_env \<Rightarrow> string \<Rightarrow> payload option \<Rightarrow> int response pg_op" where
  "markNotificationRead parse_uuid env param auth =
     (case parse_uuid param of
        Inl _ \<Rightarrow> raise (ApiError 400 ''invalid_notification_id'' ''invalid notification id'')
      | Inr i \<Rightarrow>
          andthen (lift_res (authPayload auth)) (\<lambda>p.
          andthen (MarkNotificationReadTx env (pl_username p) i) (\<lambda>unread. ret (200, unread))))"

definition markAllNotificationsRead :: "pg_env \<Rightarrow> payload option \<Rightarrow> int response pg_op" where
  "markAllNotificationsRead env auth =
     andthen (lift_res (authPayload auth)) (\<lambda>p.
     andthen (MarkAllNotificationsReadTx env (pl_username p)) (\<lambda>unread. ret (200, unread)))"

section \<open>Cursors are read back\<close>

text \<open>
  C29 (roundtrip). The cursor handed out with a page is the one understood on the next request:
  encoding and then decoding an instant and identifier gives them back, unless one of them is the zero
  value, which the server refuses. Whatever string is accepted as a cursor is the
  base64 text, up to line breaks, of the JSON it was read from, and names a time and an identifier.
\<close>

theorem cursor_roundtrip:
  assumes "json_library j"
  shows "(encodeNotificationCursor (cj_marshal j) c = Inr v \<longrightarrow>
      decodeNotificationCursor (cj_first j) (cj_next j) v =
        (if cur_created_at c = zero_time \<or> cur_id c = nil_uuid then Inl errInvalidNotificationCursor
         else Inr c)) \<and>
    (decodeNotificationCursor (cj_first j) (cj_next j) w = Inr c' \<longrightarrow>
      cur_created_at c' \<noteq> zero_time \<and> cur_id c' \<noteq> nil_uuid \<and>
      (\<exists>raw rest. filter (\<lambda>c. c \<noteq> CHR 0x0D \<and> c \<noteq> CHR 0x0A) w = b64_encode raw \<and>
         cj_first j raw = Inr (c', rest) \<and> cj_next j rest = Next_EOF))"
proof (intro conjI impI)
  assume "encodeNotificationCursor (cj_marshal j) c = Inr v"
  then show "decodeNotificationCursor (cj_first j) (cj_next j) v =
        (if cur_created_at c = zero_time \<or> cur_id c = nil_uuid then Inl errInvalidNotificationCursor
         else Inr c)"
    using assms
    by (fastforce simp: json_library_def encodeNotificationCursor_def decodeNotificationCursor_def b64_roundtrip
        split: sum.splits)
qed (fastforce simp: decodeNotificationCursor_def dest: b64_canonical split: option.splits sum.splits if_splits)+

lemma cursor_back:
  assumes "json_library j" "cj_marshal j \<lparr>cur_created_at = t, cur_id = i\<rparr> = Inr raw" "t \<noteq> zero_time" "i \<noteq> nil_uuid"
  shows "decodeNotificationCursor (cj_first j) (cj_next j) (b64_encode raw) = Inr \<lparr>cur_created_at = t, cur_id = i\<rparr>"
  using assms by (fastforce simp: json_library_def decodeNotificationCursor_def b64_roundtrip)

section \<open>Browsing\<close>

text \<open>A client of the endpoint that follows \<open>next_cursor\<close> until there is none, and concatenates the pages.\<close>

fun api_browse ::
  "cursor_json \<Rightarrow> pg_env \<Rightarrow> int \<Rightarrow> payload option \<Rightarrow> nat \<Rightarrow> string option \<Rightarrow> pg
    \<Rightarrow> notification_response list option" where
  "api_browse j env sz auth 0 v s = None"
| "api_browse j env sz auth (Suc k) v s =
     (case listNotifications j env (Inr sz) (map_option (\<lambda>x. [x]) v) auth s of
        (Inl e, _) \<Rightarrow> None
      | (Inr (_, page), s1) \<Rightarrow>
          (case lnr_next_cursor page of
             None \<Rightarrow> Some (lnr_notifications page)
           | Some v1 \<Rightarrow> map_option (\<lambda>rs. lnr_notifications page @ rs) (api_browse j env sz auth k (Some v1) s1)))"

text \<open>The text of a cursor for a stamp; every notification has one.\<close>

definition cursor_text :: "cursor_json \<Rightarrow> stamp \<Rightarrow> string" where
  "cursor_text j x =
     (case cj_marshal j \<lparr>cur_created_at = stamp_time x, cur_id = stamp_id x\<rparr> of
        Inr raw \<Rightarrow> b64_encode raw | Inl _ \<Rightarrow> [])"

definition has_cursor_text :: "cursor_json \<Rightarrow> stamp \<Rightarrow> bool" where
  "has_cursor_text j x \<longleftrightarrow> stamp_time x \<noteq> zero_time \<and> stamp_id x \<noteq> nil_uuid \<and>
     \<not> isl (cj_marshal j \<lparr>cur_created_at = stamp_time x, cur_id = stamp_id x\<rparr>)"

lemma not_isl: "\<not> isl r \<longleftrightarrow> (\<exists>x. r = Inr x)"
  by (cases r) auto

lemma page_cursor_text:
  assumes "json_library j" "\<forall>x. c = Some x \<longrightarrow> has_cursor_text j x"
  shows "page_cursor j (map_option (\<lambda>x. [x]) (map_option (cursor_text j) c)) =
    Inr (map_option (\<lambda>x. \<lparr>cur_created_at = stamp_time x, cur_id = stamp_id x\<rparr>) c)"
proof (cases c)
  case None
  then show ?thesis by (simp add: page_cursor_def)
next
  case (Some x)
  then obtain raw where "cj_marshal j \<lparr>cur_created_at = stamp_time x, cur_id = stamp_id x\<rparr> = Inr raw"
    and "stamp_time x \<noteq> zero_time" "stamp_id x \<noteq> nil_uuid"
    using assms(2) by (auto simp: has_cursor_text_def not_isl)
  then show ?thesis
    using Some cursor_back [OF assms(1)] by (simp add: page_cursor_def cursor_text_def)
qed

lemma next_cursor_text:
  assumes "\<forall>n \<in> set (pgr_notifications p). has_cursor_text j (ntf_stamp n)"
  shows "next_cursor j p = Inr (if pgr_has_more p \<and> pgr_notifications p \<noteq> []
    then Some (cursor_text j (ntf_stamp (last (pgr_notifications p)))) else None)"
proof (cases "pgr_notifications p = []")
  case False
  let ?n = "last (pgr_notifications p)"
  have "has_cursor_text j (ntf_stamp ?n)" using assms False by simp
  then obtain raw where "cj_marshal j \<lparr>cur_created_at = ntf_created_at ?n, cur_id = ntf_id ?n\<rparr> = Inr raw"
    by (auto simp: has_cursor_text_def not_isl)
  moreover have "pgr_notifications p ! (length (pgr_notifications p) - 1) = ?n"
    using False by (simp add: last_conv_nth)
  ultimately show ?thesis
    using False by (simp add: next_cursor_def encodeNotificationCursor_def cursor_text_def Let_def del: One_nat_def)
qed (simp add: next_cursor_def)

lemma api_browse_eq:
  assumes h: "healthy env" and j: "json_library j" and sz: "1 \<le> sz" "sz \<le> 100"
    and texts: "\<forall>n \<in> set (notifications (tables s)). has_cursor_text j (ntf_stamp n)"
    and c: "\<forall>x. c = Some x \<longrightarrow> has_cursor_text j x"
  shows "api_browse j env sz (Some p) k (map_option (cursor_text j) c) s =
    map_option (map newNotificationResponse) (browse env (pl_username p) sz k c s)"
  using texts c
proof (induction k arbitrary: c s)
  case 0
  then show ?case by simp
next
  case (Suc k)
  let ?arg = "\<lparr>pg_owner = pl_username p, pg_has_cursor = (c \<noteq> None),
     pg_cursor_created_at = (case c of Some x \<Rightarrow> stamp_time x | None \<Rightarrow> zero_time),
     pg_cursor_id = (case c of Some x \<Rightarrow> stamp_id x | None \<Rightarrow> 0), pg_limit = sz\<rparr>"
  let ?p = "page_of_rows ?arg (tables s)"
  obtain s1 where t1: "tables s1 = tables s"
    and page: "ListNotificationsPage env ?arg s = (Inr ?p, s1)"
    using ListNotificationsPage_healthy [OF h, of ?arg s] sz by auto
  have sub: "set (pgr_notifications ?p) \<subseteq> set (notifications (tables s))"
    by (auto simp: page_of_rows_def notifications_after_def dest!: in_set_takeD)
  have nc: "next_cursor j ?p = Inr (if pgr_has_more ?p \<and> pgr_notifications ?p \<noteq> []
    then Some (cursor_text j (ntf_stamp (last (pgr_notifications ?p)))) else None)"
    using Suc.prems(1) sub by (intro next_cursor_text) blast
  have args: "(case map_option (\<lambda>x. \<lparr>cur_created_at = stamp_time x, cur_id = stamp_id x\<rparr>) c of
        Some x \<Rightarrow> cur_created_at x | None \<Rightarrow> zero_time) = pg_cursor_created_at ?arg"
    "(case map_option (\<lambda>x. \<lparr>cur_created_at = stamp_time x, cur_id = stamp_id x\<rparr>) c of
        Some x \<Rightarrow> cur_id x | None \<Rightarrow> nil_uuid) = pg_cursor_id ?arg"
    by (cases c; simp)+
  have call: "listNotifications j env (Inr sz) (map_option (\<lambda>x. [x]) (map_option (cursor_text j) c)) (Some p) s =
    (Inr (200, \<lparr>lnr_notifications = map newNotificationResponse (pgr_notifications ?p),
        lnr_unread_count = pgr_unread_count ?p,
        lnr_next_cursor = (if pgr_has_more ?p \<and> pgr_notifications ?p \<noteq> []
          then Some (cursor_text j (ntf_stamp (last (pgr_notifications ?p)))) else None)\<rparr>), s1)"
    unfolding listNotifications_def sum.case Let_def page_cursor_text [OF j Suc.prems(2)]
    using sz page nc args
    by (simp add: andthen_def lift_res_def authPayload_def ret_def)
  have more: "pgr_notifications ?p \<noteq> []" if "pgr_has_more ?p"
    using that sz by (auto simp: page_of_rows_def)
  show ?case
  proof (cases "pgr_has_more ?p")
    case False
    then show ?thesis using call page by simp
  next
    case True
    let ?x = "ntf_stamp (last (pgr_notifications ?p))"
    have "last (pgr_notifications ?p) \<in> set (notifications (tables s))"
      using more [OF True] sub last_in_set by blast
    then have "api_browse j env sz (Some p) k (map_option (cursor_text j) (Some ?x)) s1 =
        map_option (map newNotificationResponse) (browse env (pl_username p) sz k (Some ?x) s1)"
      using Suc.prems(1) t1 by (intro Suc.IH) auto
    then show ?thesis
      using call page True more [OF True] by (simp add: option.map_comp comp_def)
  qed
qed

lemma api_browse_clamp:
  "api_browse j env sz auth k v s = api_browse j env (min (if sz < 1 then 20 else sz) 100) auth k v s"
proof (induction k arbitrary: v s)
  case 0
  then show ?case by simp
next
  case (Suc k)
  let ?n = "min (if sz < 1 then 20 else sz) 100"
  have "min (if ?n < 1 then 20 else ?n) 100 = ?n" by auto
  then have "listNotifications j env (Inr sz) vs auth s = listNotifications j env (Inr ?n) vs auth s" for vs
    by (simp only: listNotifications_def sum.case Let_def)
  then show ?case using Suc.IH by (simp split: prod.split sum.split option.split)
qed

text \<open>
  C28 (equivalence). The endpoint's pages add up to the reference list: on a working database whose tables
  do not change meanwhile, a client that follows \<open>next_cursor\<close> from the first page, with any
  requested size, gets exactly the caller's notifications, newest first, none missing and none
  twice, in as many requests as the size (brought to 1..100) needs, and is then told that
  there are no more.
\<close>

theorem notifications_browsed:
  assumes "healthy env" and "json_library j" and "schema_ok (tables s)"
    and "\<forall>n \<in> set (notifications (tables s)). has_cursor_text j (ntf_stamp n)"
    and "length (filter (\<lambda>n. ntf_owner n = pl_username p) (notifications (tables s))) \<le>
      k * nat (min (if sz < 1 then 20 else sz) 100)" and "0 < k"
  shows "api_browse j env sz (Some p) k None s =
    Some (map newNotificationResponse (newest_first ntf_stamp
      (filter (\<lambda>n. ntf_owner n = pl_username p) (notifications (tables s)))))"
proof -
  let ?n = "min (if sz < 1 then 20 else sz) 100 :: int"
  have n: "1 \<le> ?n" "?n \<le> 100" by auto
  have rows: "notifications_after (pl_username p) None (tables s) =
      newest_first ntf_stamp (filter (\<lambda>n. ntf_owner n = pl_username p) (notifications (tables s)))"
    by (simp add: notifications_after_def)
  have "browse env (pl_username p) ?n k None s = Some (notifications_after (pl_username p) None (tables s))"
    using assms n by (intro browse_after) (auto simp: rows)
  then show ?thesis
    using api_browse_eq [OF assms(1,2) n assms(4), of None p k] api_browse_clamp [of j env sz "Some p" k None s]
    by (simp add: rows)
qed

section \<open>Marking\<close>

text \<open>
  Marking through the API, on a working database: a malformed identifier is a bad request, a
  caller without claims is unauthorized, and a notification that is not the caller's own, whether it
  exists or not, is not found, all without any change. Otherwise the answer is the
  number of the caller's other unread notifications, and that notification alone has a read time
  afterwards, the first one it got.
\<close>

theorem markNotificationRead_decides:
  assumes h: "healthy env" and run: "markNotificationRead parse_uuid env param auth s = (r, s')"
  shows "case (parse_uuid param, auth) of
      (Inl _, _) \<Rightarrow> r = Inl (ApiError 400 ''invalid_notification_id'' ''invalid notification id'') \<and> tables s' = tables s
    | (Inr _, None) \<Rightarrow> r = Inl ErrUnauthorized \<and> tables s' = tables s
    | (Inr i, Some p) \<Rightarrow>
        if find_notification (pl_username p) i (tables s) = None
        then r = Inl ErrRecordNotFound \<and> tables s' = tables s
        else r = Inr (200, int (length (filter (\<lambda>n. ntf_id n \<noteq> i) (unread_of (pl_username p) (tables s))))) \<and>
          tables s' = marked (pl_username p) (\<lambda>n. ntf_id n = i) (time_at env (tick s)) (tables s)"
proof (cases "parse_uuid param")
  case (Inl e)
  then show ?thesis using run by (simp add: markNotificationRead_def raise_def)
next
  case (Inr i)
  show ?thesis
  proof (cases auth)
    case None
    then show ?thesis using run Inr by (simp add: markNotificationRead_def andthen_def lift_res_def authPayload_def)
  next
    case (Some p)
    obtain r1 s1 where tx: "MarkNotificationReadTx env (pl_username p) i s = (r1, s1)" by fastforce
    have "s' = s1" "r = (case r1 of Inl e \<Rightarrow> Inl e | Inr k \<Rightarrow> Inr (200, k))"
      using run Inr Some tx
      by (auto simp: markNotificationRead_def andthen_def lift_res_def ret_def authPayload_def split: sum.splits)
    then show ?thesis
      using mark_read_decides [OF h tx] Inr Some by (auto split: if_splits)
  qed
qed

section \<open>Witnesses\<close>

text \<open>A JSON library for the cursors of the sample notifications.\<close>

definition sample_cursors :: "(notification_cursor \<times> string) list" where
  "sample_cursors = [(\<lparr>cur_created_at = 5, cur_id = 40\<rparr>, ''one''), (\<lparr>cur_created_at = 7, cur_id = 41\<rparr>, ''two''),
     (\<lparr>cur_created_at = 7, cur_id = 42\<rparr>, ''three''), (\<lparr>cur_created_at = 7, cur_id = 43\<rparr>, ''four'')]"

definition sample_json :: cursor_json where
  "sample_json = \<lparr>
     cj_marshal = (\<lambda>c. case map_of sample_cursors c of Some raw \<Rightarrow> Inr raw | None \<Rightarrow> Inl (PlainError ''year'')),
     cj_first = (\<lambda>raw. case find (\<lambda>(c, t). t = raw) sample_cursors of
        Some (c, _) \<Rightarrow> Inr (c, '''') | None \<Rightarrow> Inl (PlainError ''json'')),
     cj_next = (\<lambda>rest. if rest = '''' then Next_EOF else Next_Value)\<rparr>"

lemma sample_json_ok: "json_library sample_json"
  unfolding json_library_def sample_json_def sample_cursors_def
  by (simp split: if_splits)

definition alice_claims :: payload where
  "alice_claims = sample_claims Access"

definition parse_note :: "string \<Rightarrow> go_error + uuid" where
  "parse_note str = (if str = ''41'' then Inr 41 else if str = ''42'' then Inr 42 else Inl (PlainError ''uuid''))"

theorem cursor_roundtrip_witness:
  "encodeNotificationCursor (cj_marshal sample_json) \<lparr>cur_created_at = 5, cur_id = 40\<rparr> = Inr ''b25l'' \<and>
   decodeNotificationCursor (cj_first sample_json) (cj_next sample_json) ''b25l'' =
     Inr \<lparr>cur_created_at = 5, cur_id = 40\<rparr>"
proof -
  have "encodeNotificationCursor (cj_marshal sample_json) \<lparr>cur_created_at = 5, cur_id = 40\<rparr> = Inr ''b25l''"
    by code_simp
  moreover have "(5 :: time) \<noteq> zero_time" by (simp add: zero_time_def)
  ultimately show ?thesis
    using cursor_roundtrip [OF sample_json_ok, of "\<lparr>cur_created_at = 5, cur_id = 40\<rparr>" "''b25l''"] by simp
qed

lemma noted_schema: "schema_ok noted_db"
  by code_simp

theorem notifications_browsed_witness:
  "map_option (map nrs_id) (api_browse sample_json sample_env 2 (Some alice_claims) 2 None (connect_db noted_db)) =
     Some [43, 41, 40]"
proof -
  have texts: "\<forall>n \<in> set (notifications noted_db). has_cursor_text sample_json (ntf_stamp n)"
    "length (filter (\<lambda>n. ntf_owner n = pl_username alice_claims) (notifications noted_db)) \<le>
      2 * nat (min (if (2::int) < 1 then 20 else 2) 100)"
    "map ntf_id (newest_first ntf_stamp (filter (\<lambda>n. ntf_owner n = pl_username alice_claims) (notifications noted_db))) =
      [43, 41, 40]"
    by code_simp+
  have ids: "map nrs_id (map newNotificationResponse ns) = map ntf_id ns" for ns
    by (simp add: newNotificationResponse_def)
  show ?thesis
    using notifications_browsed [OF healthy_sample sample_json_ok, of "connect_db noted_db" alice_claims 2 2]
      noted_schema texts by (simp add: ids del: map_map)
qed

theorem markNotificationRead_decides_witness:
  "result (markNotificationRead parse_note sample_env ''41'' (Some alice_claims)) (connect_db noted_db) = Inr (200, 2) \<and>
   result (markNotificationRead parse_note sample_env ''42'' (Some alice_claims)) (connect_db noted_db) = Inl ErrRecordNotFound"
proof -
  have "find_notification ''alice'' 41 noted_db \<noteq> None" "find_notification ''alice'' 42 noted_db = None"
    "length (filter (\<lambda>n. ntf_id n \<noteq> 41) (unread_of ''alice'' noted_db)) = 2"
    "pl_username alice_claims = ''alice''" "parse_note ''41'' = Inr 41" "parse_note ''42'' = Inr 42" by code_simp+
  then show ?thesis
    using markNotificationRead_decides [OF healthy_sample
        run_eq [of "markNotificationRead parse_note sample_env ''41'' (Some alice_claims)" "connect_db noted_db"]]
      markNotificationRead_decides [OF healthy_sample
        run_eq [of "markNotificationRead parse_note sample_env ''42'' (Some alice_claims)" "connect_db noted_db"]]
    by simp
qed

end
