(* ===== verification/Notification_Stream.thy ===== *)
theory Notification_Stream
  imports Hub Api_Core
begin

text \<open>
  \<open>streamNotifications\<close> of \<open>internal/api/notification.go\<close>: the server-sent events of one caller,
  on top of the hub. The loop's \<open>select\<close> chooses among the cases that are ready, so a run is given
  by the list of its turns, interleaved with what publishers and other readers do to the hub
  meanwhile; a turn carries what the connection answers to the frame it writes.
\<close>

section \<open>Frames\<close>

text \<open>
  The three calls a frame makes on the connection, each with its error: setting the write
  deadline, which may not be supported, writing, and flushing.
\<close>

record frame_io =
  io_deadline :: "go_error option"
  io_write :: "go_error option"
  io_flush :: "go_error option"

definition ErrNotSupported :: go_error where
  "ErrNotSupported = PlainError ''feature not supported''"

definition writeFrame :: "frame_io \<Rightarrow> go_error option" where
  "writeFrame io =
     (case io_deadline io of
        Some err \<Rightarrow>
          if \<not> errors_is err ErrNotSupported then Some err
          else (case io_write io of Some e \<Rightarrow> Some e | None \<Rightarrow> io_flush io)
      | None \<Rightarrow> (case io_write io of Some e \<Rightarrow> Some e | None \<Rightarrow> io_flush io))"

definition newline :: string where
  "newline = [CHR 0x0A]"

definition connected_frame :: string where
  "connected_frame = '': connected'' @ newline @ newline"

definition event_frame :: "uuid \<Rightarrow> string" where
  "event_frame i = ''event: notification'' @ newline @ ''data: '' @ uuid_string i @ newline @ newline"

definition keepalive_frame :: string where
  "keepalive_frame = '': keepalive'' @ newline @ newline"

section \<open>The loop\<close>

datatype stream_turn =
    Published string uuid \<comment> \<open>somebody publishes\<close>
  | Other_Reads subscription \<comment> \<open>another stream takes from its channel\<close>
  | Deadline \<comment> \<open>the case \<open>streamCtx.Done\<close>: the token expired or the client left\<close>
  | Event frame_io \<comment> \<open>the case \<open>events\<close>\<close>
  | Keepalive frame_io \<comment> \<open>the case \<open>keepalive.C\<close>\<close>

text \<open>
  Gives the frames that went out, whether the loop has ended, and the hub. The case \<open>events\<close> is
  not ready, and so not chosen, when nothing is buffered.
\<close>

fun stream_loop :: "subscription \<Rightarrow> stream_turn list \<Rightarrow> hub \<Rightarrow> string list \<times> bool \<times> hub" where
  "stream_loop s [] h = ([], False, h)"
| "stream_loop s (Published q i # es) h = stream_loop s es (Publish q i h)"
| "stream_loop s (Other_Reads t # es) h = stream_loop s es (if t = s then h else snd (receive t h))"
| "stream_loop s (Deadline # es) h = ([], True, h)"
| "stream_loop s (Event io # es) h =
     (case receive s h of
        (None, h1) \<Rightarrow> stream_loop s es h1
      | (Some i, h1) \<Rightarrow>
          if writeFrame io \<noteq> None then ([], True, h1)
          else (let (fs, fin, h2) = stream_loop s es h1 in (event_frame i # fs, fin, h2)))"
| "stream_loop s (Keepalive io # es) h =
     (if writeFrame io \<noteq> None then ([], True, h)
      else (let (fs, fin, h1) = stream_loop s es h in (keepalive_frame # fs, fin, h1)))"

text \<open>
  The whole handler. \<open>first\<close> is the first frame's connection, \<open>committed\<close> whether the response
  was already committed when that frame failed. The result is \<open>None\<close> while the stream is open.
\<close>

record stream_run =
  run_frames :: "string list"
  run_result :: "(go_error + unit) option"
  run_hub :: hub

definition streamNotifications ::
  "payload option \<Rightarrow> frame_io \<Rightarrow> bool \<Rightarrow> stream_turn list \<Rightarrow> hub \<Rightarrow> stream_run" where
  "streamNotifications auth first committed turns h =
     (case authPayload auth of
        Inl _ \<Rightarrow> \<lparr>run_frames = [], run_result = Some (Inl ErrUnauthorized), run_hub = h\<rparr>
      | Inr p \<Rightarrow>
          if pl_expires_at p = None
          then \<lparr>run_frames = [], run_result = Some (Inl ErrUnauthorized), run_hub = h\<rparr>
          else
            (let (s, h1) = Subscribe (pl_username p) h in
             case writeFrame first of
               Some err \<Rightarrow>
                 \<lparr>run_frames = [], run_result = Some (if committed then Inr () else Inl err),
                  run_hub = unsubscribe s h1\<rparr>
             | None \<Rightarrow>
                 (let (fs, fin, h2) = stream_loop s turns h1 in
                  \<lparr>run_frames = connected_frame # fs,
                   run_result = (if fin then Some (Inr ()) else None),
                   run_hub = (if fin then unsubscribe s h2 else h2)\<rparr>)))"

section \<open>What a stream shows\<close>

fun turns_published :: "string \<Rightarrow> stream_turn list \<Rightarrow> uuid list" where
  "turns_published ow [] = []"
| "turns_published ow (Published q i # es) = (if q = ow then i # turns_published ow es else turns_published ow es)"
| "turns_published ow (_ # es) = turns_published ow es"

definition others_subscribed :: "hub \<Rightarrow> stream_turn list \<Rightarrow> bool" where
  "others_subscribed h es \<longleftrightarrow> (\<forall>t. Other_Reads t \<in> set es \<longrightarrow> t \<in> snd ` hub_members h)"

lemma event_not_keepalive [simp]: "event_frame i \<noteq> keepalive_frame"
  by (simp add: event_frame_def keepalive_frame_def)

lemma stream_loop_step:
  assumes "hub_ok h" "(ow, s) \<in> hub_members h" "others_subscribed h es"
    and "stream_loop s es h = (fs, fin, h')"
  shows "hub_ok h' \<and> hub_members h' = hub_members h \<and> (Deadline \<in> set es \<longrightarrow> fin) \<and>
    (\<exists>got. filter (\<lambda>f. f \<noteq> keepalive_frame) fs = map event_frame got \<and>
       subseq (got @ hub_inbox h' s) (hub_inbox h s @ turns_published ow es))"
  using assms
proof (induction es arbitrary: h fs fin h')
  case Nil
  then show ?case by auto
next
  case (Cons e es)
  have rest: "others_subscribed g es" if "hub_members g = hub_members h" for g
    using Cons.prems(3) that by (auto simp: others_subscribed_def)
  show ?case
  proof (cases e)
    case (Published q i)
    have l: "hub_ok (Publish q i h)" "hub_members (Publish q i h) = hub_members h"
      using hub_pubsub.pub_law [OF Cons.prems(1), of q i] by blast+
    have grow: "subseq (hub_inbox (Publish q i h) s @ turns_published ow es) (hub_inbox h s @ turns_published ow (e # es))"
      using hub_pubsub.pub_inbox [OF Cons.prems(1,2), of q i] by (auto simp: Published subseq_append')
    have mem: "(ow, s) \<in> hub_members (Publish q i h)" and run: "stream_loop s es (Publish q i h) = (fs, fin, h')"
      using Cons.prems(2,4) l(2) by (auto simp: Published)
    from Cons.IH [OF l(1) mem rest [OF l(2)] run] obtain got where
      "hub_ok h'" "hub_members h' = hub_members h" "Deadline \<in> set es \<longrightarrow> fin"
      "filter (\<lambda>f. f \<noteq> keepalive_frame) fs = map event_frame got"
      "subseq (got @ hub_inbox h' s) (hub_inbox (Publish q i h) s @ turns_published ow es)"
      using l(2) by auto
    moreover from this(5) grow have "subseq (got @ hub_inbox h' s) (hub_inbox h s @ turns_published ow (e # es))"
      by (rule subseq_order.trans)
    ultimately show ?thesis by (auto simp: Published)
  next
    case (Other_Reads t)
    show ?thesis
    proof (cases "t = s")
      case True
      then show ?thesis using Cons.IH [OF Cons.prems(1,2) rest] Cons.prems(4) by (auto simp: Other_Reads)
    next
      case False
      obtain r h1 where r: "receive t h = (r, h1)" by fastforce
      obtain q where "(q, t) \<in> hub_members h" using Cons.prems(3) by (auto simp: Other_Reads others_subscribed_def)
      note l = hub_pubsub.recv_law [OF Cons.prems(1) this r]
      have box: "hub_inbox h1 s = hub_inbox h s" using l False Cons.prems(2) by force
      have ok: "hub_ok h1" and mem: "hub_members h1 = hub_members h" using l by simp_all
      have run: "stream_loop s es h1 = (fs, fin, h')" using Cons.prems(4) False r by (simp add: Other_Reads)
      show ?thesis
        using Cons.IH [OF ok _ rest [OF mem] run] Cons.prems(2) unfolding mem box by (simp add: Other_Reads)
    qed
  next
    case Deadline
    then show ?thesis using Cons.prems by auto
  next
    case (Event io)
    obtain r h1 where r: "receive s h = (r, h1)" by fastforce
    note l = hub_pubsub.recv_law [OF Cons.prems(1,2) r]
    obtain fs1 fin1 h2 where run: "stream_loop s es h1 = (fs1, fin1, h2)" by (cases "stream_loop s es h1") auto
    have ih: "hub_ok h2 \<and> hub_members h2 = hub_members h1 \<and> (Deadline \<in> set es \<longrightarrow> fin1) \<and>
        (\<exists>got. filter (\<lambda>f. f \<noteq> keepalive_frame) fs1 = map event_frame got \<and>
           subseq (got @ hub_inbox h2 s) (hub_inbox h1 s @ turns_published ow es))"
      using Cons.IH [OF _ _ rest run] l Cons.prems(2) by simp
    show ?thesis
    proof (cases r)
      case None
      then have "hub_inbox h1 s = hub_inbox h s" using l by (auto split: list.splits)
      then show ?thesis using ih run r None l Cons.prems(4) by (auto simp: Event)
    next
      case (Some i)
      then have box: "hub_inbox h s = i # hub_inbox h1 s" using l by (auto split: list.splits)
      show ?thesis
      proof (cases "writeFrame io")
        case None
        then have eq: "fs = event_frame i # fs1" "fin = fin1" "h' = h2"
          using Cons.prems(4) r Some run by (auto simp: Event)
        from ih obtain got where "filter (\<lambda>f. f \<noteq> keepalive_frame) fs1 = map event_frame got"
          "subseq (got @ hub_inbox h2 s) (hub_inbox h1 s @ turns_published ow es)" by blast
        then show ?thesis
          using ih l eq box by (auto simp: Event intro!: exI [of _ "i # got"])
      next
        case (Some err)
        then have "fs = [] \<and> fin \<and> h' = h1" using Cons.prems(4) r \<open>r = Some i\<close> by (auto simp: Event)
        then show ?thesis using l box by (auto simp: Event intro!: list_emb_Cons)
      qed
    qed
  next
    case (Keepalive io)
    obtain fs1 fin1 h2 where run: "stream_loop s es h = (fs1, fin1, h2)" by (cases "stream_loop s es h") auto
    show ?thesis
      using Cons.IH [OF Cons.prems(1,2) rest run] run Cons.prems(1,4) by (auto simp: Keepalive split: if_splits)
  qed
qed

text \<open>Past the greeting and the keepalives there are only events.\<close>

lemma event_frames_only:
  assumes "filter (\<lambda>f. f \<noteq> keepalive_frame) fs = map event_frame got"
  shows "filter (\<lambda>f. f \<noteq> keepalive_frame \<and> f \<noteq> connected_frame) (connected_frame # fs) = map event_frame got"
proof -
  have diff: "event_frame i \<noteq> connected_frame" for i by (simp add: event_frame_def connected_frame_def)
  have "filter (\<lambda>f. f \<noteq> keepalive_frame \<and> f \<noteq> connected_frame) (connected_frame # fs) =
      filter (\<lambda>f. f \<noteq> connected_frame) (filter (\<lambda>f. f \<noteq> keepalive_frame) fs)" by (simp add: conj_commute)
  then show ?thesis using diff by (auto simp: assms filter_True)
qed


section \<open>Witness\<close>

definition good_io :: frame_io where
  "good_io = \<lparr>io_deadline = Some ErrNotSupported, io_write = None, io_flush = None\<rparr>"

definition sample_turns :: "stream_turn list" where
  "sample_turns = [Published ''alice'' 1, Published ''bob'' 2, Event good_io, Event good_io, Keepalive good_io,
     Published ''alice'' 3, Event good_io, Deadline]"

abbreviation sample_stream :: stream_run where
  "sample_stream \<equiv> streamNotifications (Some (sample_claims Access)) good_io False sample_turns NewHub"


end
