(* ===== verification/Listener.thy ===== *)
theory Listener
  imports Hub Go_Errors
begin

text \<open>
  \<open>internal/notification/listener.go\<close>: the goroutine that turns PostgreSQL notifications into
  publications on the hub. First what it does with the messages of its connection and how it
  reconnects, driven by the outcomes of the calls it makes; then its life cycle as a step relation in
  which \<open>Start\<close>, \<open>Stop\<close>, the cancellation of the parent context and the goroutine interleave at the
  granularity of the mutex.
\<close>

section \<open>Publishing\<close>

text \<open>
  \<open>decode\<close> is \<open>json.Unmarshal\<close> into an identifier and an owner, \<open>None\<close> an error; a field that is
  absent is the zero value. The argument is \<open>None\<close> for a nil notification.
\<close>

definition publish :: "(string \<Rightarrow> (uuid \<times> string) option) \<Rightarrow> string option \<Rightarrow> hub \<Rightarrow> hub" where
  "publish decode n h =
     (case n of
        None \<Rightarrow> h
      | Some text \<Rightarrow>
          (case decode text of
             None \<Rightarrow> h
           | Some (i, owner) \<Rightarrow> if i = nil_uuid \<or> owner = '''' then h else Publish owner i h))"

section \<open>Reconnecting\<close>

definition initialBackoff :: time where
  "initialBackoff = 100000"

definition maximumBackoff :: time where
  "maximumBackoff = 5 * second"

text \<open>How one round of the loop ends: the sleep is cut short, no connection, no \<open>LISTEN\<close>, or success.\<close>

datatype attempt = Sleep_Cancelled | Connect_Fails | Listen_Fails | Listening_Again

text \<open>
  The result, \<open>None\<close> while it has not returned, is whether there is a connection, with the
  delays it slept.
\<close>

fun reconnect_from :: "time \<Rightarrow> attempt list \<Rightarrow> (bool \<times> time list) option" where
  "reconnect_from backoff [] = None"
| "reconnect_from backoff (Sleep_Cancelled # as) = Some (False, [backoff])"
| "reconnect_from backoff (Listening_Again # as) = Some (True, [backoff])"
| "reconnect_from backoff (_ # as) =
     map_option (\<lambda>(ok, slept). (ok, backoff # slept)) (reconnect_from (min (backoff * 2) maximumBackoff) as)"

definition reconnect :: "attempt list \<Rightarrow> (bool \<times> time list) option" where
  "reconnect as = reconnect_from initialBackoff as"

section \<open>The goroutine\<close>

text \<open>
  What \<open>WaitForNotification\<close> returns: a notification, or an error, after which the context has been
  cancelled or else reconnecting goes as listed.
\<close>

datatype wait = Got "string option" | Lost_Cancelled | Lost "attempt list"

fun run :: "(string \<Rightarrow> (uuid \<times> string) option) \<Rightarrow> wait list \<Rightarrow> hub \<Rightarrow> bool \<times> hub" where
  "run decode [] h = (False, h)"
| "run decode (Got n # ws) h = run decode ws (publish decode n h)"
| "run decode (Lost_Cancelled # ws) h = (True, h)"
| "run decode (Lost as # ws) h =
     (case reconnect as of
        None \<Rightarrow> (False, h)
      | Some (ok, _) \<Rightarrow> if ok then run decode ws h else (True, h))"

section \<open>The life cycle\<close>

text \<open>
  Every call of \<open>Start\<close> that gets past the first check makes a context and a \<open>done\<close> channel; both
  are named by the number of that start. \<open>at\<close> is where each start is.
\<close>

datatype place = Connecting | Sending_Listen | Running | Finished

record listener =
  started :: bool
  cancel :: "nat option"
  done_chan :: "nat option"
  places :: "place list"
  cancelled :: "nat set"
  closed :: "nat list"

definition NewListener :: listener where
  "NewListener = \<lparr>started = False, cancel = None, done_chan = None, places = [], cancelled = {}, closed = []\<rparr>"

definition begin_start :: "listener \<Rightarrow> listener" where
  "begin_start l =
     l\<lparr>started := True, cancel := Some (length (places l)), done_chan := Some (length (places l)),
       places := places l @ [Connecting]\<rparr>"

definition cancel_ctx :: "nat \<Rightarrow> listener \<Rightarrow> listener" where
  "cancel_ctx n l = l\<lparr>cancelled := insert n (cancelled l)\<rparr>"

definition move :: "nat \<Rightarrow> place \<Rightarrow> listener \<Rightarrow> listener" where
  "move n p l = l\<lparr>places := (places l)[n := p]\<rparr>"

definition finishFailedStart :: "nat \<Rightarrow> listener \<Rightarrow> listener" where
  "finishFailedStart n l =
     (let l1 = (if done_chan l = Some n then l\<lparr>started := False, cancel := None, done_chan := None\<rparr> else l) in
      move n Finished (l1\<lparr>closed := closed l1 @ [n]\<rparr>))"

text \<open>A start at a place, and whether its context is cancelled.\<close>

definition at :: "listener \<Rightarrow> nat \<Rightarrow> place \<Rightarrow> bool" where
  "at l n p \<longleftrightarrow> n < length (places l) \<and> places l ! n = p"

inductive lsn_step :: "listener \<Rightarrow> listener \<Rightarrow> bool" where
  Start: "\<not> started l \<Longrightarrow> lsn_step l (begin_start l)"
| Start_again: "started l \<Longrightarrow> lsn_step l l"
| Connect_fails: "at l n Connecting \<Longrightarrow> lsn_step l (finishFailedStart n (cancel_ctx n l))"
| Connected_late: "at l n Connecting \<Longrightarrow> n \<in> cancelled l \<Longrightarrow> lsn_step l (finishFailedStart n l)"
| Connected: "at l n Connecting \<Longrightarrow> n \<notin> cancelled l \<Longrightarrow> lsn_step l (move n Sending_Listen l)"
| Listen_fails: "at l n Sending_Listen \<Longrightarrow> lsn_step l (finishFailedStart n (cancel_ctx n l))"
| Listened_late: "at l n Sending_Listen \<Longrightarrow> n \<in> cancelled l \<Longrightarrow> lsn_step l (finishFailedStart n l)"
| Listened: "at l n Sending_Listen \<Longrightarrow> n \<notin> cancelled l \<Longrightarrow> lsn_step l (move n Running l)"
| Run_ends: "at l n Running \<Longrightarrow> n \<in> cancelled l \<Longrightarrow>
    lsn_step l (move n Finished (l\<lparr>closed := closed l @ [n]\<rparr>))"
| Stop: "started l \<Longrightarrow> cancel l = Some n \<Longrightarrow> lsn_step l (cancel_ctx n l)"
| Parent_cancelled: "n < length (places l) \<Longrightarrow> lsn_step l (cancel_ctx n l)"

inductive lsn_reach :: "listener \<Rightarrow> bool" where
  new: "lsn_reach NewListener"
| step: "lsn_reach l \<Longrightarrow> lsn_step l l' \<Longrightarrow> lsn_reach l'"

text \<open>\<open>Stop\<close> waits for the channel it read under the mutex; it returns nil once that is closed.\<close>

definition stop_returns :: "listener \<Rightarrow> nat \<Rightarrow> bool" where
  "stop_returns l n \<longleftrightarrow> n \<in> set (closed l)"

section \<open>What reconnecting guarantees\<close>

lemma backoff_step:
  assumes "initialBackoff \<le> b" "b \<le> maximumBackoff"
  shows "initialBackoff \<le> min (b * 2) maximumBackoff \<and> min (b * 2) maximumBackoff \<le> maximumBackoff"
  using assms by (auto simp: initialBackoff_def maximumBackoff_def second_def)

definition nth_backoff :: "nat \<Rightarrow> time" where
  "nth_backoff k = min (initialBackoff * 2 ^ k) maximumBackoff"

lemma nth_backoff_Suc: "min (nth_backoff k * 2) maximumBackoff = nth_backoff (Suc k)"
  by (auto simp: nth_backoff_def maximumBackoff_def second_def min_def)

lemma reconnect_from_sleeps:
  "reconnect_from (nth_backoff k) as = Some (ok, slept) \<Longrightarrow>
     slept \<noteq> [] \<and> (\<forall>i < length slept. slept ! i = nth_backoff (k + i))"
proof (induction as arbitrary: k slept)
  case Nil
  then show ?case by simp
next
  case (Cons a as)
  have later: "slept \<noteq> [] \<and> (\<forall>i < length slept. slept ! i = nth_backoff (k + i))"
    if "map_option (\<lambda>(ok, sl). (ok, nth_backoff k # sl)) (reconnect_from (nth_backoff (Suc k)) as) = Some (ok, slept)"
  proof -
    from that obtain sl where "reconnect_from (nth_backoff (Suc k)) as = Some (ok, sl)" "slept = nth_backoff k # sl"
      by auto
    then show ?thesis using Cons.IH [of "Suc k" sl] by (auto simp: nth_Cons split: nat.split)
  qed
  show ?case using Cons.prems later by (cases a) (auto simp: nth_backoff_Suc)
qed

lemma reconnect_from_returns:
  "reconnect_from b as \<noteq> None \<longleftrightarrow> Sleep_Cancelled \<in> set as \<or> Listening_Again \<in> set as"
  by (induction b as rule: reconnect_from.induct) auto

lemma reconnect_from_shape:
  "reconnect_from b as = Some (ok, slept) \<Longrightarrow> \<exists>k < length as. length slept = Suc k \<and>
     as ! k = (if ok then Listening_Again else Sleep_Cancelled) \<and>
     (\<forall>i < k. as ! i = Connect_Fails \<or> as ! i = Listen_Fails)"
proof (induction as arbitrary: b slept)
  case Nil
  then show ?case by simp
next
  case (Cons a as)
  have later: ?case if "a = Connect_Fails \<or> a = Listen_Fails"
    "map_option (\<lambda>(ok, sl). (ok, b # sl)) (reconnect_from (min (b * 2) maximumBackoff) as) = Some (ok, slept)"
  proof -
    from that(2) obtain sl where "reconnect_from (min (b * 2) maximumBackoff) as = Some (ok, sl)" "slept = b # sl"
      by auto
    with Cons.IH obtain k where "k < length as" "length sl = Suc k"
      "as ! k = (if ok then Listening_Again else Sleep_Cancelled)"
      "\<forall>i < k. as ! i = Connect_Fails \<or> as ! i = Listen_Fails" by blast
    then show ?thesis
      using that(1) \<open>slept = b # sl\<close> by (intro exI [of _ "Suc k"]) (simp add: All_less_Suc2)
  qed
  show ?case using Cons.prems later by (cases a) auto
qed

text \<open>
  C32 (liveness). Reconnecting does not give up and does not storm the database: the loop returns if and
  only if some round gets its connection or finds the context cancelled; the delay before round
  \<open>k\<close> is \<open>100 ms * 2 ^ k\<close>, but at most 5 seconds; and it returns a connection exactly when a round
  succeeds before the context is cancelled.
\<close>

theorem reconnect_backoff:
  "(reconnect as \<noteq> None \<longleftrightarrow> Sleep_Cancelled \<in> set as \<or> Listening_Again \<in> set as) \<and>
   (\<forall>ok slept. reconnect as = Some (ok, slept) \<longrightarrow>
      (\<forall>i < length slept. slept ! i = min (100000 * 2 ^ i) (5 * second)) \<and>
      (\<exists>k < length as. length slept = Suc k \<and>
         as ! k = (if ok then Listening_Again else Sleep_Cancelled) \<and>
         (\<forall>i < k. as ! i = Connect_Fails \<or> as ! i = Listen_Fails)))"
proof -
  have start: "initialBackoff = nth_backoff 0"
    by (simp add: nth_backoff_def initialBackoff_def maximumBackoff_def second_def)
  have "nth_backoff i = min (100000 * 2 ^ i) (5 * second)" for i
    by (simp add: nth_backoff_def initialBackoff_def maximumBackoff_def)
  then show ?thesis
    using reconnect_from_sleeps [of 0 as] reconnect_from_shape [of initialBackoff as]
      reconnect_from_returns [of initialBackoff as]
    unfolding reconnect_def start by simp
qed

section \<open>What the goroutine publishes\<close>

text \<open>The messages it takes off its connections, up to the moment it returns.\<close>

fun received :: "wait list \<Rightarrow> string option list" where
  "received [] = []"
| "received (Got n # ws) = n # received ws"
| "received (Lost_Cancelled # ws) = []"
| "received (Lost as # ws) =
     (case reconnect as of Some (True, _) \<Rightarrow> received ws | _ \<Rightarrow> [])"

definition valid_messages :: "(string \<Rightarrow> (uuid \<times> string) option) \<Rightarrow> string option list \<Rightarrow> (string \<times> uuid) list" where
  "valid_messages decode ns = concat (map (\<lambda>n. case n of
      None \<Rightarrow> []
    | Some text \<Rightarrow> (case decode text of None \<Rightarrow> []
        | Some (i, owner) \<Rightarrow> if i = nil_uuid \<or> owner = '''' then [] else [(owner, i)])) ns)"

lemma publish_valid: "publish decode n h = fold (\<lambda>(q, i). Publish q i) (valid_messages decode [n]) h"
  by (auto simp: publish_def valid_messages_def split: option.split)

lemma valid_messages_Cons: "valid_messages decode (n # ns) = valid_messages decode [n] @ valid_messages decode ns"
  by (simp add: valid_messages_def)

lemma run_publishes: "snd (run decode ws h) = fold (\<lambda>(q, i). Publish q i) (valid_messages decode (received ws)) h"
proof (induction decode ws h rule: run.induct)
  case (2 decode n ws h)
  then show ?case using valid_messages_Cons [of decode n "received ws"] by (simp add: publish_valid)
qed (auto simp: valid_messages_def split: option.split)

text \<open>
  The contract with the database: the payload of a message that PostgreSQL sends decodes to the
  pair \<open>pg_notify\<close> was called with.
\<close>

definition payload_codec :: "(uuid \<times> string \<Rightarrow> string) \<Rightarrow> (string \<Rightarrow> (uuid \<times> string) option) \<Rightarrow> bool" where
  "payload_codec encode decode \<longleftrightarrow> (\<forall>m. decode (encode m) = Some m)"

lemma run_fills_inbox:
  assumes codec: "payload_codec encode decode"
    and msgs: "\<forall>(i, q) \<in> set msgs. i \<noteq> nil_uuid \<and> q \<noteq> ''''"
    and got: "filter (\<lambda>n. valid_messages decode [n] \<noteq> []) (received ws) = map (Some \<circ> encode) msgs"
    and sub: "hub_ok h" "(ow, s) \<in> hub_members h" "hub_inbox h s = []"
    and room: "length (filter (\<lambda>m. snd m = ow) msgs) \<le> subscriberBuffer"
  shows "hub_inbox (snd (run decode ws h)) s = map fst (filter (\<lambda>m. snd m = ow) msgs)"
proof -
  have drop: "valid_messages decode ns =
      valid_messages decode (filter (\<lambda>n. valid_messages decode [n] \<noteq> []) ns)" for ns
  proof (induction ns)
    case (Cons n ns)
    then show ?case
      using valid_messages_Cons [of decode n ns]
        valid_messages_Cons [of decode n "filter (\<lambda>n. valid_messages decode [n] \<noteq> []) ns"] by simp
  qed simp
  have "valid_messages decode (map (Some \<circ> encode) msgs) = map prod.swap msgs"
    using codec msgs by (induction msgs) (auto simp: valid_messages_def payload_codec_def)
  then have "valid_messages decode (received ws) = map prod.swap msgs"
    unfolding drop [of "received ws"] got .
  then have "hub_inbox (snd (run decode ws h)) s =
      take subscriberBuffer (map snd (filter (\<lambda>e. fst e = ow) (map prod.swap msgs)))"
    unfolding run_publishes using hub_pubsub.burst [OF sub(1,2), of "map prod.swap msgs"] sub(3) by simp
  also have "map snd (filter (\<lambda>e. fst e = ow) (map prod.swap msgs)) = map fst (filter (\<lambda>m. snd m = ow) msgs)"
    by (simp add: filter_map comp_def)
  finally show ?thesis using room by simp
qed

text \<open>
  What is committed reaches the stream: when the messages on the listener's connections
  are those of committed transactions, a subscriber with room for them finds in its buffer, in the order
  of the commits, exactly the notifications of its owner, whatever reconnections happen in
  between; malformed and foreign messages on the channel are ignored.
\<close>

theorem listener_delivers:
  assumes codec: "payload_codec encode decode"
    and msgs: "\<forall>(i, q) \<in> set msgs. i \<noteq> nil_uuid \<and> q \<noteq> ''''"
    and got: "filter (\<lambda>n. valid_messages decode [n] \<noteq> []) (received ws) = map (Some \<circ> encode) msgs"
    and sub: "hub_ok h" "(ow, s) \<in> hub_members h" "hub_inbox h s = []"
    and room: "length (filter (\<lambda>m. snd m = ow) msgs) \<le> subscriberBuffer"
  shows "hub_inbox (snd (run decode ws h)) s = map fst (filter (\<lambda>m. snd m = ow) msgs)"
  by (rule run_fills_inbox [OF assms])

section \<open>The life cycle is safe\<close>

definition lsn_ok :: "listener \<Rightarrow> bool" where
  "lsn_ok l \<longleftrightarrow>
     (\<forall>n p. at l n p \<and> p \<noteq> Finished \<longrightarrow> started l \<and> done_chan l = Some n) \<and>
     (started l \<longrightarrow> (\<exists>n < length (places l). done_chan l = Some n \<and> cancel l = Some n)) \<and>
     distinct (closed l) \<and> (\<forall>n. n \<in> set (closed l) \<longleftrightarrow> at l n Finished)"

lemma at_begin: "at (begin_start l) n p \<longleftrightarrow> at l n p \<or> (n = length (places l) \<and> p = Connecting)"
  by (auto simp: at_def begin_start_def nth_append)

lemma at_cancel [simp]: "at (cancel_ctx m l) n p = at l n p"
  by (simp add: at_def cancel_ctx_def)

lemma at_move: "at (move m q l) n p \<longleftrightarrow> (if n = m then n < length (places l) \<and> p = q else at l n p)"
  by (auto simp: at_def move_def)

lemma at_unique: "at l n p \<Longrightarrow> at l n q \<Longrightarrow> p = q"
  by (simp add: at_def)

lemma at_length: "at l n p \<Longrightarrow> n < length (places l)"
  by (simp add: at_def)

lemma lsn_ok_cancel: "lsn_ok l \<Longrightarrow> lsn_ok (cancel_ctx n l)"
  unfolding lsn_ok_def by (simp) (simp add: cancel_ctx_def)

lemma lsn_okI:
  assumes "\<And>n p. at l n p \<Longrightarrow> p \<noteq> Finished \<Longrightarrow> started l \<and> done_chan l = Some n"
    and "started l \<Longrightarrow> \<exists>n < length (places l). done_chan l = Some n \<and> cancel l = Some n"
    and "distinct (closed l)" and "\<And>n. n \<in> set (closed l) \<longleftrightarrow> at l n Finished"
  shows "lsn_ok l"
  using assms unfolding lsn_ok_def by blast

lemma lsn_ok_closed: "lsn_ok l \<Longrightarrow> distinct (closed l) \<and> (n \<in> set (closed l) \<longleftrightarrow> at l n Finished)"
  unfolding lsn_ok_def by blast

lemma lsn_ok_close:
  assumes ok: "lsn_ok l" and p: "at l n p" "p \<noteq> Finished"
    and f: "places f = (places l)[n := Finished]" "closed f = closed l @ [n]"
      "started f \<longrightarrow> done_chan f = Some n \<and> cancel f = Some n"
  shows "lsn_ok f"
proof -
  have only: "m = n" if "at l m q" "q \<noteq> Finished" for m q
    using ok p that unfolding lsn_ok_def by (metis option.inject)
  have n: "n < length (places l)" "n \<notin> set (closed l)"
    using ok p at_unique [of l n Finished p] by (auto simp: lsn_ok_def at_def)
  have at: "at f m q \<longleftrightarrow> (if m = n then q = Finished else at l m q)" for m q
    using n(1) by (auto simp: at_def f(1))
  have "\<not> (at f m q \<and> q \<noteq> Finished)" for m q
    unfolding at using only [of m q] by (cases "m = n") auto
  moreover have "distinct (closed f)" using ok n(2) by (simp add: lsn_ok_def f(2))
  moreover have "m \<in> set (closed f) \<longleftrightarrow> at f m Finished" for m
    using ok by (auto simp: lsn_ok_def f(2) at)
  moreover have "started f \<longrightarrow> (\<exists>n < length (places f). done_chan f = Some n \<and> cancel f = Some n)"
    using f(1,3) n(1) by auto
  ultimately show ?thesis unfolding lsn_ok_def by blast
qed

lemma lsn_ok_current:
  "lsn_ok l \<Longrightarrow> at l n p \<Longrightarrow> p \<noteq> Finished \<Longrightarrow> started l \<and> done_chan l = Some n \<and> cancel l = Some n"
  unfolding lsn_ok_def by (metis option.inject)

lemma lsn_ok_finish:
  assumes "lsn_ok l" "at l n p" "p \<noteq> Finished"
  shows "lsn_ok (finishFailedStart n l)"
    and "lsn_ok (move n Finished (l\<lparr>closed := closed l @ [n]\<rparr>))"
  using assms lsn_ok_current [OF assms]
  by (auto intro!: lsn_ok_close [OF assms] simp: finishFailedStart_def move_def)

lemma lsn_ok_move:
  assumes ok: "lsn_ok l" and p: "at l n p" "p \<noteq> Finished" and q: "q \<noteq> Finished"
  shows "lsn_ok (move n q l)"
proof (rule lsn_okI)
  note cur = lsn_ok_current [OF ok p]
  have n: "n < length (places l)" using p(1) by (rule at_length)
  have same: "started (move n q l) = started l" "done_chan (move n q l) = done_chan l"
    "cancel (move n q l) = cancel l" "closed (move n q l) = closed l" "length (places (move n q l)) = length (places l)"
    by (simp_all add: move_def)
  show "started (move n q l) \<and> done_chan (move n q l) = Some m" if "at (move n q l) m r" "r \<noteq> Finished" for m r
    using that lsn_ok_current [OF ok, of m r] cur same by (cases "m = n") (simp_all add: at_move)
  show "\<exists>m < length (places (move n q l)). done_chan (move n q l) = Some m \<and> cancel (move n q l) = Some m"
    using cur n same by auto
  show "distinct (closed (move n q l))" using lsn_ok_closed [OF ok] same by simp
  show "m \<in> set (closed (move n q l)) \<longleftrightarrow> at (move n q l) m Finished" for m
    using lsn_ok_closed [OF ok, of m] same p q at_unique [of l n p Finished] by (auto simp: at_move)
qed

lemma lsn_ok_begin:
  assumes ok: "lsn_ok l" and idle: "\<not> started l"
  shows "lsn_ok (begin_start l)"
proof (rule lsn_okI)
  let ?n = "length (places l)"
  have fields: "started (begin_start l)" "done_chan (begin_start l) = Some ?n" "cancel (begin_start l) = Some ?n"
    "closed (begin_start l) = closed l" "length (places (begin_start l)) = Suc ?n"
    by (simp_all add: begin_start_def)
  show "started (begin_start l) \<and> done_chan (begin_start l) = Some m" if "at (begin_start l) m r" "r \<noteq> Finished" for m r
    using that lsn_ok_current [OF ok, of m r] idle fields by (auto simp: at_begin)
  show "\<exists>m < length (places (begin_start l)). done_chan (begin_start l) = Some m \<and> cancel (begin_start l) = Some m"
    using fields by auto
  show "distinct (closed (begin_start l))" using lsn_ok_closed [OF ok] fields by simp
  show "m \<in> set (closed (begin_start l)) \<longleftrightarrow> at (begin_start l) m Finished" for m
    using lsn_ok_closed [OF ok, of m] fields by (simp add: at_begin)
qed

lemma lsn_ok_new: "lsn_ok NewListener"
  by (rule lsn_okI) (simp_all add: NewListener_def at_def)

lemma lsn_step_ok: "lsn_step l l' \<Longrightarrow> lsn_ok l \<Longrightarrow> lsn_ok l'"
proof (induction rule: lsn_step.induct)
  case (Connect_fails l n)
  then show ?case using lsn_ok_finish(1) [OF lsn_ok_cancel [OF Connect_fails(2)]] by simp
next
  case (Listen_fails l n)
  then show ?case using lsn_ok_finish(1) [OF lsn_ok_cancel [OF Listen_fails(2)]] by simp
qed (simp_all add: lsn_ok_begin lsn_ok_cancel lsn_ok_finish lsn_ok_move)

lemma lsn_reach_ok: "lsn_reach l \<Longrightarrow> lsn_ok l"
  by (induction rule: lsn_reach.induct) (auto intro: lsn_step_ok lsn_ok_new)

text \<open>
  C31 (invariant). Starting and stopping are safe under any interleaving of \<open>Start\<close>, \<open>Stop\<close>, cancellation and the
  goroutine: at most one start is under way or running at a time, no \<open>done\<close> channel is closed
  twice (which would panic), and when a \<open>Stop\<close> returns nil the goroutine it waited for is gone.
  And stopping ends: as long as a start that \<open>Stop\<close> has cancelled is not finished, a step of it is
  possible after which the waiting \<open>Stop\<close> returns.
\<close>

theorem listener_lifecycle:
  assumes "lsn_reach l"
  shows "(\<forall>n m p q. at l n p \<and> at l m q \<and> p \<noteq> Finished \<and> q \<noteq> Finished \<longrightarrow> n = m) \<and>
    distinct (closed l) \<and> (\<forall>n. stop_returns l n \<longrightarrow> at l n Finished) \<and>
    (\<forall>n < length (places l). n \<in> cancelled l \<longrightarrow>
       stop_returns l n \<or> (\<exists>l'. lsn_step l l' \<and> stop_returns l' n))"
proof -
  have ok: "lsn_ok l" using assms by (rule lsn_reach_ok)
  have "\<exists>l'. lsn_step l l' \<and> stop_returns l' n"
    if n: "n < length (places l)" "n \<in> cancelled l" "\<not> stop_returns l n" for n
  proof (cases "places l ! n")
    case Connecting
    then have "lsn_step l (finishFailedStart n l)" using n by (intro Connected_late) (auto simp: at_def)
    then show ?thesis by (intro exI conjI) (auto simp: stop_returns_def finishFailedStart_def move_def Let_def)
  next
    case Sending_Listen
    then have "lsn_step l (finishFailedStart n l)" using n by (intro Listened_late) (auto simp: at_def)
    then show ?thesis by (intro exI conjI) (auto simp: stop_returns_def finishFailedStart_def move_def Let_def)
  next
    case Running
    then have "lsn_step l (move n Finished (l\<lparr>closed := closed l @ [n]\<rparr>))" using n by (intro Run_ends) (auto simp: at_def)
    then show ?thesis by (intro exI conjI) (auto simp: stop_returns_def move_def)
  next
    case Finished
    then have "stop_returns l n" using ok n by (auto simp: lsn_ok_def stop_returns_def at_def)
    then show ?thesis using n by simp
  qed
  moreover have "n = m" if "at l n p" "at l m q" "p \<noteq> Finished" "q \<noteq> Finished" for n m p q
    using lsn_ok_current [OF ok that(1,3)] lsn_ok_current [OF ok that(2,4)] by simp
  ultimately show ?thesis using ok unfolding lsn_ok_def stop_returns_def by blast
qed

section \<open>Witnesses\<close>

text \<open>Messages written as a tally for the identifier, a colon and the owner.\<close>

definition tally_encode :: "uuid \<times> string \<Rightarrow> string" where
  "tally_encode m = replicate (unat (fst m)) CHR ''x'' @ CHR '':'' # snd m"

definition tally_decode :: "string \<Rightarrow> (uuid \<times> string) option" where
  "tally_decode str = (case dropWhile (\<lambda>c. c = CHR ''x'') str of
     c # q \<Rightarrow> if c = CHR '':'' then Some (of_nat (length (takeWhile (\<lambda>c. c = CHR ''x'') str)), q) else None
   | [] \<Rightarrow> None)"

lemma tally_codec: "payload_codec tally_encode tally_decode"
  by (auto simp: payload_codec_def tally_encode_def tally_decode_def dropWhile_append takeWhile_append)

definition sample_waits :: "wait list" where
  "sample_waits = [Got (Some ''garbage''), Got (Some ''xx:alice''), Lost [Connect_Fails, Listening_Again],
     Got None, Got (Some ''x:bob''), Got (Some ''xxx:alice''), Lost_Cancelled]"

theorem listener_delivers_witness:
  "hub_inbox (snd (run tally_decode sample_waits three_streams)) alice_stream = [2, 3]"
proof -
  let ?msgs = "[(2, ''alice''), (1, ''bob''), (3, ''alice'')]"
  have "received sample_waits = [Some ''garbage'', Some ''xx:alice'', None, Some ''x:bob'', Some ''xxx:alice'']"
    by (simp add: sample_waits_def reconnect_def)
  then have "filter (\<lambda>n. valid_messages tally_decode [n] \<noteq> []) (received sample_waits) = map (Some \<circ> tally_encode) ?msgs"
    by (simp add: valid_messages_def tally_decode_def tally_encode_def) (simp add: eval_nat_numeral)
  moreover have "hub_inbox three_streams alice_stream = []" by code_simp
  ultimately show ?thesis
    using listener_delivers [OF tally_codec _ _ three_streams_ok alice_member, of ?msgs sample_waits]
    by (simp add: subscriberBuffer_def)
qed

theorem reconnect_backoff_witness:
  "reconnect [Connect_Fails, Listen_Fails, Listening_Again, Sleep_Cancelled] = Some (True, [100000, 200000, 400000]) \<and>
   reconnect [Connect_Fails, Listen_Fails] = None"
proof -
  have "reconnect [Connect_Fails, Listen_Fails, Listening_Again, Sleep_Cancelled] = Some (True, [100000, 200000, 400000])"
    by (simp add: reconnect_def initialBackoff_def maximumBackoff_def second_def)
  moreover have "reconnect [Connect_Fails, Listen_Fails] = None"
    using reconnect_backoff [of "[Connect_Fails, Listen_Fails]", THEN conjunct1] by (simp del: not_None_eq)
  ultimately show ?thesis by simp
qed

lemma stopped_start: "lsn_reach (cancel_ctx 0 (begin_start NewListener))"
proof -
  have "lsn_reach (begin_start NewListener)"
    by (rule lsn_reach.step [OF lsn_reach.new lsn_step.Start]) (simp add: NewListener_def)
  then show ?thesis
    by (rule lsn_reach.step) (rule lsn_step.Stop, simp_all add: begin_start_def NewListener_def)
qed

theorem listener_lifecycle_witness:
  "\<exists>l'. lsn_step (cancel_ctx 0 (begin_start NewListener)) l' \<and> stop_returns l' 0"
  using listener_lifecycle [OF stopped_start]
  by (auto simp: stop_returns_def begin_start_def NewListener_def cancel_ctx_def)

end
