(* ===== verification/Command_Line.thy ===== *)
theory Command_Line
  imports Config
begin

text \<open>
  The command line of \<open>internal/config/config.go\<close>: the flags with their kinds, defaults and
  environment variables, and \<open>FromCommand\<close>, which reads them into the configuration. A command of
  the CLI library is the value it holds for each flag name; reading a flag with a method of another
  kind gives the zero value, as the library documents.
\<close>

datatype flag_value =
    StringV string | Int32V int | DurationV time | IntV int | BoolV bool | StringsV "string list"

record cli_flag =
  flag_name :: string
  flag_default :: flag_value
  flag_env :: string

definition mk_flag :: "string \<Rightarrow> flag_value \<Rightarrow> string \<Rightarrow> cli_flag" where
  "mk_flag n v e = \<lparr>flag_name = n, flag_default = v, flag_env = e\<rparr>"

definition Flags :: "cli_flag list" where
  "Flags =
    [mk_flag ''http-addr'' (StringV '':8080'') ''HTTP_ADDR'',
     mk_flag ''db-source'' (StringV '''') ''DB_SOURCE'',
     mk_flag ''db-max-conns'' (Int32V 0) ''DB_MAX_CONNS'',
     mk_flag ''db-min-conns'' (Int32V 0) ''DB_MIN_CONNS'',
     mk_flag ''db-max-conn-lifetime'' (DurationV 0) ''DB_MAX_CONN_LIFETIME'',
     mk_flag ''db-max-conn-idle-time'' (DurationV 0) ''DB_MAX_CONN_IDLE_TIME'',
     mk_flag ''jwt-secret'' (StringV '''') ''JWT_SECRET'',
     mk_flag ''access-ttl'' (DurationV (15 * 60 * second)) ''ACCESS_TTL'',
     mk_flag ''refresh-ttl'' (DurationV (24 * 3600 * second)) ''REFRESH_TTL'',
     mk_flag ''smtp-host'' (StringV '''') ''SMTP_HOST'',
     mk_flag ''smtp-port'' (IntV 1025) ''SMTP_PORT'',
     mk_flag ''smtp-username'' (StringV '''') ''SMTP_USERNAME'',
     mk_flag ''smtp-password'' (StringV '''') ''SMTP_PASSWORD'',
     mk_flag ''smtp-from'' (StringV '''') ''SMTP_FROM'',
     mk_flag ''smtp-insecure'' (BoolV False) ''SMTP_INSECURE'',
     mk_flag ''smtp-ssl'' (BoolV False) ''SMTP_SSL'',
     mk_flag ''smtp-tls-ca-file'' (StringV '''') ''SMTP_TLS_CA_FILE'',
     mk_flag ''river-max-workers'' (IntV 10) ''RIVER_MAX_WORKERS'',
     mk_flag ''tls-cert-file'' (StringV '''') ''TLS_CERT_FILE'',
     mk_flag ''tls-key-file'' (StringV '''') ''TLS_KEY_FILE'',
     mk_flag ''trusted-proxies'' (StringsV []) ''TRUSTED_PROXIES'',
     mk_flag ''public-base-url'' (StringV '''') ''PUBLIC_BASE_URL'',
     mk_flag ''session-cookie-secure'' (BoolV True) ''SESSION_COOKIE_SECURE'',
     mk_flag ''transfer-limits'' (StringV '''') ''TRANSFER_LIMITS'',
     mk_flag ''account-opening-limits'' (StringV '''') ''ACCOUNT_OPENING_LIMITS'']"

section \<open>Reading a command\<close>

type_synonym command = "string \<Rightarrow> flag_value option"

definition cmd_string :: "command \<Rightarrow> string \<Rightarrow> string" where
  "cmd_string cmd n = (case cmd n of Some (StringV v) \<Rightarrow> v | _ \<Rightarrow> '''')"

definition cmd_int32 :: "command \<Rightarrow> string \<Rightarrow> int" where
  "cmd_int32 cmd n = (case cmd n of Some (Int32V v) \<Rightarrow> v | _ \<Rightarrow> 0)"

definition cmd_duration :: "command \<Rightarrow> string \<Rightarrow> time" where
  "cmd_duration cmd n = (case cmd n of Some (DurationV v) \<Rightarrow> v | _ \<Rightarrow> 0)"

definition cmd_int :: "command \<Rightarrow> string \<Rightarrow> int" where
  "cmd_int cmd n = (case cmd n of Some (IntV v) \<Rightarrow> v | _ \<Rightarrow> 0)"

definition cmd_bool :: "command \<Rightarrow> string \<Rightarrow> bool" where
  "cmd_bool cmd n = (case cmd n of Some (BoolV v) \<Rightarrow> v | _ \<Rightarrow> False)"

definition cmd_strings :: "command \<Rightarrow> string \<Rightarrow> string list" where
  "cmd_strings cmd n = (case cmd n of Some (StringsV v) \<Rightarrow> v | _ \<Rightarrow> [])"

lemmas cmd_defs = cmd_string_def cmd_int32_def cmd_duration_def cmd_int_def cmd_bool_def cmd_strings_def

text \<open>The result of a parser with the two values Go returns: the map, nil with an error, and the error.\<close>

definition parsed :: "go_error + 'm option \<Rightarrow> 'm option" where
  "parsed r = (case r of Inr m \<Rightarrow> m | Inl _ \<Rightarrow> None)"

definition parse_err :: "go_error + 'm \<Rightarrow> go_error option" where
  "parse_err r = (case r of Inr _ \<Rightarrow> None | Inl e \<Rightarrow> Some e)"

record limit_parsers =
  parse_transfer :: "string \<Rightarrow> go_error + transfer_limits option"
  parse_opening :: "string \<Rightarrow> go_error + opening_limits option"

definition FromCommand :: "limit_parsers \<Rightarrow> command \<Rightarrow> config" where
  "FromCommand ps cmd =
     (let limits = parse_transfer ps (cmd_string cmd ''transfer-limits'');
          opening = parse_opening ps (cmd_string cmd ''account-opening-limits'') in
      \<lparr>HTTPAddr = cmd_string cmd ''http-addr'', DBSource = cmd_string cmd ''db-source'',
       DBMaxConns = cmd_int32 cmd ''db-max-conns'', DBMinConns = cmd_int32 cmd ''db-min-conns'',
       DBMaxConnLifetime = cmd_duration cmd ''db-max-conn-lifetime'',
       DBMaxConnIdleTime = cmd_duration cmd ''db-max-conn-idle-time'',
       JWTSecret = cmd_string cmd ''jwt-secret'', AccessTTL = cmd_duration cmd ''access-ttl'',
       RefreshTTL = cmd_duration cmd ''refresh-ttl'', SMTPHost = cmd_string cmd ''smtp-host'',
       SMTPPort = cmd_int cmd ''smtp-port'', SMTPUsername = cmd_string cmd ''smtp-username'',
       SMTPPassword = cmd_string cmd ''smtp-password'', SMTPFrom = cmd_string cmd ''smtp-from'',
       SMTPInsecure = cmd_bool cmd ''smtp-insecure'', SMTPSSL = cmd_bool cmd ''smtp-ssl'',
       SMTPTLSCAFile = cmd_string cmd ''smtp-tls-ca-file'',
       RiverMaxWorkers = cmd_int cmd ''river-max-workers'',
       TLSCertFile = cmd_string cmd ''tls-cert-file'', TLSKeyFile = cmd_string cmd ''tls-key-file'',
       TrustedProxies = cmd_strings cmd ''trusted-proxies'',
       PublicBaseURL = cmd_string cmd ''public-base-url'',
       SessionCookieSecure = cmd_bool cmd ''session-cookie-secure'',
       TransferLimits = parsed limits, transferLimitsErr = parse_err limits,
       AccountOpeningLimits = parsed opening, accountOpeningLimitsErr = parse_err opening\<rparr>)"

section \<open>Every flag is read as what it is\<close>

fun same_kind :: "flag_value \<Rightarrow> flag_value \<Rightarrow> bool" where
  "same_kind (StringV _) (StringV _) = True"
| "same_kind (Int32V _) (Int32V _) = True"
| "same_kind (DurationV _) (DurationV _) = True"
| "same_kind (IntV _) (IntV _) = True"
| "same_kind (BoolV _) (BoolV _) = True"
| "same_kind (StringsV _) (StringsV _) = True"
| "same_kind _ _ = False"

text \<open>A command the library has parsed: it holds a value of the declared kind for every flag.\<close>

definition conforms :: "command \<Rightarrow> bool" where
  "conforms cmd \<longleftrightarrow> list_all (\<lambda>f. case cmd (flag_name f) of
     Some v \<Rightarrow> same_kind v (flag_default f) | None \<Rightarrow> False) Flags"

lemma kind_reads:
  "(case cmd n of Some v \<Rightarrow> same_kind v (StringV x) | None \<Rightarrow> False) \<longleftrightarrow> cmd n = Some (StringV (cmd_string cmd n))"
  "(case cmd n of Some v \<Rightarrow> same_kind v (Int32V i) | None \<Rightarrow> False) \<longleftrightarrow> cmd n = Some (Int32V (cmd_int32 cmd n))"
  "(case cmd n of Some v \<Rightarrow> same_kind v (DurationV i) | None \<Rightarrow> False) \<longleftrightarrow> cmd n = Some (DurationV (cmd_duration cmd n))"
  "(case cmd n of Some v \<Rightarrow> same_kind v (IntV i) | None \<Rightarrow> False) \<longleftrightarrow> cmd n = Some (IntV (cmd_int cmd n))"
  "(case cmd n of Some v \<Rightarrow> same_kind v (BoolV b) | None \<Rightarrow> False) \<longleftrightarrow> cmd n = Some (BoolV (cmd_bool cmd n))"
  "(case cmd n of Some v \<Rightarrow> same_kind v (StringsV xs) | None \<Rightarrow> False) \<longleftrightarrow> cmd n = Some (StringsV (cmd_strings cmd n))"
  by (auto simp: cmd_defs split: option.split flag_value.split)

text \<open>The fields of a configuration as the flags they came from, in the order of \<open>Flags\<close>.\<close>

definition as_flags :: "config \<Rightarrow> flag_value list" where
  "as_flags c =
    [StringV (HTTPAddr c), StringV (DBSource c), Int32V (DBMaxConns c), Int32V (DBMinConns c),
     DurationV (DBMaxConnLifetime c), DurationV (DBMaxConnIdleTime c), StringV (JWTSecret c),
     DurationV (AccessTTL c), DurationV (RefreshTTL c), StringV (SMTPHost c), IntV (SMTPPort c),
     StringV (SMTPUsername c), StringV (SMTPPassword c), StringV (SMTPFrom c), BoolV (SMTPInsecure c),
     BoolV (SMTPSSL c), StringV (SMTPTLSCAFile c), IntV (RiverMaxWorkers c), StringV (TLSCertFile c),
     StringV (TLSKeyFile c), StringsV (TrustedProxies c), StringV (PublicBaseURL c), BoolV (SessionCookieSecure c)]"

text \<open>
  C40 (type). Every flag is read with the method of its kind into its own field: for a command that holds a
  value of the declared kind for every flag, the configuration carries, flag by flag in the order
  they are declared, exactly those values; and the last two, the limits, are what their
  parsers make of the given text, with an error kept for \<open>Validate\<close> exactly when the parser failed.
\<close>

theorem FromCommand_typed:
  assumes "conforms cmd"
  shows "map Some (as_flags (FromCommand ps cmd)) = map (\<lambda>f. cmd (flag_name f)) (take 23 Flags) \<and>
    (\<exists>t a. map (\<lambda>f. cmd (flag_name f)) (drop 23 Flags) = [Some (StringV t), Some (StringV a)] \<and>
       TransferLimits (FromCommand ps cmd) = parsed (parse_transfer ps t) \<and>
       (transferLimitsErr (FromCommand ps cmd) = None \<longleftrightarrow> \<not> isl (parse_transfer ps t)) \<and>
       AccountOpeningLimits (FromCommand ps cmd) = parsed (parse_opening ps a) \<and>
       (accountOpeningLimitsErr (FromCommand ps cmd) = None \<longleftrightarrow> \<not> isl (parse_opening ps a)))"
proof -
  note reads = assms [unfolded conforms_def Flags_def mk_flag_def list.pred_inject cli_flag.simps kind_reads]
  have "map Some (as_flags (FromCommand ps cmd)) = map (\<lambda>f. cmd (flag_name f)) (take 23 Flags)"
    using reads by (simp add: Flags_def mk_flag_def as_flags_def FromCommand_def Let_def)
  moreover have "map (\<lambda>f. cmd (flag_name f)) (drop 23 Flags) =
      [Some (StringV (cmd_string cmd ''transfer-limits'')), Some (StringV (cmd_string cmd ''account-opening-limits''))]"
    using reads by (simp add: Flags_def mk_flag_def)
  ultimately show ?thesis
    by (auto simp: FromCommand_def Let_def parse_err_def split: sum.split)
qed

section \<open>Witness\<close>

definition default_command :: command where
  "default_command n = map_of (map (\<lambda>f. (flag_name f, flag_default f)) Flags) n"

definition no_limits :: limit_parsers where
  "no_limits = \<lparr>parse_transfer = (\<lambda>_. Inr None), parse_opening = (\<lambda>_. Inl ErrNoRows)\<rparr>"

theorem FromCommand_typed_witness:
  "AccessTTL (FromCommand no_limits default_command) = 900 * second \<and>
   SessionCookieSecure (FromCommand no_limits default_command) \<and>
   accountOpeningLimitsErr (FromCommand no_limits default_command) \<noteq> None"
proof -
  have "conforms default_command" by code_simp
  moreover have "default_command ''access-ttl'' = Some (DurationV (900 * second))"
    "default_command ''session-cookie-secure'' = Some (BoolV True)" by code_simp+
  ultimately show ?thesis
    using FromCommand_typed [of default_command no_limits]
    by (auto simp: as_flags_def Flags_def mk_flag_def no_limits_def)
qed

end
