(* ===== verification/Api_Server.thy ===== *)
theory Api_Server
  imports Api_Core
begin

text \<open>
  \<open>internal/api/server.go\<close>, \<open>routes.go\<close>, \<open>meta.go\<close> and the origin check of \<open>middleware.go\<close>: how a
  request gets to its handler. The parsers of addresses and URLs are arguments. A header map gives
  the values of a canonical name, the empty list when the header is absent.
\<close>

section \<open>Headers and proxies\<close>

type_synonym header = "string \<Rightarrow> string list"

definition header_get :: "header \<Rightarrow> string \<Rightarrow> string" where
  "header_get h k = (case h k of [] \<Rightarrow> '''' | v # _ \<Rightarrow> v)"

definition header_del :: "string \<Rightarrow> header \<Rightarrow> header" where
  "header_del k h = h(k := [])"

definition headerXForwardedHost :: string where "headerXForwardedHost = ''X-Forwarded-Host''"
definition HeaderXForwardedFor :: string where "HeaderXForwardedFor = ''X-Forwarded-For''"
definition HeaderXForwardedProto :: string where "HeaderXForwardedProto = ''X-Forwarded-Proto''"

text \<open>\<open>strings.TrimSpace\<close> on an ASCII string: tab, line feed, vertical tab, form feed, return, space.\<close>

definition is_space :: "char \<Rightarrow> bool" where
  "is_space c \<longleftrightarrow> c \<in> {CHR 0x09, CHR 0x0A, CHR 0x0B, CHR 0x0C, CHR 0x0D, CHR '' ''}"

definition trim_space :: "string \<Rightarrow> string" where
  "trim_space str = rev (dropWhile is_space (rev (dropWhile is_space str)))"

definition forwardedHost :: "string \<Rightarrow> header \<Rightarrow> string" where
  "forwardedHost host h =
     (let fwd = header_get h headerXForwardedHost in
      if fwd = '''' then host
      else trim_space (takeWhile (\<lambda>c. c \<noteq> CHR '','') fwd))"

text \<open>
  The network library: networks of a CIDR string, the address in \<open>RemoteAddr\<close> (\<open>None\<close> when it does
  not parse, the nil address), and membership.
\<close>

record ('net, 'ip) net_lib =
  parse_cidr :: "string \<Rightarrow> go_error + 'net"
  remote_ip :: "string \<Rightarrow> 'ip option"
  contains :: "'net \<Rightarrow> 'ip option \<Rightarrow> bool"

datatype 'net ip_extractor =
    ExtractIPDirect
  | ExtractIPFromXFFHeader bool bool bool "'net list" \<comment> \<open>trust loopback, link-local, private nets; ranges\<close>

fun parse_ranges :: "('net, 'ip) net_lib \<Rightarrow> string list \<Rightarrow> go_error + 'net list" where
  "parse_ranges lib [] = Inr []"
| "parse_ranges lib (cidr # cidrs) =
     (case parse_cidr lib cidr of
        Inl err \<Rightarrow> Inl (Wrapped (''parsing trusted proxy CIDR '' @ cidr) err)
      | Inr n \<Rightarrow> map_sum id (\<lambda>ns. n # ns) (parse_ranges lib cidrs))"

definition clientIPExtractor :: "('net, 'ip) net_lib \<Rightarrow> string list \<Rightarrow> go_error + 'net ip_extractor" where
  "clientIPExtractor lib proxies =
     (if length proxies = 0 then Inr ExtractIPDirect
      else map_sum id (ExtractIPFromXFFHeader False False False) (parse_ranges lib proxies))"

text \<open>
  The middleware drops the forwarding headers of a peer that is no trusted proxy. A CIDR that
  does not parse gives the nil network; asking it would panic, which the server's constructor rules
  out by parsing the same list first.
\<close>

record web_request =
  wr_method :: string
  wr_path :: string
  wr_host :: string
  wr_remote_addr :: string
  wr_tls :: bool
  wr_header :: header

fun network_contains :: "('net, 'ip) net_lib \<Rightarrow> (go_error + 'net) list \<Rightarrow> 'ip option \<Rightarrow> go_error + bool" where
  "network_contains lib [] ip = Inr False"
| "network_contains lib (Inl _ # ns) ip = Inl (Panic ''nil pointer dereference'')"
| "network_contains lib (Inr n # ns) ip = (if contains lib n ip then Inr True else network_contains lib ns ip)"

definition trustedForwardingHeaders :: "('net, 'ip) net_lib \<Rightarrow> string list \<Rightarrow> web_request \<Rightarrow> go_error + web_request" where
  "trustedForwardingHeaders lib proxies r =
     map_sum id (\<lambda>trusted.
       if trusted then r
       else r\<lparr>wr_header := header_del headerXForwardedHost (header_del HeaderXForwardedProto
                (header_del HeaderXForwardedFor (wr_header r)))\<rparr>)
     (network_contains lib (map (parse_cidr lib) proxies) (remote_ip lib (wr_remote_addr r)))"

section \<open>Origins\<close>

definition cross_origin_denied :: go_error where
  "cross_origin_denied = ApiError 403 ''cross_origin_denied'' ''cross-origin request denied''"

definition sameOrigin ::
  "(string \<Rightarrow> go_error + url) \<Rightarrow> config \<Rightarrow> (web_request \<Rightarrow> go_error + 'a) \<Rightarrow> web_request \<Rightarrow> go_error + 'a" where
  "sameOrigin parse_url cfg next_handler r =
     (let h = wr_header r; site = header_get h ''Sec-Fetch-Site'' in
      if site \<noteq> '''' \<and> site \<noteq> ''same-origin'' \<and> site \<noteq> ''none'' then Inl cross_origin_denied
      else
        let origin = header_get h ''Origin'' in
        if origin = '''' then next_handler r
        else
          case parse_url origin of
            Inl _ \<Rightarrow> Inl cross_origin_denied
          | Inr got \<Rightarrow>
              if url_scheme got = '''' \<or> url_host got = '''' \<or> url_path got \<noteq> '''' then Inl cross_origin_denied
              else
                let forwardedScheme = header_get h HeaderXForwardedProto;
                    scheme = (if wr_tls r then ''https''
                              else if forwardedScheme = ''http'' \<or> forwardedScheme = ''https'' then forwardedScheme
                              else ''http'');
                    host = forwardedHost (wr_host r) h;
                    (scheme, host) =
                      (if PublicBaseURL cfg \<noteq> '''' then
                         (case parse_url (PublicBaseURL cfg) of
                            Inr expected \<Rightarrow> (url_scheme expected, url_host expected) | Inl _ \<Rightarrow> (scheme, host))
                       else (scheme, host)) in
                if \<not> equal_fold (url_scheme got) scheme \<or> \<not> equal_fold (url_host got) host
                  then Inl cross_origin_denied
                else next_handler r)"

section \<open>Small handlers\<close>

definition livez :: "string response" where
  "livez = (200, ''ok'')"

definition readyz :: "(unit \<Rightarrow> go_error option) \<Rightarrow> string response" where
  "readyz readiness = (case readiness () of Some _ \<Rightarrow> (503, ''unavailable'') | None \<Rightarrow> (200, ''ready''))"

definition transferLimits :: "config \<Rightarrow> transfer_limits response" where
  "transferLimits cfg = (200, case TransferLimits cfg of None \<Rightarrow> [] | Some m \<Rightarrow> m)"

definition accountOpeningLimits :: "config \<Rightarrow> opening_limits response" where
  "accountOpeningLimits cfg = (200, case AccountOpeningLimits cfg of None \<Rightarrow> [] | Some m \<Rightarrow> m)"

definition noStore :: "header \<Rightarrow> header" where
  \<comment> \<open>on the headers of the response\<close>
  "noStore h = h(''Cache-Control'' := [''no-store''])"

definition quoted :: "string \<Rightarrow> string" where
  "quoted w = [CHR 0x27] @ w @ [CHR 0x27]"

record secure_config =
  sc_xss_protection :: string
  sc_content_type_nosniff :: string
  sc_x_frame_options :: string
  sc_hsts_max_age :: int
  sc_hsts_exclude_subdomains :: bool
  sc_content_security_policy :: string
  sc_referrer_policy :: string

definition securityHeaders :: secure_config where
  "securityHeaders = \<lparr>sc_xss_protection = ''0'', sc_content_type_nosniff = ''nosniff'',
     sc_x_frame_options = ''DENY'', sc_hsts_max_age = 31536000, sc_hsts_exclude_subdomains = True,
     sc_content_security_policy =
       ''default-src '' @ quoted ''self'' @ ''; script-src '' @ quoted ''self'' @ ''; style-src '' @ quoted ''self'' @
       ''; font-src '' @ quoted ''self'' @ ''; img-src '' @ quoted ''self'' @ '' data:; connect-src '' @ quoted ''self'' @
       ''; object-src '' @ quoted ''none'' @ ''; base-uri '' @ quoted ''none'' @
       ''; frame-ancestors '' @ quoted ''none'' @ ''; form-action '' @ quoted ''self'',
     sc_referrer_policy = ''no-referrer''\<rparr>"

text \<open>What the request logger writes of a finished request.\<close>

record log_values =
  lv_method :: string
  lv_uri_path :: string
  lv_status :: int
  lv_latency :: time
  lv_host :: string
  lv_content_length :: string
  lv_response_size :: int
  lv_user_agent :: string
  lv_remote_ip :: string
  lv_request_id :: string
  lv_error :: "go_error option"

datatype log_attr = Str string string | Num string int | Err string go_error

definition requestLogger :: "string \<Rightarrow> header \<Rightarrow> log_values \<Rightarrow> string \<times> string \<times> log_attr list" where
  "requestLogger scheme h v =
     (let (level, msg) = (if lv_error v \<noteq> None then (''ERROR'', ''REQUEST_ERROR'') else (''INFO'', ''REQUEST'')) in
      (level, msg,
       [Str ''method'' (lv_method v), Str ''path'' (lv_uri_path v), Num ''status'' (lv_status v),
        Num ''latency'' (lv_latency v), Str ''scheme'' scheme, Str ''host'' (forwardedHost (lv_host v) h),
        Str ''bytes_in'' (lv_content_length v), Num ''bytes_out'' (lv_response_size v),
        Str ''user_agent'' (lv_user_agent v), Str ''remote_ip'' (lv_remote_ip v),
        Str ''request_id'' (lv_request_id v)] @
       (case lv_error v of None \<Rightarrow> [] | Some e \<Rightarrow> [Err ''error'' e])))"

section \<open>The server and its routes\<close>

datatype middleware =
    Recover
  | TrustedForwardingHeaders "string list"
  | RequestID
  | RequestLogger
  | SecurityHeaders secure_config
  | BodyLimit int
  | ContextTimeout time string \<comment> \<open>except on the path\<close>

record 'net app =
  app_extractor :: "'net ip_extractor"
  app_middleware :: "middleware list"
  app_keepalive :: time

definition NewServer :: "('net, 'ip) net_lib \<Rightarrow> config \<Rightarrow> go_error + 'net app" where
  "NewServer lib cfg =
     map_sum id (\<lambda>extractor.
       \<lparr>app_extractor = extractor,
        app_middleware = [Recover, TrustedForwardingHeaders (TrustedProxies cfg), RequestID, RequestLogger,
          SecurityHeaders securityHeaders, BodyLimit 1048576,
          ContextTimeout (30 * second) ''/api/v1/notifications/stream''],
        app_keepalive = 15 * second\<rparr>)
     (clientIPExtractor lib (TrustedProxies cfg))"

datatype limiter = Unlimited | CredentialLimiter | AuthLimiter

text \<open>Tokens per second in tenths, burst, expiry; a request is identified by method, path and client.\<close>

definition limiter_config :: "limiter \<Rightarrow> (int \<times> int \<times> time) option" where
  "limiter_config l =
     (case l of Unlimited \<Rightarrow> None
      | CredentialLimiter \<Rightarrow> Some (2, 5, 15 * 60 * second)
      | AuthLimiter \<Rightarrow> Some (10, 5, 15 * 60 * second))"

definition endpointClient :: "web_request \<Rightarrow> string \<Rightarrow> string" where
  "endpointClient r real_ip = wr_method r @ '' '' @ wr_path r @ [CHR 0x00] @ real_ip"

record route =
  rt_method :: string
  rt_path :: string
  rt_handler :: string
  rt_auth :: bool
  rt_same_origin :: bool
  rt_limiter :: limiter
  rt_no_store :: bool

definition open_route :: "string \<Rightarrow> string \<Rightarrow> string \<Rightarrow> bool \<Rightarrow> limiter \<Rightarrow> route" where
  "open_route m p h origin l = \<lparr>rt_method = m, rt_path = ''/api/v1'' @ p, rt_handler = h, rt_auth = False,
     rt_same_origin = origin, rt_limiter = l, rt_no_store = True\<rparr>"

definition auth_route :: "string \<Rightarrow> string \<Rightarrow> string \<Rightarrow> route" where
  "auth_route m p h = \<lparr>rt_method = m, rt_path = ''/api/v1'' @ p, rt_handler = h, rt_auth = True,
     rt_same_origin = False, rt_limiter = Unlimited, rt_no_store = True\<rparr>"

definition health_route :: "string \<Rightarrow> string \<Rightarrow> route" where
  "health_route p h = \<lparr>rt_method = ''GET'', rt_path = p, rt_handler = h, rt_auth = False,
     rt_same_origin = False, rt_limiter = Unlimited, rt_no_store = False\<rparr>"

definition registerRoutes :: "route list" where
  "registerRoutes =
    [health_route ''/livez'' ''livez'', health_route ''/readyz'' ''readyz'',
     open_route ''POST'' ''/users'' ''createUser'' False CredentialLimiter,
     open_route ''POST'' ''/users/login'' ''loginUser'' False CredentialLimiter,
     open_route ''POST'' ''/users/logout'' ''logoutUser'' True AuthLimiter,
     open_route ''POST'' ''/tokens/renew'' ''renewToken'' True AuthLimiter,
     open_route ''POST'' ''/users/verify_email/resend'' ''resendVerifyEmail'' False AuthLimiter,
     open_route ''GET'' ''/users/verify_email'' ''verifyEmail'' False AuthLimiter,
     open_route ''GET'' ''/transfer-limits'' ''transferLimits'' False Unlimited,
     open_route ''GET'' ''/account-opening-limits'' ''accountOpeningLimits'' False Unlimited,
     auth_route ''POST'' ''/accounts'' ''createAccount'',
     auth_route ''GET'' ''/accounts/:id'' ''getAccount'',
     auth_route ''GET'' ''/accounts'' ''listAccounts'',
     auth_route ''GET'' ''/accounts/:id/transfers'' ''listTransfers'',
     auth_route ''POST'' ''/transfers'' ''createTransfer'',
     auth_route ''GET'' ''/notifications/stream'' ''streamNotifications'',
     auth_route ''GET'' ''/notifications'' ''listNotifications'',
     auth_route ''PUT'' ''/notifications/:id/read'' ''markNotificationRead'',
     auth_route ''PUT'' ''/notifications/read-all'' ''markAllNotificationsRead'']"

section \<open>Whose word is taken for the origin\<close>

lemma parse_ranges_ok: "parse_ranges lib cidrs = Inr ns \<Longrightarrow> map (parse_cidr lib) cidrs = map Inr ns"
  by (induction cidrs arbitrary: ns) (auto simp: map_sum_def split: sum.splits)

lemma network_contains_ranges:
  "network_contains lib (map Inr ns) ip = Inr (\<exists>n \<in> set ns. contains lib n ip)"
  by (induction ns) auto

text \<open>The addresses the server has been told to trust.\<close>

definition trusted_peer :: "('net, 'ip) net_lib \<Rightarrow> config \<Rightarrow> web_request \<Rightarrow> bool" where
  "trusted_peer lib cfg r \<longleftrightarrow> list_ex (\<lambda>cidr. case parse_cidr lib cidr of
     Inr n \<Rightarrow> contains lib n (remote_ip lib (wr_remote_addr r)) | Inl _ \<Rightarrow> False) (TrustedProxies cfg)"

definition without_forwarding :: "web_request \<Rightarrow> web_request" where
  "without_forwarding r = r\<lparr>wr_header := (wr_header r)
     (HeaderXForwardedFor := [], HeaderXForwardedProto := [], headerXForwardedHost := [])\<rparr>"

lemma trustedForwardingHeaders_eq:
  assumes "NewServer lib cfg = Inr app"
  shows "trustedForwardingHeaders lib (TrustedProxies cfg) r =
    Inr (if trusted_peer lib cfg r then r else without_forwarding r)"
proof -
  obtain ns where ns: "map (parse_cidr lib) (TrustedProxies cfg) = map Inr ns"
    using assms
    by (auto simp: NewServer_def clientIPExtractor_def map_sum_def intro: parse_ranges_ok split: sum.splits if_splits)
  have "list_ex (\<lambda>x. case x of Inr n \<Rightarrow> contains lib n ip | Inl _ \<Rightarrow> False) (map (parse_cidr lib) (TrustedProxies cfg)) =
      (\<exists>n \<in> set ns. contains lib n ip)" for ip
    unfolding ns by (auto simp: list_ex_iff)
  then have "trusted_peer lib cfg r = (\<exists>n \<in> set ns. contains lib n (remote_ip lib (wr_remote_addr r)))"
    by (simp add: trusted_peer_def list_ex_iff)
  moreover have "header_del headerXForwardedHost (header_del HeaderXForwardedProto (header_del HeaderXForwardedFor h)) =
      h(HeaderXForwardedFor := [], HeaderXForwardedProto := [], headerXForwardedHost := [])" for h
    by (simp add: header_del_def)
  ultimately show ?thesis
    by (simp add: trustedForwardingHeaders_def ns network_contains_ranges without_forwarding_def)
qed

text \<open>
  The origin a request must come from: the configured public one, or else the host and scheme it
  was addressed to, as a trusted proxy reports them or as the connection shows.
\<close>

definition expected_origin :: "(string \<Rightarrow> go_error + url) \<Rightarrow> config \<Rightarrow> bool \<Rightarrow> web_request \<Rightarrow> string \<times> string" where
  "expected_origin parse_url cfg via_proxy r =
     (case (if PublicBaseURL cfg = '''' then Inl ErrNoRows else parse_url (PublicBaseURL cfg)) of
        Inr u \<Rightarrow> (url_scheme u, url_host u)
      | Inl _ \<Rightarrow>
          (if wr_tls r then ''https''
           else if via_proxy \<and> header_get (wr_header r) HeaderXForwardedProto = ''https'' then ''https'' else ''http'',
           if via_proxy then forwardedHost (wr_host r) (wr_header r) else wr_host r))"

definition origin_ok :: "(string \<Rightarrow> go_error + url) \<Rightarrow> config \<Rightarrow> bool \<Rightarrow> web_request \<Rightarrow> bool" where
  "origin_ok parse_url cfg via_proxy r \<longleftrightarrow>
     header_get (wr_header r) ''Sec-Fetch-Site'' \<in> {'''', ''same-origin'', ''none''} \<and>
     (header_get (wr_header r) ''Origin'' = '''' \<or>
      (case parse_url (header_get (wr_header r) ''Origin'') of
         Inl _ \<Rightarrow> False
       | Inr got \<Rightarrow> url_scheme got \<noteq> '''' \<and> url_host got \<noteq> '''' \<and> url_path got = '''' \<and>
           equal_fold (url_scheme got) (fst (expected_origin parse_url cfg via_proxy r)) \<and>
           equal_fold (url_host got) (snd (expected_origin parse_url cfg via_proxy r))))"

lemma sameOrigin_eq:
  "sameOrigin parse_url cfg nxt r = (if origin_ok parse_url cfg True r then nxt r else Inl cross_origin_denied)"
  by (auto simp: sameOrigin_def origin_ok_def expected_origin_def Let_def split: sum.split if_splits)

lemma get_without_forwarding:
  "header_get (wr_header (without_forwarding r)) k =
     (if k \<in> {HeaderXForwardedFor, HeaderXForwardedProto, headerXForwardedHost} then ''''
      else header_get (wr_header r) k)"
  by (simp add: without_forwarding_def header_get_def)

lemma origin_ok_without_forwarding:
  "origin_ok parse_url cfg True (without_forwarding r) = origin_ok parse_url cfg False r"
proof -
  have keys: "''Sec-Fetch-Site'' \<notin> {HeaderXForwardedFor, HeaderXForwardedProto, headerXForwardedHost}"
    "''Origin'' \<notin> {HeaderXForwardedFor, HeaderXForwardedProto, headerXForwardedHost}"
    by (simp_all add: HeaderXForwardedFor_def HeaderXForwardedProto_def headerXForwardedHost_def)
  have same: "wr_tls (without_forwarding r) = wr_tls r" "wr_host (without_forwarding r) = wr_host r"
    by (simp_all add: without_forwarding_def)
  have host: "forwardedHost h (wr_header (without_forwarding r)) = h" for h
    using get_without_forwarding [of r headerXForwardedHost] by (simp add: forwardedHost_def)
  have "expected_origin parse_url cfg True (without_forwarding r) = expected_origin parse_url cfg False r"
    unfolding expected_origin_def same host get_without_forwarding by simp
  moreover have "header_get (wr_header (without_forwarding r)) ''Sec-Fetch-Site'' = header_get (wr_header r) ''Sec-Fetch-Site''"
    "header_get (wr_header (without_forwarding r)) ''Origin'' = header_get (wr_header r) ''Origin''"
    using keys by (simp_all only: get_without_forwarding if_False)
  ultimately show ?thesis by (simp only: origin_ok_def)
qed

text \<open>
  C35 (safety). A hostile page cannot use the refresh cookie: on a server that started, a request to renew or log out
  reaches its handler exactly if the browser does not call it cross-site and its \<open>Origin\<close>, when it has
  one, is the public origin, or, without one configured, the scheme and host the request was made to.
  What a client claims in forwarding headers has no say in this unless the peer is a trusted proxy: the
  handler never even sees those headers.
\<close>

theorem cross_origin_refused:
  assumes "NewServer lib cfg = Inr app"
  shows "\<exists>r'. trustedForwardingHeaders lib (TrustedProxies cfg) r = Inr r' \<and>
    (\<not> trusted_peer lib cfg r \<longrightarrow> (\<forall>k. header_get (wr_header r') k =
       (if k \<in> {HeaderXForwardedFor, HeaderXForwardedProto, headerXForwardedHost} then ''''
        else header_get (wr_header r) k))) \<and>
    sameOrigin parse_url cfg nxt r' =
      (if origin_ok parse_url cfg (trusted_peer lib cfg r) r then nxt r' else Inl cross_origin_denied)"
  using trustedForwardingHeaders_eq [OF assms, of r] get_without_forwarding [of r]
  by (auto simp: sameOrigin_eq origin_ok_without_forwarding)

section \<open>Witness\<close>

definition sample_net :: "(string, string) net_lib" where
  "sample_net = \<lparr>parse_cidr = (\<lambda>c. if c = '''' then Inl (PlainError ''cidr'') else Inr c),
     remote_ip = (\<lambda>a. Some a), contains = (\<lambda>n ip. ip = Some n)\<rparr>"

definition sample_url :: "string \<Rightarrow> go_error + url" where
  "sample_url str = (if take 7 str = ''http://'' then
       Inr \<lparr>url_scheme = ''http'', url_host = drop 7 str, url_hostname = drop 7 str, url_has_user = False,
         url_path = '''', url_raw_query = '''', url_fragment = ''''\<rparr>
     else Inl (PlainError ''url''))"

text \<open>A page of evil.org that forges the forwarding header, directly and through the proxy.\<close>

definition forged :: "string \<Rightarrow> web_request" where
  "forged peer = \<lparr>wr_method = ''POST'', wr_path = ''/api/v1/tokens/renew'', wr_host = ''bank.org'',
     wr_remote_addr = peer, wr_tls = False,
     wr_header = (\<lambda>_. [])(''Origin'' := [''http://evil.org''], headerXForwardedHost := [''evil.org''])\<rparr>"

definition proxy_config :: config where
  "proxy_config = sample_config\<lparr>TrustedProxies := [''10.0.0.1'']\<rparr>"

theorem cross_origin_refused_witness:
  "\<exists>r'. trustedForwardingHeaders sample_net (TrustedProxies proxy_config) (forged ''6.6.6.6'') = Inr r' \<and>
     sameOrigin sample_url proxy_config (\<lambda>_. Inr ()) r' = Inl cross_origin_denied"
proof -
  obtain app where "NewServer sample_net proxy_config = Inr app"
    by (simp add: NewServer_def clientIPExtractor_def proxy_config_def sample_config_def sample_net_def)
  moreover have "\<not> trusted_peer sample_net proxy_config (forged ''6.6.6.6'')"
    "\<not> origin_ok sample_url proxy_config False (forged ''6.6.6.6'')" by code_simp+
  ultimately show ?thesis
    using cross_origin_refused [of sample_net proxy_config app "forged ''6.6.6.6''" sample_url "\<lambda>_. Inr ()"] by auto
qed

end
