(* ===== verification/Spa.thy ===== *)
theory Spa
  imports Go_Errors "HOL-Library.Sublist"
begin

text \<open>
  \<open>internal/api/spa.go\<close>: the catch-all route that serves the embedded single-page application.
  \<open>path.Clean\<close> of the standard library is written out for the rooted paths it is applied to. The
  embedded file system is an argument; what \<open>http.FileServerFS\<close> answers is left to it, once a
  request has been handed over.
\<close>

section \<open>\<open>path.Clean\<close>\<close>

text \<open>The elements between the slashes, and a rooted path without its first slash.\<close>

fun split_slash :: "string \<Rightarrow> string list" where
  "split_slash [] = [[]]"
| "split_slash (c # cs) =
     (if c = CHR ''/'' then [] # split_slash cs
      else case split_slash cs of e # es \<Rightarrow> (c # e) # es | [] \<Rightarrow> [[c]])"

fun join_slash :: "string list \<Rightarrow> string" where
  "join_slash [] = []"
| "join_slash [e] = e"
| "join_slash (e # es) = e @ ''/'' @ join_slash es"

text \<open>
  Empty elements and \<open>.\<close> are dropped, \<open>..\<close> removes the element before it, and nothing at the
  root. The elements kept so far are on a stack.
\<close>

fun clean_onto :: "string list \<Rightarrow> string list \<Rightarrow> string list" where
  "clean_onto st [] = rev st"
| "clean_onto st (e # es) =
     (if e = '''' \<or> e = ''.'' then clean_onto st es
      else if e = ''..'' then clean_onto (tl st) es
      else clean_onto (e # st) es)"

definition Clean :: "string \<Rightarrow> string" where
  "Clean p = ''/'' @ join_slash (clean_onto [] (split_slash (tl p)))"

definition TrimPrefix :: "string \<Rightarrow> string \<Rightarrow> string" where
  "TrimPrefix str pre = (if prefix pre str then drop (length pre) str else str)"

section \<open>Serving\<close>

text \<open>\<open>fs.Stat\<close> tells directories from files; \<open>Open\<close> can fail, and then reading can.\<close>

record dist =
  fs_stat :: "string \<Rightarrow> go_error + bool"
  fs_open :: "string \<Rightarrow> go_error + (go_error + string)"

datatype served =
    Blob int string string string \<comment> \<open>status, cache control, content type, body\<close>
  | By_File_Server string string \<comment> \<open>cache control, the request's path\<close>

definition setCacheHeaders :: "string \<Rightarrow> string" where
  "setCacheHeaders name =
     (if prefix ''assets/'' name then ''public, max-age=31536000, immutable'' else ''no-cache'')"

definition not_found :: go_error where
  "not_found = HTTPError 404"

definition serveIndex :: "dist \<Rightarrow> go_error + served" where
  "serveIndex fs =
     (case fs_open fs ''index.html'' of
        Inl _ \<Rightarrow> Inl not_found
      | Inr (Inl err) \<Rightarrow> Inl err
      | Inr (Inr body) \<Rightarrow> Inr (Blob 200 ''no-cache'' ''text/html; charset=utf-8'' body))"

definition spa_name :: "string \<Rightarrow> string" where
  "spa_name url_path =
     (let name = TrimPrefix (Clean (''/'' @ url_path)) ''/'' in if name = '''' then ''index.html'' else name)"

definition serveSPA :: "dist \<Rightarrow> string \<Rightarrow> go_error + served" where
  "serveSPA fs url_path =
     (let name = spa_name url_path in
      if name = ''api'' \<or> prefix ''api/'' name then Inl not_found
      else case fs_stat fs name of
          Inl _ \<Rightarrow> serveIndex fs
        | Inr is_dir \<Rightarrow> if is_dir then serveIndex fs else Inr (By_File_Server (setCacheHeaders name) url_path))"

text \<open>\<open>RegisterSPA\<close>: no file system, no route.\<close>

definition RegisterSPA :: "dist option \<Rightarrow> (string \<Rightarrow> go_error + served) option" where
  "RegisterSPA fs = map_option serveSPA fs"

section \<open>The embedded files\<close>

text \<open>
  \<open>frontend/embed.go\<close>. The files are embedded under \<open>dist\<close>, and \<open>Dist\<close> hands out the tree below it.
  \<open>fs.Sub\<close> of the standard library refuses names that are not valid paths (rooted names, and those with
  an empty element, \<open>.\<close> or \<open>..\<close>; \<open>utf_ok\<close> is the test for UTF-8) and puts the directory in front of the
  others.
\<close>

definition ValidPath :: "(string \<Rightarrow> bool) \<Rightarrow> string \<Rightarrow> bool" where
  "ValidPath utf_ok name \<longleftrightarrow> utf_ok name \<and>
     (name = ''.'' \<or> list_all (\<lambda>e. e \<noteq> '''' \<and> e \<noteq> ''.'' \<and> e \<noteq> ''..'') (split_slash name))"

definition invalid_path :: go_error where
  "invalid_path = PlainError ''invalid argument''"

definition below :: "(string \<Rightarrow> bool) \<Rightarrow> string \<Rightarrow> (string \<Rightarrow> go_error + 'a) \<Rightarrow> string \<Rightarrow> go_error + 'a" where
  "below utf_ok dir f name =
     (if \<not> ValidPath utf_ok name then Inl invalid_path
      else f (if name = ''.'' then dir else dir @ ''/'' @ name))"

definition fs_Sub :: "(string \<Rightarrow> bool) \<Rightarrow> dist \<Rightarrow> string \<Rightarrow> go_error + dist" where
  "fs_Sub utf_ok fsys dir =
     (if \<not> ValidPath utf_ok dir then Inl invalid_path
      else if dir = ''.'' then Inr fsys
      else Inr \<lparr>fs_stat = below utf_ok dir (fs_stat fsys), fs_open = below utf_ok dir (fs_open fsys)\<rparr>)"

definition Dist :: "(string \<Rightarrow> bool) \<Rightarrow> dist \<Rightarrow> go_error + dist" where
  "Dist utf_ok distFS = fs_Sub utf_ok distFS ''dist''"

section \<open>Cleaned paths\<close>

definition plain :: "string \<Rightarrow> bool" where
  "plain e \<longleftrightarrow> e \<noteq> '''' \<and> e \<noteq> ''.'' \<and> e \<noteq> ''..'' \<and> CHR ''/'' \<notin> set e"

lemma split_slash_free: "\<forall>e \<in> set (split_slash p). CHR ''/'' \<notin> set e"
  by (induction p) (auto split: list.split)

lemma split_slash_ne: "split_slash p \<noteq> []"
  by (induction p) (auto split: list.split)

lemma clean_onto_plain:
  "\<forall>e \<in> set es. CHR ''/'' \<notin> set e \<Longrightarrow> \<forall>e \<in> set st. plain e \<Longrightarrow> \<forall>e \<in> set (clean_onto st es). plain e"
proof (induction st es rule: clean_onto.induct)
  case (2 st e es)
  have tl: "\<forall>x \<in> set (tl st). plain x" using 2(5) by (cases st) auto
  consider "e = '''' \<or> e = ''.''" | "e = ''..''" | "plain e" using 2(4) by (auto simp: plain_def)
  then show ?case
  proof cases
    case 1
    then show ?thesis using 2 by auto
  next
    case 2
    then show ?thesis using "2.IH"(2) "2.prems"(1) tl by simp
  next
    case 3
    then have ne: "\<not> (e = '''' \<or> e = ''.'')" "e \<noteq> ''..''" by (simp_all add: plain_def)
    have free: "\<forall>x \<in> set es. CHR ''/'' \<notin> set x" and st: "\<forall>x \<in> set (e # st). plain x"
      using "2.prems" 3 by simp_all
    show ?thesis using "2.IH"(3) [OF ne free st] ne by (simp only: clean_onto.simps if_False)
  qed
qed simp

lemma split_join: "\<forall>e \<in> set es. CHR ''/'' \<notin> set e \<Longrightarrow> es \<noteq> [] \<Longrightarrow> split_slash (join_slash es) = es"
proof (induction es rule: join_slash.induct)
  case (2 e)
  then have "CHR ''/'' \<notin> set e" by simp
  then show ?case by (induction e) auto
next
  case (3 e f es)
  have tail: "split_slash (join_slash (f # es)) = f # es" using 3 by simp
  have "CHR ''/'' \<notin> set e" using 3 by simp
  then show ?case by (induction e) (auto simp: tail)
qed simp

lemma clean_onto_id: "\<forall>e \<in> set es. plain e \<Longrightarrow> clean_onto st es = rev st @ es"
  by (induction es arbitrary: st) (auto simp: plain_def)

definition elements :: "string \<Rightarrow> string list" where
  "elements url_path = clean_onto [] (split_slash url_path)"

lemma elements_plain: "\<forall>e \<in> set (elements p). plain e"
  unfolding elements_def using clean_onto_plain [OF split_slash_free, of "[]"] by simp

lemma spa_name_elements:
  "spa_name p = (if elements p = [] then ''index.html'' else join_slash (elements p))"
proof -
  have "TrimPrefix (Clean (''/'' @ p)) ''/'' = join_slash (elements p)"
    by (simp add: TrimPrefix_def Clean_def elements_def)
  moreover have "join_slash es = '''' \<longleftrightarrow> es = []" if "\<forall>e \<in> set es. plain e" for es
    using that by (cases es rule: join_slash.cases) (auto simp: plain_def)
  ultimately show ?thesis using elements_plain [of p] by (simp add: spa_name_def)
qed

lemma prefix_join:
  assumes "\<forall>e \<in> set es. plain e" "es \<noteq> []" "CHR ''/'' \<notin> set w"
  shows "prefix (w @ ''/'') (join_slash es) \<longleftrightarrow> hd es = w \<and> tl es \<noteq> []"
proof (cases es rule: join_slash.cases)
  case (2 e)
  then have "CHR ''/'' \<notin> set e" using assms(1) by (simp add: plain_def)
  then have "\<not> prefix (w @ ''/'') e" by (auto dest: set_mono_prefix)
  then show ?thesis using 2 by simp
next
  case (3 e f es')
  then have e: "CHR ''/'' \<notin> set e" using assms(1) by (simp add: plain_def)
  have "prefix (w @ ''/'') (e @ ''/'' @ r) \<longleftrightarrow> e = w" for r
  proof
    assume "prefix (w @ ''/'') (e @ ''/'' @ r)"
    then obtain t where "e @ ''/'' @ r = w @ ''/'' @ t" by (auto simp: prefix_def)
    then have "takeWhile (\<lambda>c. c \<noteq> CHR ''/'') (e @ ''/'' @ r) = takeWhile (\<lambda>c. c \<noteq> CHR ''/'') (w @ ''/'' @ t)" by simp
    moreover have "takeWhile (\<lambda>c. c \<noteq> CHR ''/'') (e @ ''/'' @ r) = e"
      using e by (subst takeWhile_append2) auto
    moreover have "takeWhile (\<lambda>c. c \<noteq> CHR ''/'') (w @ ''/'' @ t) = w"
      using assms(3) by (subst takeWhile_append2) auto
    ultimately show "e = w" by simp
  qed simp
  then show ?thesis using 3 by simp
qed (use assms(2) in simp)

lemma join_word:
  assumes "\<forall>e \<in> set es. plain e" "es \<noteq> []" "CHR ''/'' \<notin> set w"
  shows "join_slash es = w \<longleftrightarrow> es = [w]"
proof (cases es rule: join_slash.cases)
  case (3 e f es')
  then have "CHR ''/'' \<in> set (join_slash es)" by simp
  then show ?thesis using assms(3) 3 by auto
qed (use assms(2) in auto)

lemma spa_name_plain: "list_all plain (split_slash (spa_name p))"
proof (cases "elements p = []")
  case True
  then show ?thesis by (simp add: spa_name_elements plain_def)
next
  case False
  have "\<forall>e \<in> set (elements p). CHR ''/'' \<notin> set e" using elements_plain [of p] by (simp add: plain_def)
  from split_join [OF this False] show ?thesis
    using False elements_plain [of p] by (simp add: spa_name_elements list_all_iff)
qed

text \<open>What the catch-all route asks of the embedded files, it asks below \<open>dist\<close>.\<close>

lemma Dist_lookup:
  assumes "Dist utf_ok embedded = Inr fs" "utf_ok (spa_name p)"
  shows "fs_stat fs (spa_name p) = fs_stat embedded (''dist/'' @ spa_name p)"
proof -
  have "spa_name p \<noteq> ''.''" using spa_name_plain [of p] by (auto simp: plain_def)
  moreover have "ValidPath utf_ok (spa_name p)"
    using spa_name_plain [of p] assms(2) by (auto simp: ValidPath_def plain_def list_all_iff)
  ultimately show ?thesis
    using assms(1) by (auto simp: Dist_def fs_Sub_def below_def split: if_splits)
qed

text \<open>
  C36 (safety). The catch-all route stays inside the application and off the API. Whatever path is requested, the
  name it looks up has no empty element, no \<open>.\<close> and no \<open>..\<close>, so that a file system made by \<open>Dist\<close>
  looks it up below \<open>dist\<close> among the embedded files; a path whose first element after
  cleaning is \<open>api\<close> is not found, never the page; a file is served with a year's immutable caching
  exactly under \<open>assets\<close>, everything else revalidated; and every other path gets the page itself,
  or not found if there is none.
\<close>

theorem spa_decides:
  "list_all plain (elements p) \<and>
   (Dist utf_ok embedded = Inr fs \<and> utf_ok (spa_name p) \<longrightarrow>
     fs_stat fs (spa_name p) = fs_stat embedded (''dist/'' @ spa_name p)) \<and>
   spa_name p = (if elements p = [] then ''index.html'' else join_slash (elements p)) \<and>
   (elements p \<noteq> [] \<longrightarrow> elements (spa_name p) = elements p) \<and>
   serveSPA fs p =
     (if elements p \<noteq> [] \<and> hd (elements p) = ''api'' then Inl not_found
      else case fs_stat fs (spa_name p) of
          Inr False \<Rightarrow> Inr (By_File_Server
            (if elements p \<noteq> [] \<and> hd (elements p) = ''assets'' \<and> tl (elements p) \<noteq> []
             then ''public, max-age=31536000, immutable'' else ''no-cache'') p)
        | _ \<Rightarrow> (case fs_open fs ''index.html'' of
            Inl _ \<Rightarrow> Inl not_found
          | Inr (Inl err) \<Rightarrow> Inl err
          | Inr (Inr body) \<Rightarrow> Inr (Blob 200 ''no-cache'' ''text/html; charset=utf-8'' body)))"
proof (cases "elements p = []")
  case True
  then have "spa_name p = ''index.html''" by (simp add: spa_name_elements)
  then show ?thesis
    using True Dist_lookup [of utf_ok embedded fs p]
    by (auto simp: serveSPA_def Let_def setCacheHeaders_def serveIndex_def split: sum.split bool.split)
next
  case False
  note pl = elements_plain [of p] and name = spa_name_elements [of p]
  have api: "spa_name p = ''api'' \<or> prefix ''api/'' (spa_name p) \<longleftrightarrow> hd (elements p) = ''api''"
    using prefix_join [OF pl False, of "''api''"] join_word [OF pl False, of "''api''"] name False
    by (cases "elements p") auto
  have assets: "prefix ''assets/'' (spa_name p) \<longleftrightarrow> hd (elements p) = ''assets'' \<and> tl (elements p) \<noteq> []"
    using prefix_join [OF pl False, of "''assets''"] name False by simp
  have "\<forall>e \<in> set (elements p). CHR ''/'' \<notin> set e" using pl by (simp add: plain_def)
  from split_join [OF this False] have "elements (spa_name p) = elements p"
    using name False clean_onto_id [OF pl, of "[]"] by (simp add: elements_def [of "join_slash _"])
  moreover have "list_all plain (elements p)" using pl by (simp add: list_all_iff)
  ultimately show ?thesis
    using name False Dist_lookup [of utf_ok embedded fs p] unfolding serveSPA_def Let_def api setCacheHeaders_def assets serveIndex_def
    by (simp split: sum.split bool.split)
qed

section \<open>Witness\<close>

definition sample_files :: dist where
  "sample_files = \<lparr>fs_stat = (\<lambda>n. if n = ''dist/assets/app.js'' then Inr False else if n = ''dist/assets'' then Inr True
     else Inl (PlainError ''file does not exist'')), fs_open = (\<lambda>_. Inr (Inr ''<html>''))\<rparr>"

definition sample_dist :: dist where
  "sample_dist = projr (Dist (\<lambda>_. True) sample_files)"

lemma sample_dist_eq:
  "Dist (\<lambda>_. True) sample_files = Inr sample_dist" "fs_open sample_dist ''index.html'' = Inr (Inr ''<html>'')"
  by (simp_all add: sample_dist_def Dist_def fs_Sub_def ValidPath_def below_def sample_files_def)

theorem spa_decides_witness:
  "serveSPA sample_dist ''/x/../assets//app.js'' =
     Inr (By_File_Server ''public, max-age=31536000, immutable'' ''/x/../assets//app.js'') \<and>
   serveSPA sample_dist ''/../../api/v1/none'' = Inl not_found \<and>
   serveSPA sample_dist ''/accounts/7'' = Inr (Blob 200 ''no-cache'' ''text/html; charset=utf-8'' ''<html>'')"
proof -
  have el: "elements ''/x/../assets//app.js'' = [''assets'', ''app.js'']"
    "elements ''/../../api/v1/none'' = [''api'', ''v1'', ''none'']"
    "elements ''/accounts/7'' = [''accounts'', ''7'']" by code_simp+
  note decides = spa_decides [where utf_ok = "\<lambda>_. True" and embedded = sample_files and fs = sample_dist]
  note looked_up = decides [THEN conjunct2, THEN conjunct1, THEN mp, OF conjI [OF sample_dist_eq(1) TrueI]]
  have names: "spa_name ''/x/../assets//app.js'' = ''assets/app.js''" "spa_name ''/accounts/7'' = ''accounts/7''"
    using el by (simp_all add: spa_name_elements)
  have "fs_stat sample_dist ''assets/app.js'' = fs_stat sample_files ''dist/assets/app.js''"
    "fs_stat sample_dist ''accounts/7'' = fs_stat sample_files ''dist/accounts/7''"
    using looked_up [of "''/x/../assets//app.js''"] looked_up [of "''/accounts/7''"] unfolding names by simp_all
  moreover have "fs_stat sample_files ''dist/assets/app.js'' = Inr False"
    "fs_stat sample_files ''dist/accounts/7'' = Inl (PlainError ''file does not exist'')"
    by (simp_all add: sample_files_def)
  ultimately show ?thesis
    using el decides [of "''/x/../assets//app.js''"] decides [of "''/../../api/v1/none''"] decides [of "''/accounts/7''"]
      sample_dist_eq(2) by simp
qed

end
