(* ===== verification/Mail.thy ===== *)
theory Mail
  imports Config
begin

text \<open>
  \<open>internal/mail\<close>: how the SMTP client is set up from the configuration, and sending one message.
  The go-mail library is an argument: it makes a client of a host and a list of options, checks
  addresses, and delivers. Delivery can fail with the message gone out, when the server's answer
  is lost. The interface \<open>Mailer\<close>, on which the background jobs rely, is the locale \<open>mailer\<close>.
\<close>

section \<open>The client\<close>

datatype tls_policy = TLSMandatory | NoTLS

record tls_config =
  tls_server_name :: string
  tls_root_cas :: "string list"
  tls_min_version :: int

datatype smtp_option =
    WithPort int
  | WithSSL
  | WithTLSPolicy tls_policy
  | WithTLSConfig tls_config
  | WithSMTPAuth string
  | WithUsername string
  | WithPassword string

definition VersionTLS12 :: int where
  "VersionTLS12 = 0x0303"

text \<open>
  \<open>smtp_read_file\<close> is \<open>os.ReadFile\<close>; \<open>smtp_pem_certs\<close> the certificates that
  \<open>AppendCertsFromPEM\<close> finds, which reports false when there are none.
\<close>

record smtp_message =
  msg_from :: string
  msg_to :: string
  msg_subject :: string
  msg_html :: string

datatype delivery = Delivered | Refused go_error | Delivered_Unconfirmed go_error

record 'c smtp_lib =
  smtp_read_file :: "string \<Rightarrow> go_error + string"
  smtp_pem_certs :: "string \<Rightarrow> string list"
  smtp_new_client :: "string \<Rightarrow> smtp_option list \<Rightarrow> go_error + 'c"
  smtp_address :: "string \<Rightarrow> go_error option"
  smtp_deliver :: "'c \<Rightarrow> smtp_message \<Rightarrow> delivery"

record 'c smtp_mailer =
  sm_client :: 'c
  sm_from :: string

definition transport_options :: "config \<Rightarrow> smtp_option list" where
  "transport_options cfg =
     (if SMTPSSL cfg then [WithSSL]
      else if SMTPInsecure cfg then [WithTLSPolicy NoTLS]
      else [WithTLSPolicy TLSMandatory])"

definition ca_options :: "'c smtp_lib \<Rightarrow> config \<Rightarrow> go_error + smtp_option list" where
  "ca_options lib cfg =
     (if SMTPTLSCAFile cfg = '''' then Inr []
      else case smtp_read_file lib (SMTPTLSCAFile cfg) of
        Inl err \<Rightarrow> Inl (Wrapped ''read smtp tls ca file'' err)
      | Inr pem \<Rightarrow>
          if smtp_pem_certs lib pem = []
          then Inl (PlainError (''no certificates found in '' @ SMTPTLSCAFile cfg))
          else Inr [WithTLSConfig \<lparr>tls_server_name = SMTPHost cfg,
                 tls_root_cas = smtp_pem_certs lib pem, tls_min_version = VersionTLS12\<rparr>])"

definition auth_options :: "config \<Rightarrow> go_error + smtp_option list" where
  "auth_options cfg =
     (if SMTPUsername cfg = '''' then Inr []
      else if SMTPInsecure cfg \<and> \<not> SMTPSSL cfg
      then Inl (PlainError ''smtp auth requires TLS: set smtp-ssl or disable smtp-insecure'')
      else Inr [WithSMTPAuth ''PLAIN'', WithUsername (SMTPUsername cfg), WithPassword (SMTPPassword cfg)])"

definition smtp_options :: "'c smtp_lib \<Rightarrow> config \<Rightarrow> go_error + smtp_option list" where
  "smtp_options lib cfg =
     (case ca_options lib cfg of
        Inl err \<Rightarrow> Inl err
      | Inr ca \<Rightarrow>
          (case auth_options cfg of
             Inl err \<Rightarrow> Inl err
           | Inr auth \<Rightarrow> Inr (WithPort (SMTPPort cfg) # transport_options cfg @ ca @ auth)))"

definition NewSMTPMailer :: "'c smtp_lib \<Rightarrow> config \<Rightarrow> go_error + 'c smtp_mailer" where
  "NewSMTPMailer lib cfg =
     (case smtp_options lib cfg of
        Inl err \<Rightarrow> Inl err
      | Inr opts \<Rightarrow>
          (case smtp_new_client lib (SMTPHost cfg) opts of
             Inl err \<Rightarrow> Inl err
           | Inr client \<Rightarrow> Inr \<lparr>sm_client = client, sm_from = SMTPFrom cfg\<rparr>))"

section \<open>Sending\<close>

text \<open>The state of an operation that sends mail: the messages that have gone out.\<close>

type_synonym 'a mail_op = "smtp_message list \<Rightarrow> (go_error + 'a) \<times> smtp_message list"

definition Send :: "'c smtp_lib \<Rightarrow> 'c smtp_mailer \<Rightarrow> string \<Rightarrow> string \<Rightarrow> string \<Rightarrow> unit mail_op" where
  "Send lib m to subject htmlBody sent =
     (case smtp_address lib (sm_from m) of
        Some err \<Rightarrow> (Inl err, sent)
      | None \<Rightarrow>
          (case smtp_address lib to of
             Some err \<Rightarrow> (Inl err, sent)
           | None \<Rightarrow>
               (let msg = \<lparr>msg_from = sm_from m, msg_to = to, msg_subject = subject, msg_html = htmlBody\<rparr> in
                case smtp_deliver lib (sm_client m) msg of
                  Delivered \<Rightarrow> (Inr (), sent @ [msg])
                | Refused err \<Rightarrow> (Inl err, sent)
                | Delivered_Unconfirmed err \<Rightarrow> (Inl err, sent @ [msg]))))"

text \<open>
  What the jobs rely on: a call puts at most the one message it was asked for in the post, from
  a fixed sender, and has done so when it returns no error.
\<close>

locale mailer =
  fixes send :: "string \<Rightarrow> string \<Rightarrow> string \<Rightarrow> unit mail_op"
    and sender :: string
  assumes send_ok: "send to subject body sent = (Inr u, sent') \<Longrightarrow>
      sent' = sent @ [\<lparr>msg_from = sender, msg_to = to, msg_subject = subject, msg_html = body\<rparr>]"
    and send_failed: "send to subject body sent = (Inl err, sent') \<Longrightarrow>
      sent' = sent \<or>
      sent' = sent @ [\<lparr>msg_from = sender, msg_to = to, msg_subject = subject, msg_html = body\<rparr>]"
begin

lemma send_to:
  assumes "send to subject body sent = (r, sent')"
  shows "\<exists>new. sent' = sent @ new \<and> length new \<le> 1 \<and> (\<not> isl r \<longrightarrow> length new = 1) \<and>
    (\<forall>m \<in> set new. m = \<lparr>msg_from = sender, msg_to = to, msg_subject = subject, msg_html = body\<rparr>)"
proof (cases r)
  case (Inl err)
  then show ?thesis using send_failed assms by fastforce
next
  case (Inr u)
  then show ?thesis using send_ok assms by fastforce
qed

end

interpretation smtp: mailer "Send lib m" "sm_from m" for lib :: "'c smtp_lib" and m
  by unfold_locales
    (auto simp: Send_def Let_def split: option.splits delivery.splits)

section \<open>Properties\<close>

definition encrypts :: "smtp_option list \<Rightarrow> bool" where
  "encrypts opts \<longleftrightarrow>
     (WithSSL \<in> set opts \<or> WithTLSPolicy TLSMandatory \<in> set opts) \<and> WithTLSPolicy NoTLS \<notin> set opts"

definition has_credentials :: "smtp_option list \<Rightarrow> bool" where
  "has_credentials opts \<longleftrightarrow> (\<exists>opt \<in> set opts. case opt of
     WithSMTPAuth _ \<Rightarrow> True | WithUsername _ \<Rightarrow> True | WithPassword _ \<Rightarrow> True | _ \<Rightarrow> False)"

lemma smtp_options_eq:
  "smtp_options lib cfg = Inr opts \<longleftrightarrow>
     (\<exists>ca auth. ca_options lib cfg = Inr ca \<and> auth_options cfg = Inr auth \<and>
        opts = WithPort (SMTPPort cfg) # transport_options cfg @ ca @ auth)"
  by (auto simp: smtp_options_def split: sum.splits)

lemma ca_options_eq:
  "ca_options lib cfg = Inr ca \<longleftrightarrow>
     (if SMTPTLSCAFile cfg = '''' then ca = []
      else \<exists>pem. smtp_read_file lib (SMTPTLSCAFile cfg) = Inr pem \<and> smtp_pem_certs lib pem \<noteq> [] \<and>
        ca = [WithTLSConfig \<lparr>tls_server_name = SMTPHost cfg,
                tls_root_cas = smtp_pem_certs lib pem, tls_min_version = VersionTLS12\<rparr>])"
  by (auto simp: ca_options_def split: sum.splits)

lemma auth_options_eq:
  "auth_options cfg = Inr auth \<longleftrightarrow>
     (if SMTPUsername cfg = '''' then auth = []
      else (SMTPInsecure cfg \<longrightarrow> SMTPSSL cfg) \<and>
        auth = [WithSMTPAuth ''PLAIN'', WithUsername (SMTPUsername cfg), WithPassword (SMTPPassword cfg)])"
  by (auto simp: auth_options_def)

lemma transport_encrypts:
  "encrypts (WithPort p # transport_options cfg @ ca @ auth) \<longleftrightarrow> SMTPSSL cfg \<or> \<not> SMTPInsecure cfg"
  if "ca_options lib cfg = Inr ca" "auth_options cfg = Inr auth"
  using that
  by (auto simp: encrypts_def transport_options_def ca_options_eq auth_options_eq split: if_splits)

lemma transport_credentials:
  "has_credentials (WithPort p # transport_options cfg @ ca @ auth) \<longleftrightarrow> SMTPUsername cfg \<noteq> ''''"
  if "ca_options lib cfg = Inr ca" "auth_options cfg = Inr auth"
  using that
  by (auto simp: has_credentials_def transport_options_def ca_options_eq auth_options_eq split: if_splits)

text \<open>
  C37 (safety). Credentials never travel in the clear: when a mailer is made, the client was made
  with one list of options, and if a username or password is among them the connection is encrypted,
  by implicit TLS or mandatory STARTTLS. Without encryption a client is only made when the operator
  asked for it, and then without credentials; and a configured CA file is read, has certificates,
  and is what the server's certificate is checked against, for the configured host.
\<close>

theorem credentials_encrypted:
  assumes "NewSMTPMailer lib cfg = Inr m"
  shows "\<exists>opts. smtp_new_client lib (SMTPHost cfg) opts = Inr (sm_client m) \<and>
    (has_credentials opts \<longrightarrow> encrypts opts) \<and>
    (encrypts opts \<longleftrightarrow> SMTPSSL cfg \<or> \<not> SMTPInsecure cfg) \<and>
    (has_credentials opts \<longleftrightarrow> SMTPUsername cfg \<noteq> '''') \<and>
    (SMTPTLSCAFile cfg \<noteq> '''' \<longrightarrow> (\<exists>pem. smtp_read_file lib (SMTPTLSCAFile cfg) = Inr pem \<and>
       smtp_pem_certs lib pem \<noteq> [] \<and>
       WithTLSConfig \<lparr>tls_server_name = SMTPHost cfg, tls_root_cas = smtp_pem_certs lib pem,
         tls_min_version = VersionTLS12\<rparr> \<in> set opts))"
proof -
  from assms obtain opts where opts: "smtp_options lib cfg = Inr opts"
    and client: "smtp_new_client lib (SMTPHost cfg) opts = Inr (sm_client m)"
    by (auto simp: NewSMTPMailer_def split: sum.splits)
  from opts obtain ca auth where parts: "ca_options lib cfg = Inr ca" "auth_options cfg = Inr auth"
    and eq: "opts = WithPort (SMTPPort cfg) # transport_options cfg @ ca @ auth"
    by (auto simp: smtp_options_eq)
  have "SMTPUsername cfg \<noteq> '''' \<longrightarrow> SMTPSSL cfg \<or> \<not> SMTPInsecure cfg"
    using parts(2) by (auto simp: auth_options_eq)
  moreover have "SMTPTLSCAFile cfg \<noteq> '''' \<longrightarrow> (\<exists>pem. smtp_read_file lib (SMTPTLSCAFile cfg) = Inr pem \<and>
       smtp_pem_certs lib pem \<noteq> [] \<and>
       WithTLSConfig \<lparr>tls_server_name = SMTPHost cfg, tls_root_cas = smtp_pem_certs lib pem,
         tls_min_version = VersionTLS12\<rparr> \<in> set opts)"
    using parts(1) unfolding eq ca_options_eq by auto
  ultimately show ?thesis
    using client transport_encrypts [OF parts] transport_credentials [OF parts] unfolding eq by blast
qed

section \<open>Witnesses\<close>

definition sample_smtp :: "smtp_option list smtp_lib" where
  "sample_smtp = \<lparr>smtp_read_file = (\<lambda>f. if f = ''ca.pem'' then Inr ''PEM'' else Inl (PlainError ''no such file'')),
     smtp_pem_certs = (\<lambda>pem. if pem = ''PEM'' then [''root''] else []),
     smtp_new_client = (\<lambda>host opts. Inr opts),
     smtp_address = (\<lambda>a. if CHR ''@'' \<in> set a then None else Some (PlainError ''mail: no address'')),
     smtp_deliver = (\<lambda>c msg. Delivered)\<rparr>"

definition mail_config :: config where
  "mail_config = sample_config\<lparr>SMTPHost := ''smtp.example.org'', SMTPPort := 587, SMTPUsername := ''bank'',
     SMTPPassword := ''pw'', SMTPFrom := ''no-reply@bank.example'', SMTPInsecure := False,
     SMTPTLSCAFile := ''ca.pem''\<rparr>"

definition sample_mailer :: "smtp_option list smtp_mailer" where
  "sample_mailer = \<lparr>sm_client = [WithPort 587, WithTLSPolicy TLSMandatory,
       WithTLSConfig \<lparr>tls_server_name = ''smtp.example.org'', tls_root_cas = [''root''], tls_min_version = VersionTLS12\<rparr>,
       WithSMTPAuth ''PLAIN'', WithUsername ''bank'', WithPassword ''pw''],
     sm_from = ''no-reply@bank.example''\<rparr>"

lemma sample_mailer_made: "NewSMTPMailer sample_smtp mail_config = Inr sample_mailer"
  by code_simp

theorem credentials_encrypted_witness:
  "encrypts (sm_client sample_mailer) \<and> has_credentials (sm_client sample_mailer)"
proof -
  have client: "smtp_new_client sample_smtp h opts = Inr opts" for h opts
    by (simp add: sample_smtp_def)
  have "SMTPUsername mail_config \<noteq> ''''" by (simp add: mail_config_def)
  then show ?thesis
    using credentials_encrypted [OF sample_mailer_made] by (auto simp: client)
qed

end
