(* ===== verification/Worker.thy ===== *)
theory Worker
  imports Api_User_Witnesses Mail
begin

unbundle bit_operations_syntax

text \<open>
  \<open>internal/worker\<close> and \<open>internal/secret\<close>: the background jobs that send the verification mail and
  the registration notice, and the codes they make. The state of a job is the database connection
  and the mail that has gone out. River calls \<open>Work\<close> again after an error; random bytes and SHA-256
  are arguments.
\<close>

section \<open>Secrets\<close>

text \<open>\<open>hex.EncodeToString\<close>.\<close>

definition hex_byte :: "8 word \<Rightarrow> string" where
  "hex_byte b = [hex_digit (uint (drop_bit 4 b)), hex_digit (uint (b AND 0x0f))]"

definition hex_encode :: "8 word list \<Rightarrow> string" where
  "hex_encode bs = concat (map hex_byte bs)"

definition secret_Token :: "(nat \<Rightarrow> go_error + 8 word list) \<Rightarrow> nat \<Rightarrow> go_error + string" where
  "secret_Token rand_read n = map_sum id hex_encode (rand_read n)"

definition secret_Digest :: "(string \<Rightarrow> 8 word list) \<Rightarrow> string \<Rightarrow> string" where
  "secret_Digest sha256 raw = hex_encode (sha256 raw)"

text \<open>\<open>rand.Read\<close> fills the slice it is given.\<close>

definition fills :: "(nat \<Rightarrow> go_error + 8 word list) \<Rightarrow> bool" where
  "fills rand_read \<longleftrightarrow> (\<forall>n bs. rand_read n = Inr bs \<longrightarrow> length bs = n)"

lemma secret_Token_length: "fills r \<Longrightarrow> secret_Token r n = Inr t \<Longrightarrow> length t = 2 * n"
proof -
  have "length (hex_encode bs) = 2 * length bs" for bs
    by (induction bs) (simp_all add: hex_encode_def hex_byte_def)
  then show "fills r \<Longrightarrow> secret_Token r n = Inr t \<Longrightarrow> length t = 2 * n"
    by (auto simp: secret_Token_def fills_def map_sum_def split: sum.splits)
qed

section \<open>The mail\<close>

text \<open>\<open>html.EscapeString\<close>.\<close>

definition escape_char :: "char \<Rightarrow> string" where
  "escape_char c =
     (if c = CHR ''&'' then ''&amp;''
      else if c = CHR 0x27 then ''&#39;''
      else if c = CHR ''<'' then ''&lt;''
      else if c = CHR ''>'' then ''&gt;''
      else if c = CHR 0x22 then ''&#34;''
      else [c])"

definition EscapeString :: "string \<Rightarrow> string" where
  "EscapeString s = concat (map escape_char s)"

definition verification_link :: "string \<Rightarrow> uuid \<Rightarrow> string \<Rightarrow> string" where
  "verification_link baseURL i code =
     baseURL @ ''/verify-email?id='' @ uuid_string i @ ''&code='' @ code"

definition verification_body :: "string \<Rightarrow> string \<Rightarrow> string" where
  "verification_body fullName link =
     ''Hello '' @ EscapeString fullName @ '',<br/>Please <a href='' @ [CHR 0x22] @ link @ [CHR 0x22] @
     ''>click here</a> to verify your email address.''"

definition registrationNoticeBody :: string where
  "registrationNoticeBody = ''A registration attempt used this email address. If this was you, sign in to your existing SimpleBank account. If not, no action is required.''"

section \<open>The jobs\<close>

record desk =
  dk_conn :: pg
  dk_sent :: "smtp_message list"

type_synonym 'a work_op = "desk \<Rightarrow> (go_error + 'a) \<times> desk"

definition in_db :: "'a pg_op \<Rightarrow> 'a work_op" where
  "in_db m d = (let (r, s) = m (dk_conn d) in (r, d\<lparr>dk_conn := s\<rparr>))"

definition in_mail :: "'a mail_op \<Rightarrow> 'a work_op" where
  "in_mail m d = (let (r, sent) = m (dk_sent d) in (r, d\<lparr>dk_sent := sent\<rparr>))"

record unique_opts =
  uq_by_args :: bool
  uq_by_period :: time

definition verify_email_Kind :: string where
  "verify_email_Kind = ''send_verify_email''"

definition verify_email_InsertOpts :: unique_opts where
  "verify_email_InsertOpts = \<lparr>uq_by_args = True, uq_by_period = 15 * 60 * second\<rparr>"

definition registration_notice_Kind :: string where
  "registration_notice_Kind = ''send_registration_notice''"

definition registration_notice_InsertOpts :: unique_opts where
  "registration_notice_InsertOpts = \<lparr>uq_by_args = True, uq_by_period = 60 * 60 * second\<rparr>"

text \<open>The methods of the arguments that River calls.\<close>

definition Kind :: "job \<Rightarrow> string" where
  "Kind j = (case j of SendVerifyEmailArgs _ \<Rightarrow> verify_email_Kind
             | SendRegistrationNoticeArgs _ \<Rightarrow> registration_notice_Kind)"

definition InsertOpts :: "job \<Rightarrow> unique_opts" where
  "InsertOpts j =
     (case j of
        SendVerifyEmailArgs _ \<Rightarrow> verify_email_InsertOpts
      | SendRegistrationNoticeArgs _ \<Rightarrow> registration_notice_InsertOpts)"

text \<open>What \<open>NewClient\<close> gives the workers.\<close>

record worker =
  wk_env :: pg_env
  wk_send :: "string \<Rightarrow> string \<Rightarrow> string \<Rightarrow> unit mail_op"
  wk_base_url :: string
  wk_random :: "nat \<Rightarrow> go_error + 8 word list"
  wk_sha256 :: "string \<Rightarrow> 8 word list"

definition verify_email_Work :: "worker \<Rightarrow> string \<Rightarrow> unit work_op" where
  "verify_email_Work wk username =
     andthen (map_error (Wrapped (''getting user '' @ [CHR 0x22] @ username @ [CHR 0x22]))
       (in_db (GetUser (wk_env wk) username))) (\<lambda>user.
     andthen (map_error (Wrapped ''generating secret code'')
       (lift_res (secret_Token (wk_random wk) 32))) (\<lambda>code.
     andthen (map_error (Wrapped ''creating verify-email record'')
       (in_db (CreateVerifyEmail (wk_env wk) (usr_username user) (usr_email user)
          (secret_Digest (wk_sha256 wk) code)))) (\<lambda>ve.
     let link = verification_link (wk_base_url wk) (ve_id ve) code;
         body = verification_body (usr_full_name user) link in
     map_error (Wrapped ''sending verification email'')
       (in_mail (wk_send wk (usr_email user) ''Welcome to SimpleBank'' body)))))"

definition registration_notice_Work :: "worker \<Rightarrow> string \<Rightarrow> unit work_op" where
  "registration_notice_Work wk email =
     in_mail (wk_send wk email ''SimpleBank registration attempt'' registrationNoticeBody)"

text \<open>The workers that \<open>NewClient\<close> registers, by the kind of their arguments.\<close>

definition Work :: "worker \<Rightarrow> job \<Rightarrow> unit work_op" where
  "Work wk j = (case j of
     SendVerifyEmailArgs username \<Rightarrow> verify_email_Work wk username
   | SendRegistrationNoticeArgs email \<Rightarrow> registration_notice_Work wk email)"

section \<open>What a job does\<close>

lemma in_db_eq: "in_db m d = (r, d') \<longleftrightarrow> (\<exists>s. m (dk_conn d) = (r, s) \<and> d' = d\<lparr>dk_conn := s\<rparr>)"
  by (auto simp: in_db_def Let_def split: prod.splits)

lemma in_mail_eq: "in_mail m d = (r, d') \<longleftrightarrow> (\<exists>sent. m (dk_sent d) = (r, sent) \<and> d' = d\<lparr>dk_sent := sent\<rparr>)"
  by (auto simp: in_mail_def Let_def split: prod.splits)

lemma CreateVerifyEmail_Inr:
  assumes "CreateVerifyEmail env un em h s = (Inr v, s')"
  shows "ve_username v = un \<and> ve_email v = em \<and> ve_secret_code v = h \<and> \<not> ve_is_used v \<and>
    ve_expired_at v = ve_created_at v + 15 * 60 * second \<and> ve_id v \<notin> ve_id ` set (verify_emails (tables s)) \<and>
    tables s' = (tables s)\<lparr>verify_emails := verify_emails (tables s) @ [v]\<rparr>"
  using assms unfolding CreateVerifyEmail_def
  by (rule run_sql_InrE) (auto simp: createVerifyEmail_sql_def Let_def split: if_splits)

lemma find_code_snoc:
  assumes "ve_id v \<notin> ve_id ` set (verify_emails d)"
  shows "find_code (ve_id v) (d\<lparr>verify_emails := verify_emails d @ [v]\<rparr>) = Some v"
proof -
  have "find (\<lambda>x. ve_id x = ve_id v) (verify_emails d) = None"
    unfolding find_None_set using assms by (auto simp: image_iff)
  then show ?thesis by (simp add: find_code_def find_append)
qed

lemma verify_email_Work_Inr:
  assumes "verify_email_Work wk name d = (Inr x, d')"
  obtains u v code s sent where "find_user name (tables (dk_conn d)) = Some u"
    "secret_Token (wk_random wk) 32 = Inr code"
    "CreateVerifyEmail (wk_env wk) (usr_username u) (usr_email u) (secret_Digest (wk_sha256 wk) code)
       (step_tick (dk_conn d)) = (Inr v, s)"
    "wk_send wk (usr_email u) ''Welcome to SimpleBank''
       (verification_body (usr_full_name u) (verification_link (wk_base_url wk) (ve_id v) code)) (dk_sent d)
       = (Inr x, sent)"
    "d' = d\<lparr>dk_conn := s, dk_sent := sent\<rparr>"
  using assms
  by (auto simp: verify_email_Work_def andthen_Inr in_db_eq in_mail_eq GetUser_eq lift_res_def Let_def)

text \<open>The link works while its row is live: the endpoint accepts it and the user is verified.\<close>

lemma live_link_redeems:
  assumes v: "find_code (ve_id v) (tables c) = Some v" "\<not> ve_is_used v"
    "ve_secret_code v = srv_digest srv code" "time_at (srv_env srv) (tick c) < ve_expired_at v"
    and env: "healthy (srv_env srv)" "schema_ok (tables c)"
    and parse: "parse_uuid (uuid_string (ve_id v)) = Inr (ve_id v)" and "code \<noteq> ''''"
  shows "\<exists>w u. verifyEmail parse_uuid srv (uuid_string (ve_id v)) code \<lparr>db_conn = c, set_cookies = cks\<rparr> =
      (Inr (200, True), w) \<and>
    find_user (ve_username v) (tables c) = Some u \<and>
    find_user (ve_username v) (tables (db_conn w)) = Some (u\<lparr>usr_is_email_verified := True\<rparr>)"
proof -
  obtain r s where run: "VerifyEmailTx (srv_env srv) (ve_id v) (srv_digest srv code) c = (r, s)"
    by fastforce
  have "find_code (ve_id v) (tables c) = Some v \<and>
      ve_live (ve_id v) (srv_digest srv code) (time_at (srv_env srv) (tick c)) v"
    using v by (simp add: ve_live_def)
  then have r: "\<not> isl r"
    and red: "redeemed (ve_id v) (srv_digest srv code) (time_at (srv_env srv) (tick c)) (tables c) (tables s)"
    using verify_decides [OF env run] by auto
  have "ve_username v \<in> usr_username ` set (users (tables c))"
    using env(2) v(1) by (auto simp: schema_ok_def verify_emails_ok_def find_code_def dest: find_Some_set)
  then obtain u where u: "find_user (ve_username v) (tables c) = Some u"
    by (metis find_user_def find_key_exists)
  have "find_user (ve_username v) (tables s) = Some (u\<lparr>usr_is_email_verified := True\<rparr>)"
    using red u v(1) by (auto simp: redeemed_def find_user_def find_replace_by)
  moreover have "verifyEmail parse_uuid srv (uuid_string (ve_id v)) code \<lparr>db_conn = c, set_cookies = cks\<rparr> =
      (Inr (200, True), \<lparr>db_conn = s, set_cookies = cks\<rparr>)"
    using run r parse \<open>code \<noteq> ''''\<close>
    by (cases r) (simp_all add: verifyEmail_def handle_def on_db_def ret_def)
  ultimately show ?thesis using u by (intro exI [of _ "\<lparr>db_conn = s, set_cookies = cks\<rparr>"] exI [of _ u]) simp
qed

section \<open>Properties\<close>

text \<open>
  The link of the row \<open>v\<close> with the code opens for the user: any server with the same digest accepts
  it from a database that still has the row, before it expires.
\<close>

definition opens_for :: "(string \<Rightarrow> string) \<Rightarrow> string \<Rightarrow> verify_email \<Rightarrow> string \<Rightarrow> bool" where
  "opens_for digest name v code \<longleftrightarrow>
     (\<forall>srv parse_uuid c cks. srv_digest srv = digest \<and> healthy (srv_env srv) \<and>
       schema_ok (tables c) \<and> parse_uuid (uuid_string (ve_id v)) = Inr (ve_id v) \<and>
       find_code (ve_id v) (tables c) = Some v \<and> time_at (srv_env srv) (tick c) < ve_expired_at v \<longrightarrow>
       (\<exists>w u. verifyEmail parse_uuid srv (uuid_string (ve_id v)) code \<lparr>db_conn = c, set_cookies = cks\<rparr> =
          (Inr (200, True), w) \<and>
        find_user name (tables (db_conn w)) = Some u \<and> usr_is_email_verified u))"

lemma live_link_opens:
  assumes "\<not> ve_is_used v" "ve_secret_code v = digest code" "code \<noteq> ''''" "ve_username v = name"
  shows "opens_for digest name v code"
  unfolding opens_for_def
proof (intro allI impI)
  fix srv :: server and cks and parse_uuid :: "string \<Rightarrow> go_error + uuid" and c :: pg
  assume "srv_digest srv = digest \<and> healthy (srv_env srv) \<and>
    schema_ok (tables c) \<and> parse_uuid (uuid_string (ve_id v)) = Inr (ve_id v) \<and>
    find_code (ve_id v) (tables c) = Some v \<and> time_at (srv_env srv) (tick c) < ve_expired_at v"
  then show "\<exists>w u. verifyEmail parse_uuid srv (uuid_string (ve_id v)) code \<lparr>db_conn = c, set_cookies = cks\<rparr> =
      (Inr (200, True), w) \<and> find_user name (tables (db_conn w)) = Some u \<and> usr_is_email_verified u"
    using live_link_redeems [of v c srv code parse_uuid cks] assms by fastforce
qed

lemma verification_mail_sent:
  assumes run: "Work wk (SendVerifyEmailArgs name) d = (Inr (), d')"
    and mailer: "wk_send wk = Send lib m" and rand: "fills (wk_random wk)"
  shows "\<exists>u v code. find_user name (tables (dk_conn d)) = Some u \<and> length code = 64 \<and>
    ve_username v = name \<and> ve_email v = usr_email u \<and> \<not> ve_is_used v \<and>
    ve_secret_code v = secret_Digest (wk_sha256 wk) code \<and>
    ve_expired_at v = ve_created_at v + 15 * 60 * second \<and>
    tables (dk_conn d') =
      (tables (dk_conn d))\<lparr>verify_emails := verify_emails (tables (dk_conn d)) @ [v]\<rparr> \<and>
    find_code (ve_id v) (tables (dk_conn d')) = Some v \<and>
    dk_sent d' = dk_sent d @ [\<lparr>msg_from = sm_from m, msg_to = usr_email u,
      msg_subject = ''Welcome to SimpleBank'',
      msg_html = verification_body (usr_full_name u) (verification_link (wk_base_url wk) (ve_id v) code)\<rparr>] \<and>
    opens_for (secret_Digest (wk_sha256 wk)) name v code"
proof -
  from run have "verify_email_Work wk name d = (Inr (), d')" by (simp add: Work_def)
  then obtain u v code s sent where u: "find_user name (tables (dk_conn d)) = Some u"
    and code: "secret_Token (wk_random wk) 32 = Inr code"
    and create: "CreateVerifyEmail (wk_env wk) (usr_username u) (usr_email u)
      (secret_Digest (wk_sha256 wk) code) (step_tick (dk_conn d)) = (Inr v, s)"
    and send: "Send lib m (usr_email u) ''Welcome to SimpleBank''
       (verification_body (usr_full_name u) (verification_link (wk_base_url wk) (ve_id v) code)) (dk_sent d)
       = (Inr (), sent)"
    and d': "d' = d\<lparr>dk_conn := s, dk_sent := sent\<rparr>"
    unfolding mailer [symmetric] by (rule verify_email_Work_Inr)
  note v = CreateVerifyEmail_Inr [OF create, unfolded step_tick_sel]
  have name: "usr_username u = name" using u by (auto simp: find_user_def dest: find_Some_set)
  have len: "length code = 64" using secret_Token_length [OF rand code] by simp
  then have nonempty: "code \<noteq> ''''" by auto
  have "opens_for (secret_Digest (wk_sha256 wk)) name v code"
    using live_link_opens [OF _ _ nonempty] v name by simp
  then show ?thesis
    using u len v name smtp.send_ok [OF send] find_code_snoc [of v "tables (dk_conn d)"]
    by (intro exI [of _ u] exI [of _ v] exI [of _ code]) (simp add: d')
qed

text \<open>
  C25 (functional). The verification mail does what it says: a job that returns no error has found the user,
  has stored one new link for them, of which only the digest of the code is kept, and has sent one
  mail, to the address on record, with the code itself in its link. As long as that row is unused and
  within its fifteen minutes, the identifier and the code of the link, presented to the
  endpoint of a server with the same digest, are accepted and verify that user.
\<close>

theorem verification_mail:
  assumes run: "Work wk (SendVerifyEmailArgs name) d = (Inr (), d')"
    and mailer: "wk_send wk = Send lib m" and rand: "fills (wk_random wk)"
  shows "\<exists>u v code. find_user name (tables (dk_conn d)) = Some u \<and> length code = 64 \<and>
    ve_username v = name \<and> ve_email v = usr_email u \<and> \<not> ve_is_used v \<and>
    ve_secret_code v = secret_Digest (wk_sha256 wk) code \<and>
    ve_expired_at v = ve_created_at v + 15 * 60 * second \<and>
    tables (dk_conn d') =
      (tables (dk_conn d))\<lparr>verify_emails := verify_emails (tables (dk_conn d)) @ [v]\<rparr> \<and>
    find_code (ve_id v) (tables (dk_conn d')) = Some v \<and>
    dk_sent d' = dk_sent d @ [\<lparr>msg_from = sm_from m, msg_to = usr_email u,
      msg_subject = ''Welcome to SimpleBank'',
      msg_html = verification_body (usr_full_name u) (verification_link (wk_base_url wk) (ve_id v) code)\<rparr>] \<and>
    opens_for (secret_Digest (wk_sha256 wk)) name v code"
  by (rule verification_mail_sent [OF assms])

text \<open>Markup: the characters that open or close a tag or an attribute value.\<close>

definition is_markup :: "char \<Rightarrow> bool" where
  "is_markup c \<longleftrightarrow> c = CHR ''<'' \<or> c = CHR ''>'' \<or> c = CHR 0x22 \<or> c = CHR 0x27"

lemma escape_char_plain: "filter is_markup (escape_char c) = []"
  by (simp add: escape_char_def is_markup_def)

lemma EscapeString_plain: "filter is_markup (EscapeString s) = []"
  by (induction s) (simp_all add: EscapeString_def escape_char_plain)

lemma escape_char_prefix: "escape_char c @ xs = escape_char d @ ys \<Longrightarrow> c = d \<and> xs = ys"
  by (auto simp: escape_char_def split: if_splits)

lemma escape_char_not_Nil [simp]: "escape_char c \<noteq> []"
  by (simp add: escape_char_def)

lemma EscapeString_inj: "EscapeString s = EscapeString t \<Longrightarrow> s = t"
proof (induction s arbitrary: t)
  case Nil
  then show ?case by (cases t) (auto simp: EscapeString_def)
next
  case (Cons c s)
  then show ?case
    by (cases t) (auto simp: EscapeString_def dest!: escape_char_prefix)
qed

text \<open>
  A user's name cannot put markup into the mail: whatever the name is, the tags and quotes
  of the body, in their order, are those of the mail for an empty name, and no characters are lost:
  different names give different bodies.
\<close>

theorem name_is_text:
  "filter is_markup (verification_body name link) = filter is_markup (verification_body '''' link) \<and>
   (verification_body name link = verification_body other link \<longleftrightarrow> name = other)"
proof -
  have "verification_body name link = verification_body other link \<longleftrightarrow> name = other"
    using EscapeString_inj by (auto simp: verification_body_def simp del: append_assoc append_Cons)
  moreover have "filter is_markup (verification_body n link) =
      filter is_markup ''Hello '' @ filter is_markup ('',<br/>Please <a href='' @ [CHR 0x22] @ link @ [CHR 0x22] @
        ''>click here</a> to verify your email address.'')" for n
    unfolding verification_body_def filter_append EscapeString_plain by (simp only: append_Nil)
  ultimately show ?thesis by metis
qed

section \<open>Witnesses\<close>

definition sample_worker :: worker where
  "sample_worker = \<lparr>wk_env = sample_env, wk_send = Send sample_smtp sample_mailer,
     wk_base_url = ''https://bank.example'', wk_random = (\<lambda>n. Inr (replicate n 0xa7)),
     wk_sha256 = (\<lambda>t. [word_of_int (int (length t)), 1])\<rparr>"

abbreviation mail_bob :: "desk \<Rightarrow> (go_error + unit) \<times> desk" where
  "mail_bob \<equiv> Work sample_worker (SendVerifyEmailArgs ''bob'')"

definition desk_start :: desk where
  "desk_start = \<lparr>dk_conn = start, dk_sent = []\<rparr>"

definition bob_secret :: string where
  "bob_secret = hex_encode (replicate 32 0xa7)"

definition bob_code :: verify_email where
  "bob_code = \<lparr>ve_id = 1001, ve_username = ''bob'', ve_email = ''bob@example.org'',
     ve_secret_code = secret_Digest (wk_sha256 sample_worker) bob_secret, ve_is_used = False,
     ve_created_at = second, ve_expired_at = 901 * second\<rparr>"

definition after_mail :: pg where
  "after_mail = (connect_db (sample_db\<lparr>verify_emails := [sample_code, bob_code]\<rparr>))\<lparr>tick := 2\<rparr>"

lemma mail_bob_run:
  "mail_bob desk_start = (Inr (), \<lparr>dk_conn = after_mail, dk_sent = dk_sent (snd (mail_bob desk_start))\<rparr>)"
proof -
  have user: "find_user ''bob'' sample_db = Some (sample_user 2 ''bob'')"
    and names: "1001 \<notin> ve_id ` set (verify_emails sample_db)" "''bob'' \<in> usr_username ` set (users sample_db)"
    and codes: "verify_emails sample_db = [sample_code]" "ve_id sample_code = 30" by code_simp+
  have ctx: "fault_at sample_env n = None" "uuid_at sample_env n = word_of_int (1000 + int n)"
    "time_at sample_env n = int n * second" for n by (simp_all add: sample_env_def)
  have worker: "wk_env sample_worker = sample_env" "wk_send sample_worker = Send sample_smtp sample_mailer"
    "secret_Token (wk_random sample_worker) 32 = Inr bob_secret"
    by (simp_all add: sample_worker_def secret_Token_def bob_secret_def)
  have posts: "smtp_address sample_smtp (sm_from sample_mailer) = None"
    "smtp_address sample_smtp ''bob@example.org'' = None" "smtp_deliver sample_smtp c msg = Delivered" for c msg
    by (simp_all add: sample_smtp_def sample_mailer_def)
  show ?thesis
    by (simp add: Work_def verify_email_Work_def andthen_def map_error_def in_db_def in_mail_def lift_res_def
        Let_def worker GetUser_def run_sql_def query_row_def CreateVerifyEmail_def createVerifyEmail_sql_def
        ctx ctx_of_def desk_start_def user sample_user_def codes names Send_def posts after_mail_def
        bob_code_def step_tick_def connect_db_def)
qed

lemma after_mail_sel:
  "time_at sample_env (tick after_mail) = 2 * second"
  "verify_emails (tables after_mail) = [sample_code, bob_code]"
  by (simp_all add: after_mail_def sample_env_def)

lemma after_mail_schema: "schema_ok (tables after_mail)"
proof -
  have "ve_id sample_code = 30" "ve_username sample_code = ''alice''"
    "usr_username ` set (users sample_db) = {''alice'', ''bob''}" by code_simp+
  then have "verify_emails_ok (sample_db\<lparr>verify_emails := [sample_code, bob_code]\<rparr>)"
    by (simp add: verify_emails_ok_def bob_code_def)
  then show ?thesis
    using sample_schema by (simp add: after_mail_def schema_ok_def table_ok_defs)
qed

theorem verification_mail_witness:
  "\<exists>code. length code = 64 \<and>
     map msg_to (dk_sent (snd (mail_bob desk_start))) = [''bob@example.org''] \<and>
     (\<exists>w. verifyEmail (\<lambda>_. Inr 1001) (user_server\<lparr>srv_digest := secret_Digest (wk_sha256 sample_worker)\<rparr>)
        (uuid_string 1001) code \<lparr>db_conn = after_mail, set_cookies = []\<rparr> = (Inr (200, True), w))"
proof -
  let ?srv = "user_server\<lparr>srv_digest := secret_Digest (wk_sha256 sample_worker)\<rparr>"
  have "wk_send sample_worker = Send sample_smtp sample_mailer" "fills (wk_random sample_worker)"
    by (simp_all add: sample_worker_def fills_def)
  from verification_mail [OF mail_bob_run this] obtain u v code where
    found_u: "find_user ''bob'' sample_db = Some u" and len: "length code = 64"
    and tabs: "verify_emails (tables after_mail) = verify_emails sample_db @ [v]"
    and sent: "map msg_to (dk_sent (snd (mail_bob desk_start))) = [usr_email u]"
    and found: "find_code (ve_id v) (tables after_mail) = Some v"
    and opens: "opens_for (secret_Digest (wk_sha256 sample_worker)) ''bob'' v code"
    by (elim exE conjE) (simp add: desk_start_def)
  have "find_user ''bob'' sample_db = Some (sample_user 2 ''bob'')" "verify_emails sample_db = [sample_code]"
    by code_simp+
  then have u: "u = sample_user 2 ''bob''" and v: "v = bob_code" using found_u tabs after_mail_sel(2) by simp_all
  moreover have "\<exists>w. verifyEmail (\<lambda>_. Inr 1001) ?srv (uuid_string 1001) code
      \<lparr>db_conn = after_mail, set_cookies = []\<rparr> = (Inr (200, True), w)"
    using opens [unfolded opens_for_def, rule_format, of ?srv after_mail "\<lambda>_. Inr 1001" "[]"]
      found after_mail_sel after_mail_schema v
    by (auto simp: bob_code_def sample_healthy second_def)
  ultimately show ?thesis
    using len sent by (intro exI [of _ code]) (simp add: u sample_user_def)
qed

end
