(* ===== verification/Loopback.thy ===== *)
theory Loopback
  imports Command_Line
begin

text \<open>
  The local address of the service in \<open>cmd/app/main.go\<close>: \<open>loopbackURL\<close> and the health check of the
  container, with what they use of Go's \<open>net\<close> and \<open>net/url\<close>. \<open>String\<close> writes a scheme, a host
  and a path; it escapes what may not stand in a host.
\<close>

section \<open>Host and port\<close>

definition addr_error :: "string \<Rightarrow> string \<Rightarrow> go_error" where
  "addr_error hostport why = PlainError (''address '' @ hostport @ '': '' @ why)"

text \<open>The position of the first and the last occurrence of a character.\<close>

definition index_of :: "char \<Rightarrow> string \<Rightarrow> nat option" where
  "index_of c w = (if c \<in> set w then Some (length (takeWhile (\<lambda>x. x \<noteq> c) w)) else None)"

definition last_index_of :: "char \<Rightarrow> string \<Rightarrow> nat option" where
  "last_index_of c w = map_option (\<lambda>i. length w - 1 - i) (index_of c (rev w))"

text \<open>
  \<open>net.SplitHostPort\<close>: the port follows the last colon, a host in brackets may have colons.
  \<open>split_parts\<close> gives the host and from where on no further bracket may open or close.
\<close>

definition tick_quoted :: "char \<Rightarrow> string" where
  "tick_quoted c = [CHR 0x27, c, CHR 0x27]"

definition split_parts :: "string \<Rightarrow> nat \<Rightarrow> go_error + (string \<times> nat \<times> nat)" where
  "split_parts hp i =
     (if hp ! 0 = CHR ''['' then
        (case index_of (CHR '']'') hp of
           None \<Rightarrow> Inl (addr_error hp (''missing '' @ tick_quoted (CHR '']'') @ '' in address''))
         | Some e \<Rightarrow>
             if e + 1 = length hp then Inl (addr_error hp ''missing port in address'')
             else if e + 1 = i then Inr (take (e - 1) (drop 1 hp), 1, e + 1)
             else if hp ! (e + 1) = CHR '':'' then Inl (addr_error hp ''too many colons in address'')
             else Inl (addr_error hp ''missing port in address''))
      else if CHR '':'' \<in> set (take i hp) then Inl (addr_error hp ''too many colons in address'')
      else Inr (take i hp, 0, 0))"

definition SplitHostPort :: "string \<Rightarrow> go_error + (string \<times> string)" where
  "SplitHostPort hp =
     (case last_index_of (CHR '':'') hp of
        None \<Rightarrow> Inl (addr_error hp ''missing port in address'')
      | Some i \<Rightarrow>
          (case split_parts hp i of
             Inl err \<Rightarrow> Inl err
           | Inr (host, j, k) \<Rightarrow>
               if CHR ''['' \<in> set (drop j hp)
               then Inl (addr_error hp (''unexpected '' @ tick_quoted (CHR ''['') @ '' in address''))
               else if CHR '']'' \<in> set (drop k hp)
               then Inl (addr_error hp (''unexpected '' @ tick_quoted (CHR '']'') @ '' in address''))
               else Inr (host, drop (i + 1) hp)))"

section \<open>Writing a URL\<close>

text \<open>\<open>shouldEscape\<close> for a host, and the percent encoding of a byte.\<close>

definition alnum :: "char \<Rightarrow> bool" where
  "alnum c \<longleftrightarrow> (let n = of_char c :: nat in
     (48 \<le> n \<and> n \<le> 57) \<or> (65 \<le> n \<and> n \<le> 90) \<or> (97 \<le> n \<and> n \<le> 122))"

definition host_char :: "char \<Rightarrow> bool" where
  "host_char c \<longleftrightarrow> alnum c \<or> c \<in> set ''!$&()*+,;=:[]<>-_.~'' \<or> c = CHR 0x27 \<or> c = CHR 0x22"

definition upper_hex :: "nat \<Rightarrow> char" where
  "upper_hex d = char_of (if d < 10 then 48 + d else 55 + d)"

definition escape_host :: "string \<Rightarrow> string" where
  "escape_host w = concat (map (\<lambda>c. if host_char c then [c]
     else [CHR ''%'', upper_hex (of_char c div 16), upper_hex (of_char c mod 16)]) w)"

text \<open>\<open>URL.String\<close> for a URL with a scheme and a host, and a path that needs no escapes.\<close>

definition url_String :: "string \<Rightarrow> string \<Rightarrow> string \<Rightarrow> string" where
  "url_String scheme host path = scheme @ ''://'' @ escape_host host @ path"

definition loopbackURL :: "string \<Rightarrow> string \<Rightarrow> string \<Rightarrow> go_error + string" where
  "loopbackURL scheme addr path =
     (case SplitHostPort addr of
        Inl err \<Rightarrow> Inl (Wrapped (''invalid http-addr '' @ [CHR 0x22] @ addr @ [CHR 0x22]) err)
      | Inr (_, port) \<Rightarrow> Inr (url_String scheme (''localhost:'' @ port) path))"

section \<open>The health check\<close>

text \<open>
  The request: its URL, whether the certificate goes unchecked, and the timeout. Sending it,
  which includes parsing the URL, gives an error or the status.
\<close>

record probe =
  pb_url :: string
  pb_skip_verify :: bool
  pb_timeout :: time

definition health_probe :: "command \<Rightarrow> go_error + probe" where
  "health_probe cmd =
     (let addr = (if cmd_string cmd ''http-addr'' \<noteq> '''' then cmd_string cmd ''http-addr'' else '':8080'');
          certFile = cmd_string cmd ''tls-cert-file'';
          scheme = (if certFile \<noteq> '''' then ''https'' else ''http'') in
      map_sum id (\<lambda>u. \<lparr>pb_url = u, pb_skip_verify = (certFile \<noteq> ''''), pb_timeout = 2 * second\<rparr>)
        (loopbackURL scheme addr ''/livez''))"

definition runHealthcheck :: "(probe \<Rightarrow> go_error + int) \<Rightarrow> command \<Rightarrow> go_error option" where
  "runHealthcheck send cmd =
     (case health_probe cmd of
        Inl err \<Rightarrow> Some err
      | Inr p \<Rightarrow>
          (case send p of
             Inl err \<Rightarrow> Some err
           | Inr status \<Rightarrow>
               if status \<noteq> 200 then Some (PlainError ''healthcheck failed: status'') else None))"

section \<open>The probe stays on this machine\<close>

text \<open>The characters that end the authority of a URL, or a user in front of its host.\<close>

definition ends_host :: "char \<Rightarrow> bool" where
  "ends_host c \<longleftrightarrow> c \<in> set ''/?#@'' \<or> c = CHR 0x5C"

lemma upper_hex_plain: "d < 16 \<Longrightarrow> \<not> ends_host (upper_hex d)"
proof -
  assume "d < 16"
  then have "d \<in> set [0..<16]" by simp
  moreover have "list_all (\<lambda>d. \<not> ends_host (upper_hex d)) [0..<16]" by code_simp
  ultimately show ?thesis by (auto simp: list_all_iff)
qed

lemma host_char_plain: "host_char c \<Longrightarrow> \<not> ends_host c"
proof -
  assume h: "host_char c"
  have "\<not> ends_host c" if "alnum c"
  proof
    assume "ends_host c"
    then have "of_char c \<in> {47, 63, 35, 64, 92 :: nat}" by (auto simp: ends_host_def)
    then show False using that by (auto simp: alnum_def)
  qed
  then show ?thesis using h by (auto simp: host_char_def ends_host_def)
qed

lemma escape_host_plain: "c \<in> set (escape_host w) \<Longrightarrow> \<not> ends_host c"
proof -
  have "of_char x div 16 < (16 :: nat)" for x :: char
  proof -
    have "of_char x < (256 :: nat)" by simp
    then show ?thesis by linarith
  qed
  moreover have "\<not> ends_host (CHR ''%'')" by (simp add: ends_host_def)
  ultimately show "c \<in> set (escape_host w) \<Longrightarrow> \<not> ends_host c"
    by (auto simp: escape_host_def host_char_plain upper_hex_plain split: if_splits)
qed

lemma escape_host_append: "escape_host (a @ b) = escape_host a @ escape_host b"
  by (simp add: escape_host_def)

lemma escape_host_id: "list_all host_char w \<Longrightarrow> escape_host w = w"
  by (induction w) (auto simp: escape_host_def)

lemma escape_localhost: "escape_host ''localhost:'' = ''localhost:''"
  by code_simp

lemma loopbackURL_Inr:
  assumes "loopbackURL scheme addr path = Inr u"
  obtains h port where "SplitHostPort addr = Inr (h, port)"
    "u = scheme @ ''://localhost:'' @ escape_host port @ path"
proof (cases "SplitHostPort addr")
  case (Inr a)
  obtain h port where a: "a = (h, port)" by fastforce
  have "u = scheme @ ''://'' @ escape_host (''localhost:'' @ port) @ path"
    using assms Inr a by (simp add: loopbackURL_def url_String_def)
  then have "u = scheme @ ''://'' @ (''localhost:'' @ escape_host port) @ path"
    by (simp only: escape_host_append escape_localhost)
  then show thesis using that [of h port] Inr a by simp
qed (use assms in \<open>simp add: loopbackURL_def\<close>)

text \<open>
  The health check asks this machine and nobody else: whatever address is
  configured, the URL names localhost as its host, with nothing after the port that could end
  the host early, and the liveness path; the certificate goes unchecked only there, when TLS is
  configured. The check passes exactly when the answer has status 200.
\<close>

theorem probe_stays_local:
  assumes "health_probe cmd = Inr p"
  shows "\<exists>port. pb_url p = (if pb_skip_verify p then ''https'' else ''http'') @ ''://localhost:'' @ port @ ''/livez'' \<and>
    list_all (\<lambda>c. \<not> ends_host c) port \<and>
    (pb_skip_verify p \<longleftrightarrow> cmd_string cmd ''tls-cert-file'' \<noteq> '''') \<and>
    (\<forall>h n. SplitHostPort (cmd_string cmd ''http-addr'') = Inr (h, n) \<and> list_all host_char n \<longrightarrow> port = n) \<and>
    (runHealthcheck send cmd = None \<longleftrightarrow> send p = Inr 200)"
proof -
  let ?addr = "if cmd_string cmd ''http-addr'' \<noteq> '''' then cmd_string cmd ''http-addr'' else '':8080''"
  let ?tls = "cmd_string cmd ''tls-cert-file'' \<noteq> ''''"
  from assms obtain u where u: "loopbackURL (if ?tls then ''https'' else ''http'') ?addr ''/livez'' = Inr u"
    and p: "p = \<lparr>pb_url = u, pb_skip_verify = ?tls, pb_timeout = 2 * second\<rparr>"
    by (auto simp: health_probe_def Let_def map_sum_def split: sum.splits)
  from u obtain h port where split: "SplitHostPort ?addr = Inr (h, port)"
    and url: "u = (if ?tls then ''https'' else ''http'') @ ''://localhost:'' @ escape_host port @ ''/livez''"
    by (rule loopbackURL_Inr)
  have "escape_host port = n"
    if "SplitHostPort (cmd_string cmd ''http-addr'') = Inr (g, n)" "list_all host_char n" for g n
  proof -
    have "SplitHostPort '''' = Inl (addr_error '''' ''missing port in address'')"
      by (simp add: SplitHostPort_def last_index_of_def index_of_def)
    then have "n = port" using that(1) split by (auto split: if_splits)
    then show ?thesis using escape_host_id [OF that(2)] by simp
  qed
  moreover have "runHealthcheck send cmd = None \<longleftrightarrow> send p = Inr 200"
    using assms by (auto simp: runHealthcheck_def split: sum.splits)
  moreover have "pb_url p = u" "pb_skip_verify p \<longleftrightarrow> ?tls" using p by simp_all
  ultimately show ?thesis
    using url escape_host_plain [of _ port]
    by (intro exI [of _ "escape_host port"]) (auto simp: list_all_iff)
qed

section \<open>Witnesses\<close>

definition health_command :: command where
  "health_command = (\<lambda>n. if n = ''http-addr'' then Some (StringV ''[::]:8082'') else None)"

theorem probe_stays_local_witness:
  "\<exists>p. health_probe health_command = Inr p \<and> pb_url p = ''http://localhost:8082/livez'' \<and>
     runHealthcheck (\<lambda>_. Inr 503) health_command \<noteq> None"
proof -
  have split: "SplitHostPort (cmd_string health_command ''http-addr'') = Inr (''::'', ''8082'')"
    and port: "list_all host_char ''8082''"
    and skip: "cmd_string health_command ''tls-cert-file'' = ''''" by code_simp+
  have "\<not> isl (health_probe health_command)" by code_simp
  then obtain p where p: "health_probe health_command = Inr p" by (cases "health_probe health_command") auto
  from probe_stays_local [OF p, of "\<lambda>_. Inr 503"] show ?thesis
    using p split port skip by auto
qed

end
