(* ===== verification/Lifecycle.thy ===== *)
theory Lifecycle
  imports Loopback Worker Api_Server Spa
begin

text \<open>
  \<open>cmd/app/main.go\<close>: how the service is put together, run and taken down again. An operation gives
  the events it causes, in order, and its result; what the libraries and the operating system
  answer is an argument. Every start of a service is a race between its return and the
  cancellation of the process, and which of the two wins is an argument as well.
\<close>

section \<open>Services\<close>

datatype service = Listener_Service | Worker_Service

datatype event =
    Pool_Opened | Pool_Closed | Migrated | River_Migrated
  | Start_Called service
  | Start_Done service "go_error option" \<comment> \<open>\<open>Start\<close> returned\<close>
  | Stop_Called service
  | StopAndCancel_Called service
  | Serving

text \<open>
  \<open>errors.Join\<close> drops nil errors and is nil when there are no others. \<open>Ctx_Done\<close> is the case of the
  \<open>select\<close> in which the process is cancelled first: \<open>Stop\<close> is called, with its result, and
  \<open>Start\<close> returns after all, or not in time.
\<close>

definition errors_Join :: "go_error option list \<Rightarrow> go_error option" where
  "errors_Join errs =
     (let es = map the (filter (\<lambda>e. e \<noteq> None) errs) in if es = [] then None else Some (Joined es))"

definition context_Canceled :: go_error where
  "context_Canceled = PlainError ''context canceled''"

datatype start_turn =
    Start_Returns "go_error option"
  | Ctx_Done "go_error option" "go_error option option"

definition startService :: "bool \<Rightarrow> service \<Rightarrow> start_turn \<Rightarrow> event list \<times> go_error option" where
  "startService cancelled svc turn =
     (if cancelled then ([], Some context_Canceled)
      else case turn of
        Start_Returns err \<Rightarrow> ([Start_Called svc, Start_Done svc err], err)
      | Ctx_Done stopErr (Some startErr) \<Rightarrow>
          ([Start_Called svc, Stop_Called svc, Start_Done svc startErr],
           errors_Join [Some context_Canceled, stopErr, startErr])
      | Ctx_Done stopErr None \<Rightarrow>
          ([Start_Called svc, Stop_Called svc], errors_Join [Some context_Canceled, stopErr]))"

text \<open>
  How the calls on a service go: whether the process is cancelled before it starts, its start, its
  stop within ten seconds, and \<open>StopAndCancel\<close>, if it has that method.
\<close>

record service_calls =
  sv_cancelled :: bool
  sv_start :: start_turn
  sv_stop :: "go_error option"
  sv_cancel :: "go_error option option"

definition stop_worker :: "service_calls \<Rightarrow> event list \<times> go_error option" where
  "stop_worker wk =
     (case sv_stop wk of
        None \<Rightarrow> ([Stop_Called Worker_Service], None)
      | Some e \<Rightarrow>
          (case sv_cancel wk of
             None \<Rightarrow> ([Stop_Called Worker_Service], Some e)
           | Some cancelErr \<Rightarrow>
               ([Stop_Called Worker_Service, StopAndCancel_Called Worker_Service], errors_Join [Some e, cancelErr])))"

definition runServices ::
  "service_calls \<Rightarrow> service_calls \<Rightarrow> go_error option \<Rightarrow> event list \<times> go_error option" where
  "runServices lsn wk serverErr =
     (case startService (sv_cancelled lsn) Listener_Service (sv_start lsn) of
        (ev1, Some err) \<Rightarrow> (ev1, Some (Wrapped ''starting notification listener'' err))
      | (ev1, None) \<Rightarrow>
          (case startService (sv_cancelled wk) Worker_Service (sv_start wk) of
             (ev2, Some err) \<Rightarrow>
               (ev1 @ ev2 @ [Stop_Called Listener_Service],
                errors_Join [Some (Wrapped ''starting worker'' err), sv_stop lsn])
           | (ev2, None) \<Rightarrow>
               (let (ev3, workerErr) = stop_worker wk in
                (ev1 @ ev2 @ [Serving] @ ev3 @ [Stop_Called Listener_Service],
                 errors_Join [serverErr, workerErr, sv_stop lsn]))))"

section \<open>The HTTP server\<close>

record http_timeouts =
  ReadHeaderTimeout :: time
  ReadTimeout :: time
  WriteTimeout :: time
  IdleTimeout :: time

definition configureServer :: http_timeouts where
  "configureServer = \<lparr>ReadHeaderTimeout = 5 * second, ReadTimeout = 30 * second,
     WriteTimeout = 30 * second, IdleTimeout = 120 * second\<rparr>"

definition ErrServerClosed :: go_error where
  "ErrServerClosed = PlainError ''http: Server closed''"

definition unless_closed :: "go_error option \<Rightarrow> go_error option" where
  "unless_closed r = (case r of Some err \<Rightarrow> if errors_is err ErrServerClosed then None else Some err | None \<Rightarrow> None)"

text \<open>\<open>listen\<close> runs the framework's server, with a certificate and key or without.\<close>

definition startServer ::
  "(string \<Rightarrow> go_error + string) \<Rightarrow> ((string \<times> string) option \<Rightarrow> go_error option) \<Rightarrow> config \<Rightarrow> go_error option" where
  "startServer read_file listen cfg =
     (if TLSCertFile cfg \<noteq> '''' then
        (case read_file (TLSCertFile cfg) of
           Inl err \<Rightarrow> Some (Wrapped (''reading tls cert file '' @ TLSCertFile cfg) err)
         | Inr cert \<Rightarrow>
             (case read_file (TLSKeyFile cfg) of
                Inl err \<Rightarrow> Some (Wrapped (''reading tls key file '' @ TLSKeyFile cfg) err)
              | Inr key \<Rightarrow> unless_closed (listen (Some (cert, key)))))
      else unless_closed (listen None))"

section \<open>The pool\<close>

text \<open>
  Durations are whole microseconds, as in \<open>Config\<close>; the jitter, a quotient that Go computes on
  nanoseconds and truncates towards zero, is in nanoseconds.
\<close>

definition nanoseconds :: "time \<Rightarrow> int" where
  "nanoseconds t = 1000 * t"

definition go_quot :: "int \<Rightarrow> int \<Rightarrow> int" where
  "go_quot a b = (if 0 \<le> a then a div b else - (- a div b))"

record pool_config =
  MaxConns :: int
  MinConns :: int
  MaxConnLifetime :: time
  MaxConnIdleTime :: time
  MaxConnLifetimeJitter :: int

definition newPool ::
  "(string \<Rightarrow> go_error + pool_config) \<Rightarrow> (pool_config \<Rightarrow> go_error option) \<Rightarrow> config \<Rightarrow> go_error + pool_config" where
  "newPool parse_config connect cfg =
     (case parse_config (DBSource cfg) of
        Inl err \<Rightarrow> Inl err
      | Inr p0 \<Rightarrow>
          (let p1 = (if DBMaxConns cfg > 0 then p0\<lparr>MaxConns := DBMaxConns cfg\<rparr> else p0);
               p2 = (if DBMinConns cfg > 0 then p1\<lparr>MinConns := DBMinConns cfg\<rparr> else p1);
               p3 = (if DBMaxConnLifetime cfg > 0 then p2\<lparr>MaxConnLifetime := DBMaxConnLifetime cfg\<rparr> else p2);
               p4 = (if DBMaxConnIdleTime cfg > 0 then p3\<lparr>MaxConnIdleTime := DBMaxConnIdleTime cfg\<rparr> else p3);
               p5 = p4\<lparr>MaxConnLifetimeJitter := go_quot (nanoseconds (MaxConnLifetime p4)) 10\<rparr> in
           case connect p5 of Some err \<Rightarrow> Inl err | None \<Rightarrow> Inr p5))"

section \<open>Putting the service together\<close>

text \<open>
  The world around the process: parsers, the database, the migrations, the mail and network
  libraries, the River client (made for a number of workers and a base URL), the embedded assets.
\<close>

record ('c, 'net, 'ip) world =
  wd_parse_url :: "string \<Rightarrow> go_error + url"
  wd_limits :: limit_parsers
  wd_parse_config :: "string \<Rightarrow> go_error + pool_config"
  wd_connect :: "pool_config \<Rightarrow> go_error option"
  wd_migrate_schema :: "go_error option"
  wd_river_migrate :: "go_error option"
  wd_smtp :: "'c smtp_lib"
  wd_river_client :: "int \<Rightarrow> string \<Rightarrow> go_error option"
  wd_net :: "('net, 'ip) net_lib"
  wd_dist :: "go_error + dist"
  wd_read_file :: "string \<Rightarrow> go_error + string"
  wd_listen :: "(string \<times> string) option \<Rightarrow> go_error option"
  wd_listener :: service_calls
  wd_worker :: service_calls

definition mustConfig :: "('c, 'net, 'ip) world \<Rightarrow> command \<Rightarrow> go_error + config" where
  "mustConfig w cmd =
     (let cfg = FromCommand (wd_limits w) cmd in
      case Validate (wd_parse_url w) cfg of Some err \<Rightarrow> Inl err | None \<Rightarrow> Inr cfg)"

definition runMigrations :: "('c, 'net, 'ip) world \<Rightarrow> event list \<times> go_error option" where
  "runMigrations w =
     (case wd_migrate_schema w of
        Some err \<Rightarrow> ([], Some err)
      | None \<Rightarrow>
          (case wd_river_migrate w of
             Some err \<Rightarrow> ([Migrated], Some err)
           | None \<Rightarrow> ([Migrated, River_Migrated], None)))"

definition app_base_url :: "config \<Rightarrow> go_error + string" where
  "app_base_url cfg =
     (if PublicBaseURL cfg = ''''
      then loopbackURL (if TLSCertFile cfg \<noteq> '''' then ''https'' else ''http'') (HTTPAddr cfg) ''''
      else Inr (PublicBaseURL cfg))"

record 'c app_deps =
  ad_cfg :: config
  ad_pool :: pool_config
  ad_mailer :: "'c smtp_mailer"
  ad_base_url :: string

text \<open>What \<open>buildApp\<close> does with an open pool.\<close>

definition assemble ::
  "('c, 'net, 'ip) world \<Rightarrow> config \<Rightarrow> pool_config \<Rightarrow> event list \<times> (go_error + 'c app_deps)" where
  "assemble w cfg pool =
     (case runMigrations w of
        (ev, Some err) \<Rightarrow> (ev, Inl err)
      | (ev, None) \<Rightarrow>
          (case NewSMTPMailer (wd_smtp w) cfg of
             Inl err \<Rightarrow> (ev, Inl err)
           | Inr mlr \<Rightarrow>
               (case app_base_url cfg of
                  Inl err \<Rightarrow> (ev, Inl err)
                | Inr base \<Rightarrow>
                    (case wd_river_client w (RiverMaxWorkers cfg) base of
                       Some err \<Rightarrow> (ev, Inl err)
                     | None \<Rightarrow> (ev, Inr \<lparr>ad_cfg = cfg, ad_pool = pool, ad_mailer = mlr, ad_base_url = base\<rparr>)))))"

definition buildApp :: "('c, 'net, 'ip) world \<Rightarrow> command \<Rightarrow> event list \<times> (go_error + 'c app_deps)" where
  "buildApp w cmd =
     (case mustConfig w cmd of
        Inl err \<Rightarrow> ([], Inl err)
      | Inr cfg \<Rightarrow>
          (case newPool (wd_parse_config w) (wd_connect w) cfg of
             Inl err \<Rightarrow> ([], Inl err)
           | Inr pool \<Rightarrow>
               (let (ev, r) = assemble w cfg pool in
                (Pool_Opened # ev @ (if isl r then [Pool_Closed] else []), r))))"

definition run_app :: "('c, 'net, 'ip) world \<Rightarrow> config \<Rightarrow> event list \<times> go_error option" where
  "run_app w cfg =
     (case NewJWTMaker (JWTSecret cfg) of
        Inl err \<Rightarrow> ([], Some err)
      | Inr _ \<Rightarrow>
          (case NewServer (wd_net w) cfg of
             Inl err \<Rightarrow> ([], Some err)
           | Inr _ \<Rightarrow>
               (case wd_dist w of
                  Inl err \<Rightarrow> ([], Some err)
                | Inr _ \<Rightarrow>
                    runServices (wd_listener w) (wd_worker w)
                      (startServer (wd_read_file w) (wd_listen w) cfg))))"

definition runServe :: "('c, 'net, 'ip) world \<Rightarrow> command \<Rightarrow> event list \<times> go_error option" where
  "runServe w cmd =
     (case buildApp w cmd of
        (ev, Inl err) \<Rightarrow> (ev, Some err)
      | (ev, Inr deps) \<Rightarrow>
          (let (ev', r) = run_app w (ad_cfg deps) in (ev @ ev' @ [Pool_Closed], r)))"

text \<open>The commands, and the exit status of the process.\<close>

definition newCommand ::
  "('c, 'net, 'ip) world \<Rightarrow> (probe \<Rightarrow> go_error + int) \<Rightarrow> (string \<times> (command \<Rightarrow> event list \<times> go_error option)) list" where
  "newCommand w send =
     [(''serve'', runServe w),
      (''healthcheck'', \<lambda>cmd. ([], runHealthcheck send cmd)),
      (''version'', \<lambda>_. ([], None))]"

definition exit_status :: "go_error option \<Rightarrow> int" where
  "exit_status r = (if r = None then 0 else 1)"

section \<open>Every start has its stop\<close>

text \<open>\<open>y\<close> comes after the first \<open>x\<close>.\<close>

definition before :: "event \<Rightarrow> event \<Rightarrow> event list \<Rightarrow> bool" where
  "before x y evs \<longleftrightarrow> y \<in> set (tl (dropWhile (\<lambda>e. e \<noteq> x) evs))"

lemma errors_Join_None: "errors_Join errs = None \<longleftrightarrow> (\<forall>e \<in> set errs. e = None)"
  by (auto simp: errors_Join_def Let_def filter_empty_conv)

lemma errors_Join_Some: "(\<exists>err. errors_Join errs = Some err) \<longleftrightarrow> (\<exists>e \<in> set errs. e \<noteq> None)"
  using errors_Join_None [of errs] by auto

lemma before_Cons:
  "before x y (e # evs) \<longleftrightarrow> (if e = x then y \<in> set evs else before x y evs)"
  by (simp add: before_def)

lemma before_Nil [simp]: "\<not> before x y []"
  by (simp add: before_def)

lemma before_append: "before x y evs \<Longrightarrow> before x y (evs @ post)"
proof (induction evs)
  case (Cons e evs)
  then show ?case by (auto simp: before_Cons split: if_splits)
qed simp

lemma before_prepend: "x \<notin> set pre \<Longrightarrow> before x y (pre @ evs) \<longleftrightarrow> before x y evs"
  by (induction pre) (auto simp: before_Cons)

lemma before_late: "x \<in> set pre \<Longrightarrow> y \<in> set evs \<Longrightarrow> before x y (pre @ evs)"
  by (induction pre) (auto simp: before_Cons)

text \<open>A service that was started is stopped later, unless its start failed by itself.\<close>

definition wound_down :: "event list \<Rightarrow> bool" where
  "wound_down evs \<longleftrightarrow> (\<forall>svc. Start_Called svc \<in> set evs \<longrightarrow>
     before (Start_Called svc) (Stop_Called svc) evs \<or> (\<exists>err. Start_Done svc (Some err) \<in> set evs))"

text \<open>Serving happens between the starts and the stops, and the worker stops before the listener.\<close>

definition served_between :: "event list \<Rightarrow> bool" where
  "served_between evs \<longleftrightarrow> (Serving \<in> set evs \<longrightarrow>
     before (Start_Done Listener_Service None) Serving evs \<and>
     before (Start_Done Worker_Service None) Serving evs \<and>
     before Serving (Stop_Called Worker_Service) evs \<and>
     before (Stop_Called Worker_Service) (Stop_Called Listener_Service) evs)"

lemma startService_shape:
  assumes "startService c svc turn = (ev, r)"
  shows "(r = None \<longrightarrow> ev = [Start_Called svc, Start_Done svc None]) \<and>
    (r \<noteq> None \<longrightarrow> ev = [] \<or> (\<exists>err. ev = [Start_Called svc, Start_Done svc (Some err)]) \<or>
       (\<exists>rest. ev = [Start_Called svc, Stop_Called svc] @ rest \<and> set rest \<subseteq> range (Start_Done svc)))"
  using assms
  by (auto simp: startService_def errors_Join_def split: if_splits start_turn.splits option.splits)

lemma service_eq: "svc \<noteq> Listener_Service \<longleftrightarrow> svc = Worker_Service"
  by (cases svc) auto

lemma stop_worker_shape:
  assumes "stop_worker wk = (ev, r)"
  shows "(ev = [Stop_Called Worker_Service] \<or> ev = [Stop_Called Worker_Service, StopAndCancel_Called Worker_Service]) \<and>
    (r = None \<longleftrightarrow> sv_stop wk = None)"
  using assms
  by (cases "sv_stop wk"; cases "sv_cancel wk") (auto simp: stop_worker_def errors_Join_None errors_Join_Some)

lemma runServices_shape:
  assumes "runServices lsn wk serverErr = (evs, r)"
  shows "wound_down evs \<and> served_between evs \<and> set evs \<inter> {Pool_Opened, Pool_Closed} = {} \<and>
    (r = None \<longrightarrow> Serving \<in> set evs \<and> serverErr = None)"
proof -
  obtain ev1 r1 where s1: "startService (sv_cancelled lsn) Listener_Service (sv_start lsn) = (ev1, r1)"
    by fastforce
  obtain ev2 r2 where s2: "startService (sv_cancelled wk) Worker_Service (sv_start wk) = (ev2, r2)"
    by fastforce
  obtain ev3 r3 where s3: "stop_worker wk = (ev3, r3)" by fastforce
  note h1 = startService_shape [OF s1] and h2 = startService_shape [OF s2] and h3 = stop_worker_shape [OF s3]
  show ?thesis
  proof (cases r1)
    case (Some e)
    then have "evs = ev1" "r \<noteq> None" using assms s1 by (auto simp: runServices_def)
    then show ?thesis
      using h1 Some by (auto simp: wound_down_def served_between_def before_Cons)
  next
    case None
    then have ev1: "ev1 = [Start_Called Listener_Service, Start_Done Listener_Service None]" using h1 by simp
    show ?thesis
    proof (cases r2)
      case (Some e)
      then have "evs = ev1 @ ev2 @ [Stop_Called Listener_Service]" "r \<noteq> None"
        using assms s1 s2 None by (auto simp: runServices_def errors_Join_Some)
      then show ?thesis
        using h2 Some ev1 by (auto simp: wound_down_def served_between_def before_Cons)
    next
      case n2: None
      then have "evs = ev1 @ ev2 @ [Serving] @ ev3 @ [Stop_Called Listener_Service]"
        "r = errors_Join [serverErr, r3, sv_stop lsn]"
        using assms s1 s2 s3 None by (auto simp: runServices_def)
      moreover have "ev2 = [Start_Called Worker_Service, Start_Done Worker_Service None]" using h2 n2 by simp
      ultimately show ?thesis
        using h3 ev1 by (auto simp: wound_down_def served_between_def before_Cons errors_Join_None)
    qed
  qed
qed

lemma assemble_shape:
  assumes "assemble w cfg pool = (ev, r)"
  shows "ev \<in> {[], [Migrated], [Migrated, River_Migrated]} \<and>
    (\<forall>deps. r = Inr deps \<longrightarrow> ev = [Migrated, River_Migrated] \<and> ad_cfg deps = cfg)"
  using assms
  by (auto simp: assemble_def runMigrations_def split: option.splits sum.splits)

lemma buildApp_shape:
  assumes "buildApp w cmd = (ev, r)"
  shows "(\<forall>deps. r = Inr deps \<longrightarrow> ev = [Pool_Opened, Migrated, River_Migrated] \<and>
       mustConfig w cmd = Inr (ad_cfg deps)) \<and>
    (isl r \<longrightarrow> ev \<in> {[], [Pool_Opened, Pool_Closed], [Pool_Opened, Migrated, Pool_Closed],
       [Pool_Opened, Migrated, River_Migrated, Pool_Closed]})"
proof (cases "mustConfig w cmd")
  case (Inr cfg)
  show ?thesis
  proof (cases "newPool (wd_parse_config w) (wd_connect w) cfg")
    case pool: (Inr pool)
    obtain mid r' where a: "assemble w cfg pool = (mid, r')" by fastforce
    have "r' = r" and ev: "ev = Pool_Opened # mid @ (if isl r then [Pool_Closed] else [])"
      using assms Inr pool a by (auto simp: buildApp_def)
    note shape = assemble_shape [OF a, unfolded \<open>r' = r\<close>]
    show ?thesis
    proof (cases r)
      case (Inl err)
      then show ?thesis using shape by (auto simp: ev)
    next
      case (Inr deps)
      then show ?thesis using shape \<open>mustConfig w cmd = Inr cfg\<close> by (simp add: ev)
    qed
  qed (use assms Inr in \<open>auto simp: buildApp_def\<close>)
qed (use assms in \<open>auto simp: buildApp_def\<close>)

lemma run_app_shape:
  assumes "run_app w cfg = (evs, r)"
  shows "wound_down evs \<and> served_between evs \<and> set evs \<inter> {Pool_Opened, Pool_Closed} = {} \<and>
    (r = None \<longrightarrow> Serving \<in> set evs \<and> startServer (wd_read_file w) (wd_listen w) cfg = None)"
proof -
  have "evs = [] \<and> r \<noteq> None \<or>
      runServices (wd_listener w) (wd_worker w) (startServer (wd_read_file w) (wd_listen w) cfg) = (evs, r)"
    using assms unfolding run_app_def by (auto split: sum.splits)
  then show ?thesis
  proof
    assume "evs = [] \<and> r \<noteq> None"
    then show ?thesis by (simp add: wound_down_def served_between_def)
  next
    assume "runServices (wd_listener w) (wd_worker w) (startServer (wd_read_file w) (wd_listen w) cfg) = (evs, r)"
    from runServices_shape [OF this] show ?thesis .
  qed
qed

lemma wound_down_frame:
  assumes "wound_down evs" "\<forall>svc. Start_Called svc \<notin> set pre" "\<forall>svc. Start_Called svc \<notin> set post"
  shows "wound_down (pre @ evs @ post)"
  using assms by (auto simp: wound_down_def before_prepend intro: before_append)

lemma served_between_frame:
  assumes "served_between evs" "set pre \<subseteq> {Pool_Opened, Migrated, River_Migrated}" "Serving \<notin> set post"
  shows "served_between (pre @ evs @ post)"
proof -
  have "Serving \<notin> set pre" "Start_Done svc r \<notin> set pre" "Stop_Called svc \<notin> set pre" for svc r
    using assms(2) by auto
  then show ?thesis
    using assms(1,3) by (auto simp: served_between_def before_prepend intro: before_append)
qed

text \<open>
  C38 (liveness). What is started is taken down, however starting, serving and stopping go: once the
  database pool is open it is closed, once, as the last thing that happens; every service whose start
  was called is asked to stop afterwards, unless its start reported an error by itself; requests
  are served only after the migrations and both starts, and then the worker stops before the
  listener. The command reports success only if it served and the server ended without an error.
\<close>

theorem serve_winds_down:
  assumes "runServe w cmd = (evs, r)"
  shows "(evs = [] \<or> hd evs = Pool_Opened \<and> last evs = Pool_Closed \<and>
      count_list evs Pool_Opened = 1 \<and> count_list evs Pool_Closed = 1) \<and>
    wound_down evs \<and> served_between evs \<and>
    (Serving \<in> set evs \<longrightarrow> before Migrated Serving evs \<and> before River_Migrated Serving evs) \<and>
    (r = None \<longrightarrow> Serving \<in> set evs \<and>
       (\<exists>cfg. mustConfig w cmd = Inr cfg \<and> startServer (wd_read_file w) (wd_listen w) cfg = None))"
proof -
  obtain ev b where build: "buildApp w cmd = (ev, b)" by fastforce
  note shape = buildApp_shape [OF build]
  show ?thesis
  proof (cases b)
    case (Inl err)
    then have "evs = ev" "r \<noteq> None" using assms build by (auto simp: runServe_def)
    then show ?thesis
      using shape Inl by (auto simp: wound_down_def served_between_def)
  next
    case (Inr deps)
    let ?pre = "[Pool_Opened, Migrated, River_Migrated]"
    obtain mid r' where app: "run_app w (ad_cfg deps) = (mid, r')" by fastforce
    have evs: "evs = ?pre @ mid @ [Pool_Closed]" and "r = r'"
      using assms build app shape Inr by (auto simp: runServe_def)
    note m = run_app_shape [OF app]
    have "wound_down evs" "served_between evs"
      using m unfolding evs by (intro wound_down_frame served_between_frame; simp)+
    moreover have "count_list evs Pool_Opened = 1" "count_list evs Pool_Closed = 1"
      using m by (auto simp: evs count_list_append count_notin)
    ultimately show ?thesis
      using m shape Inr \<open>r = r'\<close> by (auto simp: before_Cons evs)
  qed
qed

section \<open>Witnesses\<close>

text \<open>A process that is cancelled while the worker starts; one that serves and whose worker hangs.\<close>

definition good_calls :: service_calls where
  "good_calls = \<lparr>sv_cancelled = False, sv_start = Start_Returns None, sv_stop = None, sv_cancel = None\<rparr>"

definition sample_world :: "service_calls \<Rightarrow> (smtp_option list, string, string) world" where
  "sample_world wk = \<lparr>wd_parse_url = sample_url, wd_limits = \<lparr>parse_transfer = (\<lambda>_. Inr None), parse_opening = (\<lambda>_. Inr None)\<rparr>,
     wd_parse_config = (\<lambda>_. Inr \<lparr>MaxConns = 4, MinConns = 0, MaxConnLifetime = 3600 * second,
        MaxConnIdleTime = 1800 * second, MaxConnLifetimeJitter = 0\<rparr>),
     wd_connect = (\<lambda>_. None), wd_migrate_schema = None, wd_river_migrate = None, wd_smtp = sample_smtp,
     wd_river_client = (\<lambda>_ _. None), wd_net = sample_net, wd_dist = Inr sample_dist,
     wd_read_file = (\<lambda>_. Inl (PlainError ''no file'')), wd_listen = (\<lambda>_. Some ErrServerClosed),
     wd_listener = good_calls, wd_worker = wk\<rparr>"

definition serve_command :: command where
  "serve_command = (\<lambda>n.
     if n = ''db-source'' then Some (StringV ''postgres://db'')
     else if n = ''jwt-secret'' then Some (StringV ''0123456789abcdef0123456789abcdef'')
     else if n = ''access-ttl'' \<or> n = ''refresh-ttl'' then Some (DurationV second)
     else if n = ''smtp-from'' then Some (StringV ''no-reply@bank.example'')
     else if n = ''http-addr'' then Some (StringV '':8080'')
     else None)"

definition hanging_worker :: service_calls where
  "hanging_worker = good_calls\<lparr>sv_stop := Some (PlainError ''context deadline exceeded''), sv_cancel := Some None\<rparr>"

definition slow_worker :: service_calls where
  "slow_worker = good_calls\<lparr>sv_start := Ctx_Done None (Some None)\<rparr>"

theorem serve_winds_down_witness:
  "Serving \<in> set (fst (runServe (sample_world hanging_worker) serve_command)) \<and>
   before Serving (Stop_Called Worker_Service) (fst (runServe (sample_world hanging_worker) serve_command)) \<and>
   before (Start_Called Worker_Service) (Stop_Called Worker_Service)
     (fst (runServe (sample_world slow_worker) serve_command))"
proof -
  let ?a = "runServe (sample_world hanging_worker) serve_command"
    and ?b = "runServe (sample_world slow_worker) serve_command"
  have "Serving \<in> set (fst ?a)" by code_simp
  moreover have "fst ?b = [Pool_Opened, Migrated, River_Migrated, Start_Called Listener_Service,
      Start_Done Listener_Service None, Start_Called Worker_Service, Stop_Called Worker_Service,
      Start_Done Worker_Service None, Stop_Called Listener_Service, Pool_Closed]" by code_simp
  then have "Start_Called Worker_Service \<in> set (fst ?b)" "\<forall>e. Start_Done Worker_Service (Some e) \<notin> set (fst ?b)"
    by simp_all
  moreover have "served_between (fst ?a)" "wound_down (fst ?b)"
    using serve_winds_down [OF surjective_pairing, of "sample_world hanging_worker" serve_command]
      serve_winds_down [OF surjective_pairing, of "sample_world slow_worker" serve_command] by blast+
  ultimately show ?thesis by (auto simp: served_between_def wound_down_def)
qed

end
