(* ===== verification/Locking.thy ===== *)
theory Locking
  imports Transfer_Refine Transfer_Witnesses Session_Tx Notification_Tx "HOL-Library.Product_Lexorder" "HOL-Library.Sublist"
begin

text \<open>
  Transactions at the same time. The explicit locks of the store are the account rows of
  \<open>lockAccounts\<close>, the session row of \<open>RotateSessionTx\<close> and the advisory lock of a notification
  owner. Here every open transaction has the locks it still has to take, in its order, and
  PostgreSQL grants a lock when nobody else holds it. The locale \<open>ordered_locking\<close> says what keeps such
  transactions from waiting for each other for ever; the bodies of the store keep to it.
\<close>

section \<open>An order on locks\<close>

definition lock_key :: "lock \<Rightarrow> nat \<times> uuid \<times> string" where
  "lock_key l = (case l of
     AccountRow i \<Rightarrow> (0, i, '''') | SessionRow i \<Rightarrow> (1, i, '''') | NotificationOwner ow \<Rightarrow> (2, 0, ow))"

lemma lock_key_inj: "lock_key a = lock_key b \<longleftrightarrow> a = b"
  by (auto simp: lock_key_def split: lock.splits)

instantiation lock :: linorder
begin

definition less_eq_lock :: "lock \<Rightarrow> lock \<Rightarrow> bool" where
  "less_eq_lock a b \<longleftrightarrow> lock_key a \<le> lock_key b"

definition less_lock :: "lock \<Rightarrow> lock \<Rightarrow> bool" where
  "less_lock a b \<longleftrightarrow> lock_key a < lock_key b"

instance
  by standard (auto simp: less_eq_lock_def less_lock_def lock_key_inj simp flip: not_le)

end

lemma AccountRow_less [simp]: "AccountRow i < AccountRow j \<longleftrightarrow> i < j"
  by (simp add: less_lock_def lock_key_def)

section \<open>Connections and schedules\<close>

record connection =
  cn_held :: "lock list"
  cn_todo :: "lock list"
  cn_done :: bool

text \<open>
  One step of one of the connections: it takes its next lock, commits when it has them all, or
  is rolled back, at any point. The end of a transaction releases its locks. \<open>forward\<close> are the
  steps a transaction makes by itself.
\<close>

definition finish :: "nat \<Rightarrow> connection list \<Rightarrow> connection list" where
  "finish n p = p[n := \<lparr>cn_held = [], cn_todo = [], cn_done = True\<rparr>]"

definition free_for :: "nat \<Rightarrow> lock \<Rightarrow> connection list \<Rightarrow> bool" where
  "free_for n l p \<longleftrightarrow> (\<forall>m < length p. m \<noteq> n \<longrightarrow> l \<notin> set (cn_held (p ! m)))"

inductive forward :: "connection list \<Rightarrow> connection list \<Rightarrow> bool" where
  Acquire: "n < length p \<Longrightarrow> \<not> cn_done (p ! n) \<Longrightarrow> cn_todo (p ! n) = l # ls \<Longrightarrow> free_for n l p \<Longrightarrow>
    forward p (p[n := (p ! n)\<lparr>cn_held := cn_held (p ! n) @ [l], cn_todo := ls\<rparr>])"
| Commit: "n < length p \<Longrightarrow> \<not> cn_done (p ! n) \<Longrightarrow> cn_todo (p ! n) = [] \<Longrightarrow> forward p (finish n p)"

inductive lock_step :: "connection list \<Rightarrow> connection list \<Rightarrow> bool" where
  Forward: "forward p p' \<Longrightarrow> lock_step p p'"
| Rollback: "n < length p \<Longrightarrow> \<not> cn_done (p ! n) \<Longrightarrow> lock_step p (finish n p)"

definition open_with :: "lock list \<Rightarrow> connection" where
  "open_with ls = \<lparr>cn_held = [], cn_todo = ls, cn_done = False\<rparr>"

text \<open>What is left to do: a step for every lock and one to end.\<close>

definition work_left :: "connection list \<Rightarrow> nat" where
  "work_left p = sum_list (map (\<lambda>c. if cn_done c then 0 else Suc (length (cn_todo c))) p)"

section \<open>Taking locks in order\<close>

text \<open>Each connection takes its locks in ascending order, and nobody shares a lock.\<close>

definition orderly :: "connection list \<Rightarrow> bool" where
  "orderly p \<longleftrightarrow>
     (\<forall>c \<in> set p. sorted_wrt (<) (cn_held c @ cn_todo c) \<and> (cn_done c \<longrightarrow> cn_held c = []))"

lemma work_left_update:
  assumes "n < length p"
  shows "work_left (p[n := c]) + (if cn_done (p ! n) then 0 else Suc (length (cn_todo (p ! n)))) =
    work_left p + (if cn_done c then 0 else Suc (length (cn_todo c)))"
proof -
  have p: "p = take n p @ p ! n # drop (Suc n) p" using assms by (rule id_take_nth_drop)
  have upd: "p[n := c] = take n p @ c # drop (Suc n) p" using assms by (rule upd_conv_take_nth_drop)
  have split: "work_left (a @ x # b) =
      work_left a + (if cn_done x then 0 else Suc (length (cn_todo x))) + work_left b" for a b x
    by (simp add: work_left_def)
  show ?thesis
    unfolding upd split by (subst (3) p) (simp add: split)
qed

lemma finish_work: "n < length p \<Longrightarrow> \<not> cn_done (p ! n) \<Longrightarrow> work_left (finish n p) < work_left p"
  using work_left_update [of n p "\<lparr>cn_held = [], cn_todo = [], cn_done = True\<rparr>"] by (simp add: finish_def)

lemma forward_work: "forward p p' \<Longrightarrow> work_left p' < work_left p"
proof (induction rule: forward.induct)
  case (Acquire n p l ls)
  then show ?case
    using work_left_update [of n p "(p ! n)\<lparr>cn_held := cn_held (p ! n) @ [l], cn_todo := ls\<rparr>"] by simp
qed (rule finish_work)

lemma lock_step_work: "lock_step p p' \<Longrightarrow> work_left p' < work_left p"
  by (induction rule: lock_step.induct) (auto intro: forward_work finish_work)

lemma finish_orderly: "orderly p \<Longrightarrow> orderly (finish n p)"
  unfolding orderly_def finish_def by (auto dest!: set_update_subset_insert [THEN subsetD])

lemma forward_orderly: "forward p p' \<Longrightarrow> orderly p \<Longrightarrow> orderly p'"
proof (induction rule: forward.induct)
  case (Acquire n p l ls)
  then have "sorted_wrt (<) (cn_held (p ! n) @ l # ls)"
    by (metis orderly_def nth_mem)
  then show ?case
    using Acquire unfolding orderly_def by (auto dest!: set_update_subset_insert [THEN subsetD])
qed (rule finish_orderly)

lemma lock_step_orderly: "lock_step p p' \<Longrightarrow> orderly p \<Longrightarrow> orderly p'"
  by (induction rule: lock_step.induct) (auto intro: forward_orderly finish_orderly)

text \<open>
  Of the connections that wait, take one that wants the greatest lock: who holds it wants
  nothing greater, so it does not wait.
\<close>

lemma orderly_progress:
  assumes "orderly p" and "\<exists>c \<in> set p. \<not> cn_done c"
  shows "\<exists>p'. forward p p'"
proof (rule ccontr)
  assume stuck: "\<nexists>p'. forward p p'"
  let ?open = "{c \<in> set p. \<not> cn_done c}"
  have wants: "cn_todo c \<noteq> []" if "c \<in> ?open" for c
    using that stuck by (auto simp: in_set_conv_nth dest: Commit)
  have holder: "\<exists>d \<in> ?open. hd (cn_todo c) \<in> set (cn_held d)" if c: "c \<in> ?open" for c
  proof -
    from c obtain n where n: "n < length p" "c = p ! n" "\<not> cn_done (p ! n)" by (auto simp: in_set_conv_nth)
    have "cn_todo (p ! n) = hd (cn_todo c) # tl (cn_todo c)" using wants [OF c] n by simp
    with Acquire [OF n(1,3) this] stuck have "\<not> free_for n (hd (cn_todo c)) p" by blast
    then obtain m where m: "m < length p" "hd (cn_todo c) \<in> set (cn_held (p ! m))" by (auto simp: free_for_def)
    then have "\<not> cn_done (p ! m)" using assms(1) by (fastforce simp: orderly_def)
    then show ?thesis using m by (intro bexI [of _ "p ! m"]) simp_all
  qed
  let ?wanted = "(\<lambda>c. hd (cn_todo c)) ` ?open"
  have "finite ?wanted" "?wanted \<noteq> {}" using assms(2) by auto
  then have "Max ?wanted \<in> ?wanted" and max: "\<And>l. l \<in> ?wanted \<Longrightarrow> l \<le> Max ?wanted" by simp_all
  then obtain c where c: "c \<in> ?open" and M: "Max ?wanted = hd (cn_todo c)" by auto
  from holder [OF c] obtain d where d: "d \<in> ?open" and held: "hd (cn_todo c) \<in> set (cn_held d)" by auto
  have "sorted_wrt (<) (cn_held d @ cn_todo d)" using assms(1) d by (simp add: orderly_def)
  moreover have "hd (cn_todo d) \<in> set (cn_todo d)" using wants [OF d] by simp
  ultimately have "hd (cn_todo c) < hd (cn_todo d)" using held by (auto simp: sorted_wrt_append)
  moreover have "hd (cn_todo d) \<le> hd (cn_todo c)" unfolding M [symmetric] using max d by auto
  ultimately show False by simp
qed

text \<open>
  What a kind of transaction promises: it takes its locks in ascending order. Then no
  schedule of such transactions is longer than their locks and ends, and none gets stuck.
\<close>

locale ordered_locking =
  fixes plan :: "'t \<Rightarrow> lock list"
  assumes ascending: "sorted_wrt (<) (plan t)"
begin

lemma schedule_orderly:
  "(lock_step ^^ k) (map (\<lambda>t. open_with (plan t)) ts) p \<Longrightarrow>
     orderly p \<and> k + work_left p \<le> sum_list (map (\<lambda>t. Suc (length (plan t))) ts)"
proof (induction k arbitrary: p)
  case 0
  then have "p = map (\<lambda>t. open_with (plan t)) ts" by simp
  then show ?case
    using ascending by (auto simp: orderly_def open_with_def work_left_def comp_def)
next
  case (Suc k)
  then obtain q where q: "(lock_step ^^ k) (map (\<lambda>t. open_with (plan t)) ts) q" "lock_step q p" by auto
  from Suc.IH [OF q(1)] lock_step_orderly [OF q(2)] lock_step_work [OF q(2)] show ?case by simp
qed

lemma never_stuck:
  assumes "(lock_step ^^ k) (map (\<lambda>t. open_with (plan t)) ts) p"
  shows "(\<forall>c \<in> set p. cn_done c) \<or> (\<exists>p'. forward p p')"
  using schedule_orderly [OF assms] orderly_progress by blast

lemma schedule_bounded:
  "(lock_step ^^ k) (map (\<lambda>t. open_with (plan t)) ts) p \<Longrightarrow>
     k \<le> sum_list (map (\<lambda>t. Suc (length (plan t))) ts)"
  using schedule_orderly by fastforce

end

section \<open>The transactions of the store\<close>

datatype store_tx =
    Transfer_Of transfer_params
  | Rotate_Of rotate_params
  | Mark_Read_Of string uuid
  | Mark_All_Of string

fun tx_plan :: "store_tx \<Rightarrow> lock list" where
  "tx_plan (Transfer_Of arg) = lock_sequence (par_from_account_id arg) (par_to_account_id arg)"
| "tx_plan (Rotate_Of arg) = [SessionRow (rot_id arg)]"
| "tx_plan (Mark_Read_Of ow i) = [NotificationOwner ow]"
| "tx_plan (Mark_All_Of ow) = [NotificationOwner ow]"

text \<open>The locks that the body of a transaction holds when it returns.\<close>

fun locks_after :: "pg_env \<Rightarrow> store_tx \<Rightarrow> pg \<Rightarrow> lock list" where
  "locks_after env (Transfer_Of arg) s = held (snd (transfer_body env arg s))"
| "locks_after env (Rotate_Of arg) s = held (snd (rotate_body env arg s))"
| "locks_after env (Mark_Read_Of ow i) s = held (snd (mark_read_body env ow i s))"
| "locks_after env (Mark_All_Of ow) s = held (snd (mark_all_body env ow s))"

interpretation store_locks: ordered_locking tx_plan
proof
  show "sorted_wrt (<) (tx_plan t)" for t
    by (cases t) (auto simp: lock_sequence_def min_def max_def)
qed

subsection \<open>The bodies take their locks as planned\<close>

abbreviation holding :: "lock list \<Rightarrow> pg \<Rightarrow> bool" where
  "holding ls s \<equiv> held s = ls"

lemma run_sql_holding: "keeps (holding ls) (run_sql env q)"
  by (auto simp: keeps_def run_sql_def split: option.splits sum.splits prod.splits)

lemma statements_hold:
  "keeps (holding ls) (GetTransferBySourceAndIdempotencyKey env f k)"
  "keeps (holding ls) (SumOutgoingTransfersSince env f)"
  "keeps (holding ls) (CreateTransfer env f t a k)"
  "keeps (holding ls) (CreateEntry env i a)"
  "keeps (holding ls) (AddAccountBalance env a i)"
  "keeps (holding ls) (CreateNotification env dir ti ai)"
  "keeps (holding ls) (CountUnreadNotifications env ow)"
  "keeps (holding ls) (MarkNotificationRead env i ow)"
  "keeps (holding ls) (MarkAllNotificationsRead env ow)"
  "keeps (holding ls) (RotateSession env h e i)"
  unfolding GetTransferBySourceAndIdempotencyKey_def SumOutgoingTransfersSince_def CreateTransfer_def
    CreateEntry_def AddAccountBalance_def CreateNotification_def CountUnreadNotifications_def
    MarkNotificationRead_def MarkAllNotificationsRead_def RotateSession_def
  by (rule run_sql_holding)+

lemma enqueue_holding: "keeps (holding ls) (enqueue_notify x)"
  by (auto simp: keeps_def enqueue_notify_def Let_def split: option.splits)

lemma PublishNotification_holds: "keeps (holding ls) (PublishNotification env i ow)"
  unfolding PublishNotification_def by (intro keeps_intros run_sql_holding enqueue_holding)

lemma transfer_tail_holds:
  "keeps (holding ls) (transfer_checks env arg a b)"
  "keeps (holding ls) (post_transfer env arg)"
  unfolding transfer_checks_def check_daily_limit_def post_transfer_def move_rows_def notify_side_def
  by (intro keeps_intros statements_hold PublishNotification_holds)+

lemma transfer_body_locks:
  assumes "held s = []"
  shows "prefix (held (snd (transfer_body env arg s))) (tx_plan (Transfer_Of arg))"
proof -
  let ?seq = "lock_sequence (par_from_account_id arg) (par_to_account_id arg)"
  obtain r s1 where lock: "lockAccounts env (par_from_account_id arg) (par_to_account_id arg) s = (r, s1)"
    by fastforce
  note order = lock_order [OF assms lock]
  show ?thesis
  proof (cases r)
    case (Inl err)
    then have "held (snd (transfer_body env arg s)) = held s1"
      using lock by (simp add: transfer_body_def andthen_def)
    then show ?thesis using order by (auto intro: take_is_prefix)
  next
    case (Inr p)
    obtain a b where p: "p = (a, b)" by fastforce
    have rest: "keeps (holding ?seq) (handle (GetTransferBySourceAndIdempotencyKey env (par_from_account_id arg)
               (par_idempotency_key arg))
       (\<lambda>lookupErr.
          if \<not> errors_is (ClassifyError lookupErr) ErrRecordNotFound
          then raise (ClassifyError lookupErr)
          else andthen (transfer_checks env arg a b) (\<lambda>_. post_transfer env arg))
       (\<lambda>existing. lift_res (transferReplay existing arg a b)))"
      by (intro keeps_intros statements_hold transfer_tail_holds)
    have "held s1 = ?seq" using order Inr by blast
    then have "held (snd (transfer_body env arg s)) = ?seq"
      using lock Inr p rest by (simp add: transfer_body_def andthen_def keeps_def)
    then show ?thesis by simp
  qed
qed

text \<open>A statement that takes one lock, or fails and takes none, and a body that only starts with it.\<close>

lemma first_lock:
  assumes "held s = []"
  shows "held (snd (GetSessionForUpdate env i s)) \<in> {[], [SessionRow i]}"
    "held (snd (map_error g (LockNotificationOwner env ow) s)) \<in> {[], [NotificationOwner ow]}"
  using assms
  by (auto simp: GetSessionForUpdate_def LockNotificationOwner_def map_error_def andthen_def hold_def ret_def
      run_sql_def split: option.splits sum.splits prod.splits)

lemma only_first:
  assumes "held (snd (m s)) \<in> {[], [l]}" "\<And>ls x. keeps (holding ls) (f x)" "\<And>ls e. keeps (holding ls) (h e)"
  shows "prefix (held (snd (handle m h f s))) [l]"
proof -
  obtain r s1 where "m s = (r, s1)" by fastforce
  then have "held (snd (handle m h f s)) = held s1" "held s1 \<in> {[], [l]}"
    using assms by (auto simp: handle_def keeps_def split: sum.splits)
  then show ?thesis by auto
qed

lemma andthen_handle: "andthen m f = handle m raise f"
  by (rule ext) (simp add: andthen_def handle_def raise_def split: prod.split sum.split)

lemma bodies_lock_as_planned:
  assumes "held s = []"
  shows "prefix (locks_after env t s) (tx_plan t)"
proof (cases t)
  case (Transfer_Of arg)
  then show ?thesis using transfer_body_locks [OF assms] by simp
next
  case (Rotate_Of arg)
  have "prefix (held (snd (rotate_body env arg s))) [SessionRow (rot_id arg)]"
    unfolding rotate_body_def
    by (rule only_first, rule first_lock(1) [OF assms]) (intro keeps_intros statements_hold)+
  then show ?thesis using Rotate_Of by simp
next
  case (Mark_Read_Of ow i)
  have "prefix (held (snd (mark_read_body env ow i s))) [NotificationOwner ow]"
    unfolding mark_read_body_def andthen_handle [of "map_error ClassifyError (LockNotificationOwner env ow)"]
    by (rule only_first, rule first_lock(2) [OF assms]) (intro keeps_intros statements_hold)+
  then show ?thesis using Mark_Read_Of by simp
next
  case (Mark_All_Of ow)
  have "prefix (held (snd (mark_all_body env ow s))) [NotificationOwner ow]"
    unfolding mark_all_body_def andthen_handle [of "map_error ClassifyError (LockNotificationOwner env ow)"]
    by (rule only_first, rule first_lock(2) [OF assms]) (intro keeps_intros statements_hold)+
  then show ?thesis using Mark_All_Of by simp
qed

text \<open>
  C17 (termination). Transactions do not wait for each other for ever. Let any transfers, renewals and
  notification marks run at the same time, taking the locks that their bodies take, in that order,
  with rollbacks at any point: after any number of steps, either all have ended or one can go on, and no
  schedule is longer than the locks and ends of its transactions.
\<close>

theorem transactions_finish:
  assumes "(lock_step ^^ k) (map (\<lambda>t. open_with (tx_plan t)) ts) p"
  shows "((\<forall>c \<in> set p. cn_done c) \<or> (\<exists>p'. forward p p')) \<and>
    k \<le> sum_list (map (\<lambda>t. Suc (length (tx_plan t))) ts) \<and>
    (\<forall>env t s. held s = [] \<longrightarrow> prefix (locks_after env t s) (tx_plan t))"
  using store_locks.never_stuck [OF assms] store_locks.schedule_bounded [OF assms] bodies_lock_as_planned
  by blast

section \<open>Witnesses\<close>

text \<open>Two transfers in opposite directions: the first has one lock when the second asks for it.\<close>

definition opposite :: "store_tx list" where
  "opposite = [Transfer_Of sample_arg,
     Transfer_Of (sample_arg\<lparr>par_from_account_id := 11, par_to_account_id := 10\<rparr>)]"

definition one_lock :: "connection list" where
  "one_lock = [\<lparr>cn_held = [AccountRow 10], cn_todo = [AccountRow 11], cn_done = False\<rparr>,
     \<lparr>cn_held = [], cn_todo = [AccountRow 10, AccountRow 11], cn_done = False\<rparr>]"

lemma opposite_step: "(lock_step ^^ 1) (map (\<lambda>t. open_with (tx_plan t)) opposite) one_lock"
proof -
  let ?p = "[open_with [AccountRow 10, AccountRow 11], open_with [AccountRow 10, AccountRow 11]]"
  have "map (\<lambda>t. open_with (tx_plan t)) opposite = ?p"
    by (simp add: opposite_def sample_arg_def lock_sequence_def)
  moreover have "forward ?p (?p[0 := (?p ! 0)\<lparr>cn_held := cn_held (?p ! 0) @ [AccountRow 10], cn_todo := [AccountRow 11]\<rparr>])"
    by (rule Acquire) (simp_all add: open_with_def free_for_def less_Suc_eq)
  ultimately show ?thesis by (auto simp: one_lock_def open_with_def intro: Forward)
qed

theorem transactions_finish_witness:
  "\<not> free_for 1 (AccountRow 10) one_lock \<and> (\<exists>p'. forward one_lock p')"
proof -
  have "\<not> (\<forall>c \<in> set one_lock. cn_done c)" by (simp add: one_lock_def)
  then have "\<exists>p'. forward one_lock p'" using transactions_finish [OF opposite_step] by blast
  then show ?thesis by (auto simp: free_for_def one_lock_def intro!: exI [of _ 0])
qed

end
