(* ===== verification/Transfer_Race.thy ===== *)
theory Transfer_Race
  imports Transfer_Props Transfer_Witnesses
begin

text \<open>
  Transfer requests that run at the same time. \<open>TransferTx\<close> makes up to five separate calls of the
  database: the lookup of the key, the transaction, after a lost race the lookup again, and the
  two reads of a replay. Between them anything can happen. A request is here the call it makes next;
  \<open>phase_step\<close> makes it, and \<open>TransferTx_phases\<close> shows that the calls, made in a row, are the method.
  In \<open>race_step\<close> the calls of many requests interleave, with each other and with whatever else the
  program does to the database. A transaction is one step here; \<open>Transfer_Interleaving\<close> takes it apart
  into its statements and shows that it may be taken as one.
\<close>

section \<open>The calls of a request\<close>

datatype phase =
    Lookup
  | Move
  | Resolve go_error
  | Replay_From transfer
  | Replay_To transfer account
  | Returned "go_error + transfer_result"

abbreviation lookup_key :: "pg_env \<Rightarrow> transfer_params \<Rightarrow> transfer pg_op" where
  "lookup_key env arg \<equiv>
     GetTransferBySourceAndIdempotencyKey env (par_from_account_id arg) (par_idempotency_key arg)"

fun phase_step :: "pg_env \<Rightarrow> transfer_params \<Rightarrow> phase \<Rightarrow> pg \<Rightarrow> phase \<times> pg" where
  "phase_step env arg Lookup s =
     (case lookup_key env arg s of
        (Inr existing, s1) \<Rightarrow> (Replay_From existing, s1)
      | (Inl err, s1) \<Rightarrow>
          (if \<not> errors_is (ClassifyError err) ErrRecordNotFound then Returned (Inl (ClassifyError err)) else Move, s1))"
| "phase_step env arg Move s =
     (case execTx env (transfer_body env arg) s of
        (Inr res, s1) \<Rightarrow> (Returned (Inr res), s1)
      | (Inl err, s1) \<Rightarrow>
          (if errors_is err ErrUniqueViolation then Resolve err else Returned (Inl err), s1))"
| "phase_step env arg (Resolve err) s =
     (case lookup_key env arg s of
        (Inr existing, s1) \<Rightarrow> (Replay_From existing, s1)
      | (Inl getErr, s1) \<Rightarrow> (Returned (Inl (ClassifyError getErr)), s1))"
| "phase_step env arg (Replay_From existing) s =
     (case map_error ClassifyError (GetAccount env (tr_from_account_id existing)) s of
        (Inr fromA, s1) \<Rightarrow> (Replay_To existing fromA, s1)
      | (Inl err, s1) \<Rightarrow> (Returned (Inl err), s1))"
| "phase_step env arg (Replay_To existing fromA) s =
     (case map_error ClassifyError (GetAccount env (tr_to_account_id existing)) s of
        (Inr toA, s1) \<Rightarrow> (Returned (transferReplay existing arg fromA toA), s1)
      | (Inl err, s1) \<Rightarrow> (Returned (Inl err), s1))"
| "phase_step env arg (Returned r) s = (Returned r, s)"

fun run_phases :: "pg_env \<Rightarrow> transfer_params \<Rightarrow> nat \<Rightarrow> phase \<Rightarrow> pg \<Rightarrow> phase \<times> pg" where
  "run_phases env arg 0 ph s = (ph, s)"
| "run_phases env arg (Suc k) ph s = (let (ph1, s1) = phase_step env arg ph s in run_phases env arg k ph1 s1)"

lemma returned_stays [simp]: "run_phases env arg k (Returned r) s = (Returned r, s)"
  by (induction k) simp_all

lemma replay_phases:
  "run_phases env arg (Suc (Suc k)) (Replay_From x) s =
     (let (r, s1) = replayTransfer env x arg s in (Returned r, s1))"
  by (simp add: replayTransfer_def andthen_def lift_res_def split: prod.split sum.split)

lemma TransferTx_phases:
  "run_phases env arg 5 Lookup s = (let (r, s1) = TransferTx env arg s in (Returned r, s1))"
proof -
  have 5: "5 = Suc (Suc (Suc (Suc (Suc 0))))" by simp
  obtain r s1 where look: "lookup_key env arg s = (r, s1)" by fastforce
  show ?thesis
  proof (cases r)
    case (Inr x)
    have "run_phases env arg 5 Lookup s = run_phases env arg (Suc (Suc 2)) (Replay_From x) s1"
      unfolding 5 using look Inr by (simp add: numeral_2_eq_2)
    also have "\<dots> = (let (r, s1) = replayTransfer env x arg s1 in (Returned r, s1))" by (rule replay_phases)
    finally show ?thesis using look Inr by (simp add: TransferTx_def handle_def)
  next
    case (Inl err)
    show ?thesis
    proof (cases "errors_is (ClassifyError err) ErrRecordNotFound")
      case False
      then show ?thesis unfolding 5 using look Inl by (simp add: TransferTx_def handle_def raise_def)
    next
      case True
      obtain r2 s2 where move: "execTx env (transfer_body env arg) s1 = (r2, s2)" by fastforce
      have go: "run_phases env arg 5 Lookup s = run_phases env arg 4 Move s1"
        unfolding 5 using look Inl True by (simp add: eval_nat_numeral)
      have tx: "TransferTx env arg s = transfer_move env arg s1"
        using look Inl True by (simp add: TransferTx_def handle_def)
      show ?thesis
      proof (cases r2)
        case (Inr res)
        then show ?thesis
          unfolding go tx using move by (simp add: eval_nat_numeral transfer_move_def handle_def ret_def)
      next
        case (Inl e)
        show ?thesis
        proof (cases "errors_is e ErrUniqueViolation")
          case False
          then show ?thesis
            unfolding go tx using move Inl
            by (simp add: eval_nat_numeral transfer_move_def handle_def transfer_resolve_def raise_def)
        next
          case True
          obtain r3 s3 where look2: "lookup_key env arg s2 = (r3, s3)" by fastforce
          have go2: "run_phases env arg 4 Move s1 = run_phases env arg 3 (Resolve e) s2"
            using move Inl True by (simp add: eval_nat_numeral)
          have "run_phases env arg 3 (Resolve e) s2 =
              (let (r, s1) = transfer_resolve env arg e s2 in (Returned r, s1))"
          proof (cases r3)
            case (Inr x)
            have "run_phases env arg 3 (Resolve e) s2 = run_phases env arg (Suc (Suc 0)) (Replay_From x) s3"
              using look2 Inr by (simp add: numeral_3_eq_3)
            also have "\<dots> = (let (r, s1) = replayTransfer env x arg s3 in (Returned r, s1))"
              by (rule replay_phases)
            finally show ?thesis using look2 Inr True by (simp add: transfer_resolve_def handle_def)
          next
            case (Inl getErr)
            then show ?thesis
              using look2 True by (simp add: numeral_3_eq_3 transfer_resolve_def handle_def raise_def)
          qed
          then show ?thesis
            unfolding go tx go2 using move Inl by (simp add: transfer_move_def handle_def)
        qed
      qed
    qed
  qed
qed

section \<open>Requests that race\<close>

type_synonym race = "(transfer_params \<times> phase) list \<times> pg"

text \<open>
  A call of one of the requests; or something else happens in the database, which leaves the
  transfers alone and the books in order: an account is opened, a notification read, time passes.
\<close>

inductive race_step :: "pg_env \<Rightarrow> race \<Rightarrow> race \<Rightarrow> bool" for env where
  Turn: "n < length rs \<Longrightarrow> rs ! n = (arg, ph) \<Longrightarrow> phase_step env arg ph s = (ph', s') \<Longrightarrow>
    race_step env (rs, s) (rs[n := (arg, ph')], s')"
| Elsewhere: "transfers (tables s') = transfers (tables s) \<Longrightarrow> books_ok (tables s') \<Longrightarrow>
    race_step env (rs, s) (rs, s')"

definition transfer_key :: "transfer \<Rightarrow> uuid \<times> uuid" where
  "transfer_key t = (tr_from_account_id t, tr_idempotency_key t)"

text \<open>The row is what the request asked for.\<close>

definition pays :: "transfer_params \<Rightarrow> transfer \<Rightarrow> bool" where
  "pays arg t \<longleftrightarrow> tr_from_account_id t = par_from_account_id arg \<and>
     tr_to_account_id t = par_to_account_id arg \<and> tr_amount t = par_amount arg \<and>
     tr_idempotency_key t = par_idempotency_key arg"

text \<open>What a request knows between two calls stays true, since transfers are never removed.\<close>

definition phase_knows :: "transfer list \<Rightarrow> transfer_params \<times> phase \<Rightarrow> bool" where
  "phase_knows ts q \<longleftrightarrow>
     (case snd q of
        Replay_From x \<Rightarrow> x \<in> set ts \<and> transfer_key x = (par_from_account_id (fst q), par_idempotency_key (fst q))
      | Replay_To x _ \<Rightarrow> x \<in> set ts \<and> transfer_key x = (par_from_account_id (fst q), par_idempotency_key (fst q))
      | Returned (Inr res) \<Rightarrow> res_transfer res \<in> set ts \<and> pays (fst q) (res_transfer res)
      | _ \<Rightarrow> True)"

lemma phase_knows_mono: "phase_knows ts q \<Longrightarrow> set ts \<subseteq> set ts' \<Longrightarrow> phase_knows ts' q"
  by (auto simp: phase_knows_def split: phase.splits sum.splits)

lemma lookup_key_eq:
  assumes "lookup_key env arg s = (r, s')"
  shows "tables s' = tables s"
    "r = Inr x \<Longrightarrow> x \<in> set (transfers (tables s)) \<and>
       transfer_key x = (par_from_account_id arg, par_idempotency_key arg)"
  using assms keeps_tables [OF reads_keep(2) assms]
  by (auto simp: GetTransferBySourceAndIdempotencyKey_def transfer_key_def
      dest!: run_query_row_Inr find_transfer_by_key_Some)

lemma GetAccount_same: "GetAccount env i s = (r, s') \<Longrightarrow> tables s' = tables s"
  by (auto simp: GetAccount_def run_sql_def query_row_def split: option.splits sum.splits prod.splits)

lemma transferReplay_pays:
  assumes "transferReplay x arg a b = Inr res"
    and "transfer_key x = (par_from_account_id arg, par_idempotency_key arg)"
  shows "res_transfer res = x \<and> pays arg x"
  using assms by (auto simp: transferReplay_def pays_def transfer_key_def split: if_splits)

text \<open>The transaction: nothing happens to the transfers, or the one asked for is appended.\<close>

lemma move_outcome:
  assumes run: "execTx env (transfer_body env arg) s = (r, s')" and ok: "schema_ok (tables s)"
  shows "(transfers (tables s') = transfers (tables s) \<or>
      (\<exists>t. transfers (tables s') = transfers (tables s) @ [t] \<and> pays arg t)) \<and>
    (\<forall>res. r = Inr res \<longrightarrow> res_transfer res \<in> set (transfers (tables s')) \<and> pays arg (res_transfer res))"
proof -
  have settled: "(transfers (tables s') = transfers (tables s) \<or>
      (\<exists>t. transfers (tables s') = transfers (tables s) @ [t] \<and> pays arg t)) \<and>
      res_transfer res \<in> set (transfers (tables s')) \<and> pays arg (res_transfer res)"
    if body: "transfer_body env arg (begin_tx env s) = (Inr res, s1)" and s': "s' = commit (step_tick s1)"
    for res s1
    using transfer_commit [OF body ok]
  proof
    assume "tables (commit (step_tick s1)) = tables s \<and> replayed arg (tables s) res"
    then show ?thesis
      unfolding s' by (auto simp: replayed_def pays_def dest: find_transfer_by_key_Some)
  next
    assume "\<exists>n>tick s. n < tick (commit (step_tick s1)) \<and>
       committed arg (time_at env (tick s)) (tables s) res (tables (commit (step_tick s1))) \<and>
       checks_passed arg (time_at env n) (tables s)"
    then have "committed arg (time_at env (tick s)) (tables s) res (tables s')" unfolding s' by blast
    note c = committed_rows [OF this]
    have "pays arg (res_transfer res)" by (simp add: pays_def c)
    then show ?thesis using c(4) by auto
  qed
  show ?thesis
  proof (cases r)
    case (Inr res)
    from run [unfolded Inr] show ?thesis by (rule execTx_InrE) (use settled Inr in auto)
  next
    case (Inl e)
    from run [unfolded Inl] show ?thesis by (cases rule: execTx_InlE) (use settled Inl in auto)
  qed
qed

section \<open>What stays true in a race\<close>

definition race_ok :: "transfer_params list \<Rightarrow> transfer list \<Rightarrow> race \<Rightarrow> bool" where
  "race_ok args ts0 q \<longleftrightarrow>
     map fst (fst q) = args \<and> books_ok (tables (snd q)) \<and>
     (\<exists>new. transfers (tables (snd q)) = ts0 @ new \<and> (\<forall>t \<in> set new. \<exists>arg \<in> set args. pays arg t)) \<and>
     (\<forall>p \<in> set (fst q). phase_knows (transfers (tables (snd q))) p)"

text \<open>One call: what it does to the transfers, the books, and what the request knows after it.\<close>

lemma phase_step_effect:
  assumes step: "phase_step env arg ph s = (ph', s')" and ok: "books_ok (tables s)"
    and knows: "phase_knows (transfers (tables s)) (arg, ph)"
  shows "books_ok (tables s') \<and>
    (transfers (tables s') = transfers (tables s) \<or>
      (\<exists>t. transfers (tables s') = transfers (tables s) @ [t] \<and> pays arg t)) \<and>
    phase_knows (transfers (tables s')) (arg, ph')"
proof (cases ph)
  case Lookup
  obtain r s1 where look: "lookup_key env arg s = (r, s1)" by fastforce
  then show ?thesis
    using step Lookup ok lookup_key_eq [OF look]
    by (cases r) (auto simp: phase_knows_def split: if_splits)
next
  case Move
  obtain r s1 where run: "execTx env (transfer_body env arg) s = (r, s1)" by fastforce
  have "schema_ok (tables s)" using ok by (simp add: books_ok_def)
  note out = move_outcome [OF run this]
  have "books_ok (tables s1)"
    using keepsD [OF transfer_books.execTx_keeps _ run] ok by (simp add: on_tables_def)
  then show ?thesis
    using step Move run out by (cases r) (auto simp: phase_knows_def split: if_splits)
next
  case (Resolve err)
  obtain r s1 where look: "lookup_key env arg s = (r, s1)" by fastforce
  then show ?thesis
    using step Resolve ok lookup_key_eq [OF look] by (cases r) (auto simp: phase_knows_def)
next
  case (Replay_From x)
  obtain r s1 where get: "GetAccount env (tr_from_account_id x) s = (r, s1)" by fastforce
  then show ?thesis
    using step Replay_From ok knows GetAccount_same [OF get]
    by (cases r) (auto simp: phase_knows_def map_error_def)
next
  case (Replay_To x a)
  obtain r s1 where get: "GetAccount env (tr_to_account_id x) s = (r, s1)" by fastforce
  note same = GetAccount_same [OF get]
  show ?thesis
  proof (cases r)
    case (Inl e)
    then have "ph' = Returned (Inl (ClassifyError e))" "s' = s1"
      using step Replay_To get by (simp_all add: map_error_def)
    then show ?thesis using ok same by (simp add: phase_knows_def)
  next
    case (Inr b)
    then have ph': "ph' = Returned (transferReplay x arg a b)" and "s' = s1"
      using step Replay_To get by (simp_all add: map_error_def)
    have x: "x \<in> set (transfers (tables s))" "transfer_key x = (par_from_account_id arg, par_idempotency_key arg)"
      using knows Replay_To by (simp_all add: phase_knows_def)
    have "phase_knows (transfers (tables s)) (arg, ph')"
      unfolding ph'
      by (cases "transferReplay x arg a b") (use transferReplay_pays x in \<open>auto simp: phase_knows_def\<close>)
    then show ?thesis using ok same \<open>s' = s1\<close> by simp
  qed
next
  case (Returned r)
  then show ?thesis using step ok knows by simp
qed

lemma race_step_ok:
  assumes "race_step env q q'" and "race_ok args ts0 q"
  shows "race_ok args ts0 q'"
  using assms
proof (induction rule: race_step.induct)
  case (Turn n rs arg ph s ph' s')
  have mem: "(arg, ph) \<in> set rs" using Turn.hyps(1,2) by (metis nth_mem)
  have ok: "books_ok (tables s)" "phase_knows (transfers (tables s)) (arg, ph)"
    and args: "map fst rs = args" and know: "\<forall>p \<in> set rs. phase_knows (transfers (tables s)) p"
    using Turn.prems mem by (auto simp: race_ok_def)
  from Turn.prems obtain new where new: "transfers (tables s) = ts0 @ new"
    "\<forall>t \<in> set new. \<exists>arg \<in> set args. pays arg t" by (auto simp: race_ok_def)
  note eff = phase_step_effect [OF Turn.hyps(3) ok]
  then have sub: "set (transfers (tables s)) \<subseteq> set (transfers (tables s'))" by auto
  have "arg \<in> set args" using mem args by force
  then have "\<exists>new. transfers (tables s') = ts0 @ new \<and> (\<forall>t \<in> set new. \<exists>arg \<in> set args. pays arg t)"
    using eff new by auto
  moreover have "map fst (rs[n := (arg, ph')]) = args"
    using args Turn.hyps(1,2) by (metis fst_conv list_update_id map_update)
  moreover have "\<forall>p \<in> set (rs[n := (arg, ph')]). phase_knows (transfers (tables s')) p"
    using know eff phase_knows_mono [OF _ sub] by (auto dest!: set_update_subset_insert [THEN subsetD])
  ultimately show ?case using eff by (simp add: race_ok_def)
next
  case (Elsewhere s' s rs)
  then show ?case by (simp add: race_ok_def)
qed

lemma filter_key_single:
  assumes "distinct (map f xs)" "x \<in> set xs"
  shows "[y \<leftarrow> xs. f y = f x] = [x]"
  using assms
proof (induction xs)
  case (Cons y ys)
  then have y: "f y \<notin> f ` set ys" by simp
  show ?case
  proof (cases "y = x")
    case True
    then have "\<forall>z \<in> set ys. f z \<noteq> f x" using y by (metis imageI)
    then show ?thesis using True by (simp add: filter_empty_conv)
  next
    case False
    then have "x \<in> set ys" using Cons.prems by simp
    then show ?thesis using y Cons.prems Cons.IH by force
  qed
qed simp

definition race_start :: "transfer_params list \<Rightarrow> pg \<Rightarrow> race" where
  "race_start args s = (map (\<lambda>arg. (arg, Lookup)) args, s)"

lemma race_reachable_ok:
  assumes "(race_step env)\<^sup>*\<^sup>* (race_start args s) q" "books_ok (tables s)"
  shows "race_ok args (transfers (tables s)) q"
  using assms(1)
proof (induction rule: rtranclp_induct)
  case base
  then show ?case using assms(2) by (auto simp: race_ok_def race_start_def phase_knows_def comp_def)
next
  case (step q q')
  then show ?case using race_step_ok by blast
qed

lemma race_ok_pays_once:
  assumes ok: "race_ok args ts0 (rs, s')"
  shows "books_ok (tables s') \<and> distinct (map transfer_key (transfers (tables s'))) \<and>
    (\<exists>new. transfers (tables s') = ts0 @ new \<and> (\<forall>t \<in> set new. \<exists>arg \<in> set args. pays arg t)) \<and>
    (\<forall>arg res. (arg, Returned (Inr res)) \<in> set rs \<longrightarrow>
       [t \<leftarrow> transfers (tables s'). transfer_key t = (par_from_account_id arg, par_idempotency_key arg)] =
         [res_transfer res] \<and> pays arg (res_transfer res))"
proof -
  from ok have dist: "distinct (map transfer_key (transfers (tables s')))"
    by (auto simp: race_ok_def books_ok_def schema_ok_def transfers_ok_def transfer_key_def [abs_def])
  have "[t \<leftarrow> transfers (tables s'). transfer_key t = (par_from_account_id arg, par_idempotency_key arg)] =
        [res_transfer res] \<and> pays arg (res_transfer res)"
    if "(arg, Returned (Inr res)) \<in> set rs" for arg res
  proof -
    from ok that have "phase_knows (transfers (tables s')) (arg, Returned (Inr res))"
      by (auto simp: race_ok_def)
    then have t: "res_transfer res \<in> set (transfers (tables s'))" "pays arg (res_transfer res)"
      by (simp_all add: phase_knows_def)
    then have "transfer_key (res_transfer res) = (par_from_account_id arg, par_idempotency_key arg)"
      by (simp add: pays_def transfer_key_def)
    then show ?thesis using t filter_key_single [OF dist t(1)] by (simp only: simp_thms)
  qed
  then show ?thesis using ok dist by (auto simp: race_ok_def)
qed

text \<open>
  Racing requests pay once. Let any requests run at the same time, repeated or not, their
  calls interleaved in any order with each other and with everything else in the bank, through any
  failures: the books stay in order; every new transfer is what one of the requests
  asked for, and no two transfers have the same source and key; and whoever was told of a
  success finds exactly the transfer they asked for in the table, the same one for all requests with
  that source and key.
\<close>

theorem racing_requests_pay_once:
  assumes "(race_step env)\<^sup>*\<^sup>* (race_start args s) (rs, s')" and "books_ok (tables s)"
  shows "books_ok (tables s') \<and> distinct (map transfer_key (transfers (tables s'))) \<and>
    (\<exists>new. transfers (tables s') = transfers (tables s) @ new \<and> (\<forall>t \<in> set new. \<exists>arg \<in> set args. pays arg t)) \<and>
    (\<forall>arg res. (arg, Returned (Inr res)) \<in> set rs \<longrightarrow>
       [t \<leftarrow> transfers (tables s'). transfer_key t = (par_from_account_id arg, par_idempotency_key arg)] =
         [res_transfer res] \<and> pays arg (res_transfer res))"
  by (rule race_ok_pays_once [OF race_reachable_ok [OF assms]])

section \<open>Witnesses\<close>

text \<open>A schedule: whose turn it is.\<close>

fun race_run :: "pg_env \<Rightarrow> nat list \<Rightarrow> race \<Rightarrow> race" where
  "race_run env [] q = q"
| "race_run env (n # ns) (rs, s) =
     (let (arg, ph) = rs ! n; (ph', s') = phase_step env arg ph s in race_run env ns (rs[n := (arg, ph')], s'))"

lemma race_run_reach:
  assumes "\<forall>n \<in> set ns. n < length (fst q)"
  shows "(race_step env)\<^sup>*\<^sup>* q (race_run env ns q)"
  using assms
proof (induction ns arbitrary: q)
  case (Cons n ns)
  obtain rs s arg ph ph' s' where q: "q = (rs, s)" "rs ! n = (arg, ph)" "phase_step env arg ph s = (ph', s')"
    by (metis surj_pair)
  then have "race_step env q (rs[n := (arg, ph')], s')" using Cons.prems by (auto intro: Turn)
  moreover have "(race_step env)\<^sup>*\<^sup>* (rs[n := (arg, ph')], s') (race_run env ns (rs[n := (arg, ph')], s'))"
    using Cons q by simp
  ultimately show ?case using q by simp
qed simp

text \<open>Two copies of one request: both find the key unused, then both try to move the money.\<close>

abbreviation twice :: race where
  "twice \<equiv> race_run sample_env [0, 1, 0, 1] (race_start [sample_arg, sample_arg] start)"

theorem racing_requests_pay_once_witness:
  "map tr_amount (transfers (tables (snd twice))) = [30] \<and>
   list_all (\<lambda>q. case snd q of Returned (Inr res) \<Rightarrow> pays sample_arg (res_transfer res) | _ \<Rightarrow> False) (fst twice)"
proof -
  have reach: "(race_step sample_env)\<^sup>*\<^sup>* (race_start [sample_arg, sample_arg] start) (fst twice, snd twice)"
    using race_run_reach [of "[0, 1, 0, 1]" "race_start [sample_arg, sample_arg] start" sample_env]
    by (simp add: race_start_def)
  have books: "books_ok (tables start)" by code_simp
  have returned: "list_all (\<lambda>q. fst q = sample_arg \<and> (case snd q of Returned (Inr res) \<Rightarrow> True | _ \<Rightarrow> False)) (fst twice)"
    and "map tr_amount (transfers (tables (snd twice))) = [30]" by code_simp+
  moreover have "pays sample_arg (res_transfer res)" if "(sample_arg, Returned (Inr res)) \<in> set (fst twice)" for res
    using racing_requests_pay_once [OF reach books] that by blast
  ultimately show ?thesis
    by (fastforce simp: list_all_iff split: phase.splits sum.splits)
qed

end
