(* ===== verification/Tx_Program.thy ===== *)
theory Tx_Program
  imports Transfer_Tx
begin

text \<open>
  The transaction of \<open>internal/db/transfer_tx.go\<close> as a program that can be stopped between two
  statements: what it has left to do is a value of type \<open>prog\<close>, the next statement and what
  follows each answer. \<open>transfer_prog\<close> is the closure that \<open>TransferTx\<close> passes to \<open>execTx\<close>,
  statement for statement; \<open>run_transfer_prog\<close> shows that run in a row it is \<open>transfer_body\<close>.
  \<open>disciplined\<close> says that a program touches only what it has locked before.
\<close>

section \<open>Statements and their answers\<close>

datatype stmt =
    Get_Account_For_Update uuid
  | Get_Transfer_By_Key uuid uuid
  | Sum_Outgoing uuid
  | Create_Transfer uuid uuid int uuid
  | Create_Entry uuid int
  | Add_Balance int uuid
  | Create_Notification string uuid uuid
  | Publish_Notification uuid string

datatype answer =
    An_Account (the_account: account)
  | A_Transfer (the_transfer: transfer)
  | A_Sum (the_sum: int)
  | An_Entry (the_entry: entry)
  | A_Notification (the_notification: notification)
  | No_Answer

definition map_answer :: "('a \<Rightarrow> 'b) \<Rightarrow> 'a pg_op \<Rightarrow> 'b pg_op" where
  "map_answer f m s = (case m s of (Inl e, s') \<Rightarrow> (Inl e, s') | (Inr x, s') \<Rightarrow> (Inr (f x), s'))"

fun exec_stmt :: "pg_env \<Rightarrow> stmt \<Rightarrow> answer pg_op" where
  "exec_stmt env (Get_Account_For_Update i) = map_answer An_Account (GetAccountForUpdate env i)"
| "exec_stmt env (Get_Transfer_By_Key i k) = map_answer A_Transfer (GetTransferBySourceAndIdempotencyKey env i k)"
| "exec_stmt env (Sum_Outgoing i) = map_answer A_Sum (SumOutgoingTransfersSince env i)"
| "exec_stmt env (Create_Transfer f t amt k) = map_answer A_Transfer (CreateTransfer env f t amt k)"
| "exec_stmt env (Create_Entry i amt) = map_answer An_Entry (CreateEntry env i amt)"
| "exec_stmt env (Add_Balance amt i) = map_answer An_Account (AddAccountBalance env amt i)"
| "exec_stmt env (Create_Notification dir t i) = map_answer A_Notification (CreateNotification env dir t i)"
| "exec_stmt env (Publish_Notification n ow) = map_answer (\<lambda>_. No_Answer) (PublishNotification env n ow)"

section \<open>Programs\<close>

datatype 'a prog =
    Stop "go_error + 'a"
  | Call stmt "go_error + answer \<Rightarrow> 'a prog"

primrec run_prog :: "pg_env \<Rightarrow> 'a prog \<Rightarrow> 'a pg_op" where
  "run_prog env (Stop r) = lift_res r"
| "run_prog env (Call st k) = (\<lambda>s. case exec_stmt env st s of (r, s') \<Rightarrow> run_prog env (k r) s')"

text \<open>\<open>x, err := q.St(...); if err != nil { return g(err) }\<close>\<close>

definition ask :: "(go_error \<Rightarrow> go_error) \<Rightarrow> stmt \<Rightarrow> (answer \<Rightarrow> 'a prog) \<Rightarrow> 'a prog" where
  "ask g st f = Call st (\<lambda>r. case r of Inl e \<Rightarrow> Stop (Inl (g e)) | Inr a \<Rightarrow> f a)"

definition lock_prog :: "uuid \<Rightarrow> uuid \<Rightarrow> (account \<Rightarrow> account \<Rightarrow> 'a prog) \<Rightarrow> 'a prog" where
  "lock_prog fromID toID f =
     (if uuid_string fromID < uuid_string toID then
        ask ClassifyError (Get_Account_For_Update fromID) (\<lambda>a.
        ask ClassifyError (Get_Account_For_Update toID) (\<lambda>b. f (the_account a) (the_account b)))
      else
        ask ClassifyError (Get_Account_For_Update toID) (\<lambda>b.
        ask ClassifyError (Get_Account_For_Update fromID) (\<lambda>a. f (the_account a) (the_account b))))"

definition notify_prog :: "string \<Rightarrow> uuid \<Rightarrow> uuid \<Rightarrow> 'a prog \<Rightarrow> 'a prog" where
  "notify_prog dir transferID accountID p =
     ask ClassifyError (Create_Notification dir transferID accountID) (\<lambda>n.
     ask ClassifyError (Publish_Notification (ntf_id (the_notification n)) (ntf_owner (the_notification n)))
       (\<lambda>_. p))"

definition post_prog :: "transfer_params \<Rightarrow> transfer_result prog" where
  "post_prog arg =
     ask ClassifyError (Create_Transfer (par_from_account_id arg) (par_to_account_id arg) (par_amount arg)
       (par_idempotency_key arg)) (\<lambda>t.
     ask ClassifyError (Create_Entry (par_from_account_id arg) (wrap64 (- par_amount arg))) (\<lambda>fromE.
     ask ClassifyError (Create_Entry (par_to_account_id arg) (par_amount arg)) (\<lambda>toE.
     ask mapBalanceError (Add_Balance (wrap64 (- par_amount arg)) (par_from_account_id arg)) (\<lambda>fromA.
     ask mapBalanceError (Add_Balance (par_amount arg) (par_to_account_id arg)) (\<lambda>toA.
     notify_prog ''sent'' (tr_id (the_transfer t)) (acc_id (the_account fromA))
    (notify_prog ''received'' (tr_id (the_transfer t)) (acc_id (the_account toA))
    (Stop (Inr \<lparr>res_transfer = the_transfer t, res_from_account = the_account fromA,
        res_to_account = the_account toA, res_from_entry = the_entry fromE, res_to_entry = the_entry toE\<rparr>))))))))"

definition limit_prog :: "transfer_params \<Rightarrow> transfer_result prog \<Rightarrow> transfer_result prog" where
  "limit_prog arg p =
     (if par_daily_limit arg > 0 then
        ask ClassifyError (Sum_Outgoing (par_from_account_id arg)) (\<lambda>spent.
          if par_amount arg > par_daily_limit arg \<or>
             the_sum spent > wrap64 (par_daily_limit arg - par_amount arg)
          then Stop (Inl ErrDailyLimitExceeded) else p)
      else p)"

definition new_transfer_prog :: "transfer_params \<Rightarrow> account \<Rightarrow> account \<Rightarrow> transfer_result prog" where
  "new_transfer_prog arg fromA toA =
     (if acc_currency fromA \<noteq> par_currency arg \<or> acc_currency toA \<noteq> par_currency arg
        then Stop (Inl ErrCurrencyMismatch)
      else if par_amount arg > MaxSafeMinorUnits \<or>
              acc_balance toA > wrap64 (MaxSafeMinorUnits - par_amount arg)
        then Stop (Inl ErrBalanceLimitExceeded)
      else limit_prog arg (post_prog arg))"

definition transfer_prog :: "transfer_params \<Rightarrow> transfer_result prog" where
  "transfer_prog arg =
     lock_prog (par_from_account_id arg) (par_to_account_id arg) (\<lambda>fromA toA.
     Call (Get_Transfer_By_Key (par_from_account_id arg) (par_idempotency_key arg)) (\<lambda>r.
       case r of
         Inr existing \<Rightarrow> Stop (transferReplay (the_transfer existing) arg fromA toA)
       | Inl lookupErr \<Rightarrow>
           if \<not> errors_is (ClassifyError lookupErr) ErrRecordNotFound
           then Stop (Inl (ClassifyError lookupErr))
           else new_transfer_prog arg fromA toA))"

subsection \<open>Run in a row, it is the transaction's body\<close>

named_theorems run_simps \<open>running a program\<close>

lemma run_Stop [run_simps]: "run_prog env (Stop r) = lift_res r" "lift_res (Inl e) = raise e" "lift_res (Inr x) = ret x"
  by (simp_all add: fun_eq_iff lift_res_def raise_def ret_def)

lemma run_Call:
  "run_prog env (Call st k) = handle (exec_stmt env st) (\<lambda>e. run_prog env (k (Inl e))) (\<lambda>x. run_prog env (k (Inr x)))"
  by (auto simp: fun_eq_iff handle_def split: prod.split sum.split)

lemma handle_map_answer [run_simps]: "handle (map_answer f m) h k = handle m h (\<lambda>x. k (f x))"
  by (simp add: fun_eq_iff handle_def map_answer_def split: prod.split sum.split)

lemma andthen_map_answer [run_simps]:
  "andthen (map_error g (map_answer f m)) k = andthen (map_error g m) (\<lambda>x. k (f x))"
  by (simp add: fun_eq_iff andthen_def map_error_def map_answer_def split: prod.split sum.split)

lemma run_ask [run_simps]:
  "run_prog env (ask g st f) = andthen (map_error g (exec_stmt env st)) (\<lambda>x. run_prog env (f x))"
  unfolding ask_def run_Call
  by (simp add: fun_eq_iff handle_def andthen_def map_error_def lift_res_def split: prod.split sum.split)

lemma run_if [run_simps]: "run_prog env (if b then p else q) = (if b then run_prog env p else run_prog env q)"
  by simp

lemma andthen_assoc [run_simps]: "andthen (andthen m f) g = andthen m (\<lambda>x. andthen (f x) g)"
  by (simp add: fun_eq_iff andthen_def split: prod.split sum.split)

lemma andthen_ret [run_simps]: "andthen (ret x) f = f x" "andthen (raise e) f = raise e"
  by (simp_all add: fun_eq_iff andthen_def ret_def raise_def)

lemma andthen_if [run_simps]: "andthen (if b then m else n) f = (if b then andthen m f else andthen n f)"
  by simp

lemma run_notify [run_simps]:
  "run_prog env (notify_prog dir t i p) = andthen (notify_side env dir t i) (\<lambda>_. run_prog env p)"
  by (simp add: notify_prog_def notify_side_def run_simps)

lemma run_lock [run_simps]:
  "run_prog env (lock_prog i j f) = andthen (lockAccounts env i j) (\<lambda>(a, b). run_prog env (f a b))"
  by (simp add: lock_prog_def lockAccounts_def run_simps)

lemma run_post [run_simps]: "run_prog env (post_prog arg) = post_transfer env arg"
  by (simp add: post_prog_def post_transfer_def move_rows_def run_simps)

lemma run_limit [run_simps]:
  "run_prog env (limit_prog arg p) = andthen (check_daily_limit env arg) (\<lambda>_. run_prog env p)"
  by (simp add: limit_prog_def check_daily_limit_def run_simps cong: if_cong)

lemma run_new_transfer [run_simps]:
  "run_prog env (new_transfer_prog arg a b) = andthen (transfer_checks env arg a b) (\<lambda>_. post_transfer env arg)"
  by (simp add: new_transfer_prog_def transfer_checks_def run_simps cong: if_cong)

lemma run_transfer_prog: "run_prog env (transfer_prog arg) = transfer_body env arg"
  unfolding transfer_prog_def transfer_body_def run_lock
  by (rule arg_cong [of _ _ "andthen _"], rule ext)
    (simp add: run_Call run_simps del: run_prog.simps(2) split: prod.split cong: if_cong)

section \<open>Touching only what is locked\<close>

text \<open>
  The account whose row lock a statement waits for; the accounts that must be locked before it,
  since it reads or writes what the lock protects: the row with its balance, and the outgoing
  transfers; and what is known of an answer.
\<close>

fun waits_for :: "stmt \<Rightarrow> uuid option" where
  "waits_for (Get_Account_For_Update i) = Some i"
| "waits_for (Add_Balance amt i) = Some i"
| "waits_for _ = None"

fun needs :: "stmt \<Rightarrow> uuid set" where
  "needs (Get_Transfer_By_Key i k) = {i}"
| "needs (Sum_Outgoing i) = {i}"
| "needs (Create_Transfer f t amt k) = {f}"
| "needs (Add_Balance amt i) = {i}"
| "needs (Create_Notification dir t i) = {i}"
| "needs _ = {}"

fun locks_row :: "stmt \<Rightarrow> uuid set" where
  "locks_row (Get_Account_For_Update i) = {i}"
| "locks_row _ = {}"

fun answers :: "stmt \<Rightarrow> answer \<Rightarrow> bool" where
  "answers (Get_Account_For_Update i) (An_Account a) = (acc_id a = i)"
| "answers (Get_Account_For_Update i) _ = False"
| "answers (Add_Balance amt i) (An_Account a) = (acc_id a = i)"
| "answers (Add_Balance amt i) _ = False"
| "answers _ _ = True"

text \<open>After an error the program ends, but for the lookup of the key, where it may go on.\<close>

fun key_lookup :: "stmt \<Rightarrow> bool" where
  "key_lookup (Get_Transfer_By_Key i k) = True"
| "key_lookup _ = False"

fun failed :: "'a prog \<Rightarrow> bool" where
  "failed (Stop (Inl e)) = True"
| "failed _ = False"

primrec disciplined :: "uuid set \<Rightarrow> 'a prog \<Rightarrow> bool" where
  "disciplined A (Stop r) = True"
| "disciplined A (Call st k) =
     (needs st \<subseteq> A \<and> (\<forall>e. failed (k (Inl e)) \<or> (key_lookup st \<and> disciplined A (k (Inl e)))) \<and>
      (\<forall>a. answers st a \<longrightarrow> disciplined (A \<union> locks_row st) (k (Inr a))))"

lemma disciplined_ask:
  "disciplined A (ask g st f) \<longleftrightarrow> needs st \<subseteq> A \<and> (\<forall>a. answers st a \<longrightarrow> disciplined (A \<union> locks_row st) (f a))"
  by (simp add: ask_def)

lemma answers_account:
  "answers (Get_Account_For_Update i) a \<longleftrightarrow> (\<exists>x. a = An_Account x \<and> acc_id x = i)"
  "answers (Add_Balance amt i) a \<longleftrightarrow> (\<exists>x. a = An_Account x \<and> acc_id x = i)"
  by (cases a; simp)+

lemma disciplined_notify:
  "disciplined A p \<Longrightarrow> i \<in> A \<Longrightarrow> disciplined A (notify_prog dir t i p)"
  by (simp add: notify_prog_def disciplined_ask)

lemma disciplined_post:
  assumes "par_from_account_id arg \<in> A" "par_to_account_id arg \<in> A"
  shows "disciplined A (post_prog arg)"
  using assms by (auto simp: post_prog_def disciplined_ask answers_account intro!: disciplined_notify)

lemma disciplined_new_transfer:
  assumes "par_from_account_id arg \<in> A" "par_to_account_id arg \<in> A"
  shows "disciplined A (new_transfer_prog arg a b)"
  using assms by (auto simp: new_transfer_prog_def limit_prog_def disciplined_ask intro!: disciplined_post)

lemma transfer_prog_disciplined: "disciplined {} (transfer_prog arg)"
  unfolding transfer_prog_def lock_prog_def
  by (auto simp: disciplined_ask insert_commute split: sum.split intro!: disciplined_new_transfer)

lemma exec_answers: "exec_stmt env st s = (Inr a, s') \<Longrightarrow> answers st a"
  by (cases st)
    (auto simp: map_answer_def AddAccountBalance_def addAccountBalance_sql_def Let_def
      dest!: GetAccountForUpdate_Inr find_account_Some elim!: run_sql_InrE split: prod.splits sum.splits option.splits if_splits)

end
