(* ===== verification/Interleaving.thy ===== *)
theory Interleaving
  imports Tx_Program Transfer_Race
begin

text \<open>
  Transactions statement by statement. A transaction at PostgreSQL's default isolation level,
  READ COMMITTED, sees at each statement what is committed then, with its own writes on top; what
  it writes is seen by others after its commit; a row that another open transaction has locked
  makes it wait, and so does a unique key that another one has just inserted. This is modelled
  here for the programs of \<open>Tx_Program\<close>: \<open>writes\<close> is what an open transaction has written,
  \<open>overlay\<close> the tables it sees, \<open>tx_step\<close> one statement. \<open>tx_reach_undisturbed\<close> is the point of the locks:
  what a disciplined program has done so far it would have done as well if the others' commits
  had come before it.
\<close>

section \<open>Uncommitted writes\<close>

record writes =
  w_balances :: "uuid \<Rightarrow> int option"
  w_transfers :: "transfer list"
  w_entries :: "entry list"
  w_notifications :: "notification list"

definition no_writes :: writes where
  "no_writes = \<lparr>w_balances = (\<lambda>_. None), w_transfers = [], w_entries = [], w_notifications = []\<rparr>"

definition written_row :: "writes \<Rightarrow> account \<Rightarrow> account" where
  "written_row w a = (case w_balances w (acc_id a) of None \<Rightarrow> a | Some b \<Rightarrow> a\<lparr>acc_balance := b\<rparr>)"

definition overlay :: "db \<Rightarrow> writes \<Rightarrow> db" where
  "overlay d w = d\<lparr>accounts := map (written_row w) (accounts d), entries := entries d @ w_entries w,
     transfers := transfers d @ w_transfers w, notifications := notifications d @ w_notifications w\<rparr>"

fun record_write :: "stmt \<Rightarrow> answer \<Rightarrow> writes \<Rightarrow> writes" where
  "record_write (Create_Transfer f t amt k) (A_Transfer x) w = w\<lparr>w_transfers := w_transfers w @ [x]\<rparr>"
| "record_write (Create_Entry i amt) (An_Entry x) w = w\<lparr>w_entries := w_entries w @ [x]\<rparr>"
| "record_write (Add_Balance amt i) (An_Account x) w = w\<lparr>w_balances := (w_balances w)(i \<mapsto> acc_balance x)\<rparr>"
| "record_write (Create_Notification dir t i) (A_Notification x) w = w\<lparr>w_notifications := w_notifications w @ [x]\<rparr>"
| "record_write _ _ w = w"

lemma written_row_id [simp]: "acc_id (written_row w a) = acc_id a"
  by (simp add: written_row_def split: option.split)

lemma written_row_other [simp]:
  "written_row (w\<lparr>w_transfers := ts\<rparr>) = written_row w" "written_row (w\<lparr>w_entries := es\<rparr>) = written_row w"
  "written_row (w\<lparr>w_notifications := ns\<rparr>) = written_row w"
  by (simp_all add: fun_eq_iff written_row_def)

lemma overlay_no_writes [simp]: "overlay d no_writes = d"
  by (cases d) (simp add: overlay_def no_writes_def written_row_def [abs_def])

lemma overlay_sel [simp]:
  "transfers (overlay d w) = transfers d @ w_transfers w"
  "entries (overlay d w) = entries d @ w_entries w"
  "notifications (overlay d w) = notifications d @ w_notifications w"
  "accounts (overlay d w) = map (written_row w) (accounts d)"
  "users (overlay d w) = users d"
  by (simp_all add: overlay_def)

lemma find_account_overlay: "find_account i (overlay d w) = map_option (written_row w) (find_account i d)"
proof -
  have "find (\<lambda>a. acc_id a = i) (map (written_row w) xs) = map_option (written_row w) (find (\<lambda>a. acc_id a = i) xs)" for xs
    by (induction xs) auto
  then show ?thesis by (simp add: find_account_def)
qed

section \<open>Keys of unique indexes\<close>

datatype row_key =
    Transfer_Id uuid
  | Transfer_Key uuid uuid
  | Entry_Id uuid
  | Notification_Id uuid
  | Notification_Key uuid uuid

definition row_keys :: "transfer list \<Rightarrow> entry list \<Rightarrow> notification list \<Rightarrow> row_key set" where
  "row_keys ts es ns =
     (\<lambda>t. Transfer_Id (tr_id t)) ` set ts \<union>
     (\<lambda>t. Transfer_Key (tr_from_account_id t) (tr_idempotency_key t)) ` set ts \<union>
     (\<lambda>e. Entry_Id (ent_id e)) ` set es \<union> (\<lambda>n. Notification_Id (ntf_id n)) ` set ns \<union>
     (\<lambda>n. Notification_Key (ntf_transfer_id n) (ntf_account_id n)) ` set ns"

definition db_keys :: "db \<Rightarrow> row_key set" where
  "db_keys d = row_keys (transfers d) (entries d) (notifications d)"

definition write_keys :: "writes \<Rightarrow> row_key set" where
  "write_keys w = row_keys (w_transfers w) (w_entries w) (w_notifications w)"

text \<open>The keys of the row that a statement inserts under a generated identifier.\<close>

fun stmt_keys :: "uuid \<Rightarrow> stmt \<Rightarrow> row_key set" where
  "stmt_keys u (Create_Transfer f t amt k) = {Transfer_Id u, Transfer_Key f k}"
| "stmt_keys u (Create_Entry i amt) = {Entry_Id u}"
| "stmt_keys u (Create_Notification dir t i) = {Notification_Id u, Notification_Key t i}"
| "stmt_keys u _ = {}"

lemma keys_no_writes [simp]: "write_keys no_writes = {}"
  by (simp add: write_keys_def no_writes_def row_keys_def)

lemma keys_overlay: "db_keys (overlay d w) = db_keys d \<union> write_keys w"
  by (auto simp: db_keys_def write_keys_def row_keys_def)

section \<open>One statement of an open transaction\<close>

definition locked_rows :: "pg \<Rightarrow> uuid set" where
  "locked_rows s = (\<Union>l \<in> set (held s). case l of AccountRow i \<Rightarrow> {i} | _ \<Rightarrow> {})"

lemma locked_rows_eq: "locked_rows s = {i. AccountRow i \<in> set (held s)}"
  by (force simp: locked_rows_def split: lock.splits)

text \<open>
  What the statement sees are the committed tables with the transaction's own writes; they are kept
  apart from the rest of the connection.
\<close>

definition tx_step :: "pg_env \<Rightarrow> db \<Rightarrow> stmt \<Rightarrow> pg \<Rightarrow> writes \<Rightarrow> (go_error + answer) \<times> pg \<times> writes" where
  "tx_step env d st s w =
     (case exec_stmt env st (s\<lparr>tables := overlay d w\<rparr>) of
        (Inl e, s') \<Rightarrow> (Inl e, s'\<lparr>tables := tables s\<rparr>, w)
      | (Inr a, s') \<Rightarrow> (Inr a, s'\<lparr>tables := tables s\<rparr>, record_write st a w))"

text \<open>What each statement reads and returns, apart from the tables: all on one line per statement.\<close>

lemmas exec_defs = map_answer_def GetAccountForUpdate_def GetTransferBySourceAndIdempotencyKey_def
  SumOutgoingTransfersSince_def CreateTransfer_def CreateEntry_def AddAccountBalance_def CreateNotification_def
  PublishNotification_def

text \<open>A statement that succeeds has written what \<open>record_write\<close> notes, under keys that were not taken.\<close>

lemma balance_overlay:
  assumes "distinct (map acc_id (accounts d))" and "find_account i (overlay d w) = Some x"
  shows "(overlay d w)\<lparr>accounts := replace_by acc_id i (\<lambda>r. r\<lparr>acc_balance := acc_balance r + amt\<rparr>) (accounts (overlay d w))\<rparr> =
    overlay d (w\<lparr>w_balances := (w_balances w)(i \<mapsto> acc_balance x + amt)\<rparr>)"
proof -
  obtain x0 where x0: "find_account i d = Some x0" and x: "x = written_row w x0"
    using assms(2) by (auto simp: find_account_overlay)
  have "(if acc_id (written_row w a) = i then (written_row w a)\<lparr>acc_balance := acc_balance (written_row w a) + amt\<rparr>
      else written_row w a) = written_row (w\<lparr>w_balances := (w_balances w)(i \<mapsto> acc_balance x + amt)\<rparr>) a"
    if "a \<in> set (accounts d)" for a
  proof (cases "acc_id a = i")
    case True
    then have "a = x0" using that x0 assms(1) find_account_Some by (metis distinct_key_eq)
    then show ?thesis using True x by (auto simp: written_row_def split: option.splits)
  qed (auto simp: written_row_def split: option.split)
  then show ?thesis by (simp add: overlay_def replace_by_def)
qed

lemma exec_writes:
  assumes "exec_stmt env st s = (Inr a, s')" and "tables s = overlay d w" and "tx_start s \<noteq> None"
    and "distinct (map acc_id (accounts d))"
  shows "tables s' = overlay d (record_write st a w)"
proof (cases st)
  case (Create_Notification dir t i)
  with assms(1) obtain n c where "a = A_Notification n" "createNotification_sql dir t i c (tables s) = Inr (n, tables s')"
    by (auto simp: exec_defs split: prod.splits sum.splits elim!: run_sql_InrE)
  then have "a = A_Notification n \<and> tables s' = (tables s)\<lparr>notifications := notifications (tables s) @ [n]\<rparr>"
    by (auto elim!: createNotification_Inr)
  then show ?thesis unfolding Create_Notification assms(2) by (simp add: overlay_def)
next
  case (Add_Balance amt i)
  with assms(1) obtain x where x: "find_account i (overlay d w) = Some x" "a = An_Account (x\<lparr>acc_balance := acc_balance x + amt\<rparr>)"
    "tables s' = (overlay d w)\<lparr>accounts := replace_by acc_id i (\<lambda>r. r\<lparr>acc_balance := acc_balance r + amt\<rparr>) (accounts (overlay d w))\<rparr>"
    by (auto simp: exec_defs assms(2) addAccountBalance_sql_def Let_def
        split: prod.splits sum.splits option.splits if_splits elim!: run_sql_InrE)
  show ?thesis unfolding x(3) balance_overlay [OF assms(4) x(1)] by (simp add: Add_Balance x(2))
qed (use assms in \<open>auto simp: exec_defs andthen_def hold_def ret_def enqueue_notify_def sumOutgoingTransfersSince_sql_def
      overlay_def split: prod.splits sum.splits if_splits option.splits elim!: run_sql_InrE
      dest!: createTransfer_Inr createEntry_Inr\<close>)

lemma exec_keys:
  assumes "exec_stmt env st s = (Inr a, s')"
  shows "write_keys (record_write st a w) = write_keys w \<union> stmt_keys (uuid_at env (tick s)) st \<and>
    stmt_keys (uuid_at env (tick s)) st \<inter> db_keys (tables s) = {}"
proof (cases st)
  case (Create_Notification dir t i)
  then show ?thesis
    using assms
    by (auto simp: exec_defs write_keys_def db_keys_def row_keys_def split: prod.splits sum.splits
        elim!: run_sql_InrE createNotification_Inr)
next
  case (Create_Transfer f t amt k)
  then show ?thesis
    using assms
    by (auto simp: exec_defs write_keys_def db_keys_def row_keys_def split: prod.splits sum.splits
        elim!: run_sql_InrE dest!: createTransfer_Inr)
next
  case (Create_Entry i amt)
  then show ?thesis
    using assms
    by (auto simp: exec_defs write_keys_def db_keys_def row_keys_def split: prod.splits sum.splits
        elim!: run_sql_InrE dest!: createEntry_Inr)
qed (use assms in \<open>auto simp: exec_defs write_keys_def split: prod.splits sum.splits\<close>)

section \<open>What the others may do\<close>

text \<open>
  Other transactions commit, and the rest of the program goes on, while this one holds the rows
  \<open>A\<close> and has inserted the keys \<open>K\<close>: the locked accounts stay, no rows are removed, new
  transfers come from other accounts, and the keys stay free.
\<close>

definition undisturbed :: "uuid set \<Rightarrow> row_key set \<Rightarrow> db \<Rightarrow> db \<Rightarrow> bool" where
  "undisturbed A K d d' \<longleftrightarrow>
     (\<forall>i \<in> A. find_account i d' = find_account i d) \<and>
     acc_id ` set (accounts d) \<subseteq> acc_id ` set (accounts d') \<and>
     (\<exists>more. transfers d' = transfers d @ more \<and> (\<forall>t \<in> set more. tr_from_account_id t \<notin> A)) \<and>
     usr_username ` set (users d) \<subseteq> usr_username ` set (users d') \<and> K \<inter> db_keys d' = {}"

lemma undisturbed_less: "undisturbed A K d d' \<Longrightarrow> B \<subseteq> A \<Longrightarrow> L \<subseteq> K \<Longrightarrow> undisturbed B L d d'"
  by (fastforce simp: undisturbed_def)

lemma undisturbed_account: "undisturbed A K d d' \<Longrightarrow> i \<in> A \<Longrightarrow> find_account i d' = find_account i d"
  by (simp add: undisturbed_def)

lemma undisturbed_keys:
  assumes "undisturbed A K d d'" "K' \<subseteq> K"
  shows "K' \<inter> db_keys d' = {}"
  using assms by (auto simp: undisturbed_def)

lemma undisturbed_outgoing:
  assumes "undisturbed A K d d'" "i \<in> A"
  shows "filter (\<lambda>t. tr_from_account_id t = i \<and> Q t) (transfers d') = filter (\<lambda>t. tr_from_account_id t = i \<and> Q t) (transfers d)"
  using assms by (auto simp: undisturbed_def filter_empty_conv)

lemma find_filter: "find P xs = (case filter P xs of [] \<Rightarrow> None | x # _ \<Rightarrow> Some x)"
  by (induction xs) auto

text \<open>A statement as a query and what happens to the connection afterwards.\<close>

definition map_sql :: "('a \<Rightarrow> 'b) \<Rightarrow> 'a sql \<Rightarrow> 'b sql" where
  "map_sql f q c d = (case q c d of Inl e \<Rightarrow> Inl e | Inr (x, d') \<Rightarrow> Inr (f x, d'))"

fun stmt_sql :: "stmt \<Rightarrow> answer sql" where
  "stmt_sql (Get_Account_For_Update i) = map_sql An_Account (query_row (find_account i))"
| "stmt_sql (Get_Transfer_By_Key i k) = map_sql A_Transfer (query_row (find_transfer_by_key i k))"
| "stmt_sql (Sum_Outgoing i) = map_sql A_Sum (sumOutgoingTransfersSince_sql i)"
| "stmt_sql (Create_Transfer f t amt k) = map_sql A_Transfer (createTransfer_sql f t amt k)"
| "stmt_sql (Create_Entry i amt) = map_sql An_Entry (createEntry_sql i amt)"
| "stmt_sql (Add_Balance amt i) = map_sql An_Account (addAccountBalance_sql amt i)"
| "stmt_sql (Create_Notification dir t i) = map_sql A_Notification (createNotification_sql dir t i)"
| "stmt_sql (Publish_Notification n ow) = (\<lambda>c d. Inr (No_Answer, d))"

fun after_stmt :: "stmt \<Rightarrow> pg \<Rightarrow> pg" where
  "after_stmt (Get_Account_For_Update i) s = snd (hold (AccountRow i) s)"
| "after_stmt (Publish_Notification n ow) s = snd (enqueue_notify (n, ow) s)"
| "after_stmt _ s = s"

lemma exec_stmt_sql:
  "exec_stmt env st s =
     (case run_sql env (stmt_sql st) s of (Inl e, s1) \<Rightarrow> (Inl e, s1) | (Inr a, s1) \<Rightarrow> (Inr a, after_stmt st s1))"
  by (cases st)
    (auto simp: exec_defs map_sql_def run_sql_def andthen_def hold_def ret_def enqueue_notify_def
      split: option.split sum.split prod.split)

lemma exec_error: "exec_stmt env st s = (Inl e, s') \<Longrightarrow> s' = step_tick s"
  by (auto simp: exec_stmt_sql split: sum.splits prod.splits dest: run_sql_Inl)

lemma locked_rows_tables [simp]: "locked_rows (s\<lparr>tables := d\<rparr>) = locked_rows s" "locked_rows (step_tick s) = locked_rows s"
  by (simp_all add: locked_rows_eq)

lemma after_stmt_locks: "locked_rows (after_stmt st s) = locked_rows s \<union> locks_row st"
  by (cases st) (auto simp: hold_def enqueue_notify_def locked_rows_eq split: option.split)

lemma after_stmt_tables:
  "tx_start s \<noteq> None \<Longrightarrow> (after_stmt st (s\<lparr>tables := d\<rparr>))\<lparr>tables := d'\<rparr> = (after_stmt st s)\<lparr>tables := d'\<rparr>"
  by (cases st) (auto simp: hold_def enqueue_notify_def)

lemma ctx_tables [simp]: "ctx_of env (s\<lparr>tables := d\<rparr>) = ctx_of env s"
  by (simp add: ctx_of_def split: option.split)

lemma tx_step_sql:
  assumes "tx_start s \<noteq> None"
  shows "tx_step env d st s w =
    (case fault_at env (tick s) of
       Some m \<Rightarrow> (Inl (DriverError m), step_tick s, w)
     | None \<Rightarrow>
         (case stmt_sql st (ctx_of env s) (overlay d w) of
            Inl e \<Rightarrow> (Inl e, step_tick s, w)
          | Inr (a, _) \<Rightarrow> (Inr a, (after_stmt st (step_tick s))\<lparr>tables := tables s\<rparr>, record_write st a w)))"
proof -
  have "(step_tick (s\<lparr>tables := x\<rparr>))\<lparr>tables := y\<rparr> = (step_tick s)\<lparr>tables := y\<rparr>" for x y
    by (simp add: step_tick_def)
  moreover have "(after_stmt st ((step_tick (s\<lparr>tables := x\<rparr>))\<lparr>tables := y\<rparr>))\<lparr>tables := z\<rparr> =
      (after_stmt st (step_tick s))\<lparr>tables := z\<rparr>" for x y z
    using assms after_stmt_tables [of "step_tick s"] by (simp add: step_tick_def)
  ultimately show ?thesis
    by (simp add: tx_step_def exec_stmt_sql run_sql_def split: option.split sum.split prod.split)
qed

subsection \<open>A statement does not notice\<close>

lemma key_absent:
  assumes "row_keys ts es ns \<inter> K = {}"
  shows "Transfer_Id u \<in> K \<Longrightarrow> u \<notin> tr_id ` set ts"
    "Transfer_Key i k \<in> K \<Longrightarrow> (i, k) \<notin> (\<lambda>t. (tr_from_account_id t, tr_idempotency_key t)) ` set ts"
    "Entry_Id u \<in> K \<Longrightarrow> u \<notin> ent_id ` set es" "Notification_Id u \<in> K \<Longrightarrow> u \<notin> ntf_id ` set ns"
    "Notification_Key t i \<in> K \<Longrightarrow> (t, i) \<notin> (\<lambda>n. (ntf_transfer_id n, ntf_account_id n)) ` set ns"
  using assms by (auto simp: row_keys_def)

lemma undisturbed_transfer:
  assumes "undisturbed A (write_keys w) d d'" "find (\<lambda>t. tr_id t = i) (transfers d @ w_transfers w) = Some t"
  shows "find (\<lambda>t. tr_id t = i) (transfers d' @ w_transfers w) = Some t"
proof -
  obtain more where d': "transfers d' = transfers d @ more" using assms(1) by (auto simp: undisturbed_def)
  show ?thesis
  proof (cases "find (\<lambda>t. tr_id t = i) (transfers d)")
    case (Some x)
    then show ?thesis using assms(2) d' by (simp add: find_append)
  next
    case None
    then have w: "find (\<lambda>t. tr_id t = i) (w_transfers w) = Some t" using assms(2) by (simp add: find_append)
    then have "Transfer_Id i \<in> write_keys w" by (auto simp: write_keys_def row_keys_def dest!: find_Some_set)
    then have "Transfer_Id i \<notin> db_keys d'" using assms(1) by (auto simp: undisturbed_def)
    then have "find (\<lambda>t. tr_id t = i) (transfers d') = None"
      by (auto simp: find_None_set db_keys_def row_keys_def)
    then show ?thesis using w by (simp add: find_append)
  qed
qed

lemma undisturbed_lookup:
  assumes "undisturbed A K d d'" "i \<in> A"
  shows "find_transfer_by_key i k (overlay d' w) = find_transfer_by_key i k (overlay d w)"
  using undisturbed_outgoing [OF assms]
  unfolding find_transfer_by_key_def find_filter by simp

lemma undisturbed_sum:
  assumes "undisturbed A K d d'" "i \<in> A"
  shows "outgoing_since i t (overlay d' w) = outgoing_since i t (overlay d w)"
  using undisturbed_outgoing [OF assms] by (simp add: outgoing_since_def)

lemma stmt_sql_undisturbed:
  assumes und: "undisturbed A (write_keys w \<union> stmt_keys (gen_uuid c) st) d d'"
    and A: "needs st \<union> locks_row st \<subseteq> A"
    and run: "stmt_sql st c (overlay d w) = Inr (a, D)"
  shows "\<exists>D'. stmt_sql st c (overlay d' w) = Inr (a, D')"
proof -
  have acc: "acc_id ` set (accounts d) \<subseteq> acc_id ` set (accounts d')"
    and usr: "usr_username ` set (users d) \<subseteq> usr_username ` set (users d')"
    using und by (simp_all add: undisturbed_def)
  have new: "db_keys d' \<inter> stmt_keys (gen_uuid c) st = {}"
    using und by (auto simp: undisturbed_def)
  note absent = key_absent [OF new [unfolded db_keys_def]]
  show ?thesis
  proof (cases st)
    case (Create_Notification dir t i)
    then have i: "find_account i d' = find_account i d" using undisturbed_account [OF und] A by simp
    have free: "gen_uuid c \<notin> ntf_id ` set (notifications d')"
      "(t, i) \<notin> (\<lambda>n. (ntf_transfer_id n, ntf_account_id n)) ` set (notifications d')"
      using absent(4,5) Create_Notification by simp_all
    obtain x y where x: "find_account i d = Some x" and y: "find (\<lambda>u. tr_id u = t) (transfers d @ w_transfers w) = Some y"
      using run Create_Notification
      by (auto simp: map_sql_def createNotification_sql_def find_account_overlay split: option.splits sum.splits)
    note y' = undisturbed_transfer [OF undisturbed_less [OF und subset_refl Un_upper1] y]
    have ids: "tr_id y = t" "acc_id x = i" using y x find_account_Some by (auto dest: find_Some_set)
    show ?thesis
      using run free usr
      by (auto simp: Create_Notification map_sql_def createNotification_sql_def find_account_overlay i x y y' ids
          Let_def image_Un split: if_splits)
  next
    case (Create_Transfer f t amt k)
    then show ?thesis
      using run absent acc
      by (auto simp: map_sql_def createTransfer_sql_def Let_def image_Un image_image split: if_splits sum.splits)
  next
    case (Create_Entry i amt)
    then show ?thesis
      using run absent acc
      by (auto simp: map_sql_def createEntry_sql_def Let_def image_Un image_image split: if_splits sum.splits)
  next
    case (Add_Balance amt i)
    then have "find_account i d' = find_account i d" using undisturbed_account [OF und] A by simp
    then show ?thesis
      using run Add_Balance
      by (auto simp: map_sql_def addAccountBalance_sql_def find_account_overlay Let_def
          split: option.splits if_splits sum.splits)
  next
    case (Get_Account_For_Update i)
    then have "find_account i d' = find_account i d" using undisturbed_account [OF und] A by simp
    then show ?thesis
      using run Get_Account_For_Update
      by (auto simp: map_sql_def query_row_def find_account_overlay split: option.splits sum.splits)
  next
    case (Get_Transfer_By_Key i k)
    then show ?thesis
      using run undisturbed_lookup [OF und, of i k w] A
      by (auto simp: map_sql_def query_row_def split: option.splits sum.splits)
  next
    case (Sum_Outgoing i)
    then show ?thesis
      using run undisturbed_sum [OF und, of i _ w] A by (auto simp: map_sql_def sumOutgoingTransfersSince_sql_def)
  qed (use run in simp)
qed

lemma lookup_undisturbed:
  assumes "undisturbed A K d d'" "needs st \<subseteq> A" "key_lookup st" "stmt_sql st c (overlay d w) = Inl e"
  shows "stmt_sql st c (overlay d' w) = Inl e"
  using assms(2-) undisturbed_lookup [OF assms(1)]
  by (cases st) (auto simp: map_sql_def query_row_def split: option.splits sum.splits)

lemma tx_step_undisturbed:
  assumes step: "tx_step env d st s w = (r, s', w')" and tx: "tx_start s \<noteq> None"
    and und: "undisturbed (locked_rows s') (write_keys w') d d'"
    and "needs st \<subseteq> locked_rows s" and ok: "(\<exists>a. r = Inr a) \<or> key_lookup st"
  shows "tx_step env d' st s w = (r, s', w')"
proof -
  show ?thesis
  proof (cases "fault_at env (tick s)")
    case (Some m)
    then show ?thesis using step by (simp add: tx_step_sql [OF tx])
  next
    case None
    show ?thesis
    proof (cases "stmt_sql st (ctx_of env s) (overlay d w)")
      case (Inl e)
      then have r: "r = Inl e" "s' = step_tick s" using step None by (simp_all add: tx_step_sql [OF tx])
      then have "key_lookup st" "needs st \<subseteq> locked_rows s'" using ok assms(4) by (simp_all add: locked_rows_eq)
      from lookup_undisturbed [OF und this(2,1) Inl] show ?thesis
        using step None Inl by (simp add: tx_step_sql [OF tx])
    next
      case (Inr p)
      obtain a D where p: "p = (a, D)" by fastforce
      have res: "s' = (after_stmt st (step_tick s))\<lparr>tables := tables s\<rparr>" "w' = record_write st a w" "r = Inr a"
        using step None Inr p by (simp_all add: tx_step_sql [OF tx])
      have ex: "exec_stmt env st (s\<lparr>tables := overlay d w\<rparr>) = (Inr a, after_stmt st ((step_tick (s\<lparr>tables := overlay d w\<rparr>))\<lparr>tables := D\<rparr>))"
        using None Inr p by (simp add: exec_stmt_sql run_sql_def)
      have locks: "locked_rows s' = locked_rows s \<union> locks_row st"
        by (simp add: res(1) after_stmt_locks)
      have keys: "write_keys w' = write_keys w \<union> stmt_keys (gen_uuid (ctx_of env s)) st"
        using exec_keys [OF ex, of w] unfolding res(2) by simp
      have "\<exists>D'. stmt_sql st (ctx_of env s) (overlay d' w) = Inr (a, D')"
        using und stmt_sql_undisturbed [OF _ _ Inr [unfolded p]] assms(4) unfolding locks keys by blast
      then show ?thesis using step None Inr p by (auto simp: tx_step_sql [OF tx])
    qed
  qed
qed

section \<open>What a transaction has done so far\<close>

text \<open>Program, connection and writes after some statements, all of them run on the same committed tables.\<close>

inductive tx_reach :: "pg_env \<Rightarrow> db \<Rightarrow> 'a prog \<Rightarrow> pg \<Rightarrow> 'a prog \<Rightarrow> pg \<Rightarrow> writes \<Rightarrow> bool"
  for env d p0 s0 where
  Begun: "tx_reach env d p0 s0 p0 s0 no_writes"
| Went_On: "tx_reach env d p0 s0 (Call st k) s w \<Longrightarrow> tx_step env d st s w = (r, s', w') \<Longrightarrow>
    tx_reach env d p0 s0 (k r) s' w'"

lemma tx_step_cases:
  assumes "tx_step env d st s w = (r, s', w')" "tx_start s \<noteq> None"
  obtains (error) e where "r = Inl e" "s' = step_tick s" "w' = w"
      "exec_stmt env st (s\<lparr>tables := overlay d w\<rparr>) = (Inl e, s'\<lparr>tables := overlay d w\<rparr>)"
  | (answer) a where "r = Inr a" "w' = record_write st a w" "answers st a"
      "locked_rows s' = locked_rows s \<union> locks_row st" "tx_start s' = tx_start s" "tables s' = tables s"
      "exec_stmt env st (s\<lparr>tables := overlay d w\<rparr>) = (Inr a, s'\<lparr>tables := tables (snd (exec_stmt env st (s\<lparr>tables := overlay d w\<rparr>)))\<rparr>)"
proof (cases "exec_stmt env st (s\<lparr>tables := overlay d w\<rparr>)")
  case (Pair r1 s1)
  show ?thesis
  proof (cases r1)
    case (Inl e)
    then have s1: "s1 = step_tick (s\<lparr>tables := overlay d w\<rparr>)" using exec_error Pair by blast
    have "r = Inl e" "w' = w" "s' = s1\<lparr>tables := tables s\<rparr>" using assms(1) Pair Inl by (simp_all add: tx_step_def)
    then show ?thesis using error [of e] Pair Inl s1 by (simp add: step_tick_def)
  next
    case (Inr a)
    have res: "r = Inr a" "w' = record_write st a w" "s' = s1\<lparr>tables := tables s\<rparr>"
      using assms(1) Pair Inr by (simp_all add: tx_step_def)
    obtain D where s1: "s1 = after_stmt st ((step_tick (s\<lparr>tables := overlay d w\<rparr>))\<lparr>tables := D\<rparr>)"
      using Pair Inr by (auto simp: exec_stmt_sql split: sum.splits prod.splits elim!: run_sql_InrE)
    have "tx_start (after_stmt st q) = tx_start q" for q
      by (cases st) (auto simp: hold_def enqueue_notify_def split: option.split)
    then show ?thesis
      using answer [of a] res s1 Pair Inr exec_answers [of env st _ a s1] by (simp add: after_stmt_locks)
  qed
qed

text \<open>The writes stay within the locked rows and under fresh keys; the program stays disciplined.\<close>

definition tx_within :: "db \<Rightarrow> pg \<Rightarrow> writes \<Rightarrow> bool" where
  "tx_within d s w \<longleftrightarrow> {i. w_balances w i \<noteq> None} \<subseteq> locked_rows s \<and>
     tr_from_account_id ` set (w_transfers w) \<subseteq> locked_rows s \<and> write_keys w \<inter> db_keys d = {}"

lemma exec_within:
  assumes "exec_stmt env st s = (Inr a, s')" "needs st \<subseteq> A"
    "{i. w_balances w i \<noteq> None} \<subseteq> A" "tr_from_account_id ` set (w_transfers w) \<subseteq> A"
  shows "{i. w_balances (record_write st a w) i \<noteq> None} \<subseteq> A \<and>
    tr_from_account_id ` set (w_transfers (record_write st a w)) \<subseteq> A"
proof -
  have "tr_from_account_id x \<in> A" if "st = Create_Transfer f t amt k" "a = A_Transfer x" for f t amt k x
  proof -
    have "tr_from_account_id x = f"
      using assms(1) that by (auto simp: exec_defs split: prod.splits sum.splits elim!: run_sql_InrE dest!: createTransfer_Inr)
    then show ?thesis using assms(2) that by simp
  qed
  then show ?thesis
    using assms(2-) by (cases "(st, a, w)" rule: record_write.cases) (auto split: if_splits)
qed

lemma tx_step_within:
  assumes step: "tx_step env d st s w = (r, s', w')" and tx: "tx_start s \<noteq> None"
    and "needs st \<subseteq> locked_rows s" "tx_within d s w"
  shows "tx_within d s' w'"
  using step tx
proof (cases rule: tx_step_cases)
  case (answer a)
  note ex = answer(7)
  have keys: "write_keys w' = write_keys w \<union> stmt_keys (uuid_at env (tick s)) st"
    "stmt_keys (uuid_at env (tick s)) st \<inter> db_keys (overlay d w) = {}"
    using exec_keys [OF ex, of w] by (simp_all add: answer(2))
  have old: "{i. w_balances w i \<noteq> None} \<subseteq> locked_rows s" "tr_from_account_id ` set (w_transfers w) \<subseteq> locked_rows s"
    "write_keys w \<inter> db_keys d = {}" using assms(4) by (simp_all add: tx_within_def)
  have "write_keys w' \<inter> db_keys d = {}" using keys old(3) by (auto simp: keys_overlay)
  moreover note exec_within [OF ex assms(3) old(1,2)]
  ultimately show ?thesis unfolding tx_within_def answer(2,4) by (meson sup.coboundedI1)
qed (use assms(4) in \<open>simp add: tx_within_def\<close>)

lemma disciplined_step:
  assumes "disciplined (locked_rows s) (Call st k)" "tx_step env d st s w = (r, s', w')" "tx_start s \<noteq> None"
  shows "failed (k r) \<or> (disciplined (locked_rows s') (k r) \<and> ((\<exists>a. r = Inr a) \<or> key_lookup st))"
  using assms(2,3) by (cases rule: tx_step_cases) (use assms(1) in auto)

lemma tx_reach_facts:
  assumes "tx_reach env d p0 s0 p s w" "\<not> failed p" "disciplined (locked_rows s0) p0" "tx_start s0 \<noteq> None"
  shows "disciplined (locked_rows s) p \<and> tx_within d s w \<and> tx_start s \<noteq> None \<and> tables s = tables s0"
  using assms
proof (induction rule: tx_reach.induct)
  case Begun
  then show ?case by (simp add: tx_within_def no_writes_def write_keys_def row_keys_def)
next
  case (Went_On st k s w r s' w')
  then have IH: "disciplined (locked_rows s) (Call st k)" "tx_within d s w" "tx_start s \<noteq> None" "tables s = tables s0"
    by simp_all
  have "tx_start s' \<noteq> None \<and> tables s' = tables s0"
    using Went_On.hyps(2) IH(3) by (cases rule: tx_step_cases) (use IH in simp_all)
  then show ?case
    using disciplined_step [OF IH(1) Went_On.hyps(2) IH(3)] tx_step_within [OF Went_On.hyps(2) IH(3) _ IH(2)]
      IH(1) Went_On.prems(1) by simp
qed

theorem tx_reach_undisturbed:
  assumes "tx_reach env d p0 s0 p s w" "\<not> failed p" "disciplined (locked_rows s0) p0" "tx_start s0 \<noteq> None"
    and "undisturbed (locked_rows s) (write_keys w) d d'"
  shows "tx_reach env d' p0 s0 p s w"
  using assms
proof (induction rule: tx_reach.induct)
  case Begun
  show ?case by (rule tx_reach.Begun)
next
  case (Went_On st k s w r s' w')
  have facts: "disciplined (locked_rows s) (Call st k)" "tx_start s \<noteq> None"
    using tx_reach_facts [OF Went_On.hyps(1)] Went_On.prems by simp_all
  have grow: "locked_rows s \<subseteq> locked_rows s' \<and> write_keys w \<subseteq> write_keys w'"
    using Went_On.hyps(2) facts(2)
  proof (cases rule: tx_step_cases)
    case (answer a)
    then show ?thesis using exec_keys [OF answer(7), of w] by auto
  qed simp
  have "tx_reach env d' p0 s0 (Call st k) s w"
    using Went_On.IH Went_On.prems undisturbed_less grow by auto
  moreover have "tx_step env d' st s w = (r, s', w')"
    using tx_step_undisturbed [OF Went_On.hyps(2) facts(2) Went_On.prems(4)]
      disciplined_step [OF facts(1) Went_On.hyps(2) facts(2)] facts(1) Went_On.prems(1) by simp
  ultimately show ?case by (rule tx_reach.Went_On)
qed

text \<open>Run in a row on the same tables, the program does what it has done statement by statement.\<close>

lemma tx_reach_run:
  assumes "tx_reach env d p0 s0 p s w" "tx_start s0 \<noteq> None" "distinct (map acc_id (accounts d))"
  shows "run_prog env p0 (s0\<lparr>tables := d\<rparr>) = run_prog env p (s\<lparr>tables := overlay d w\<rparr>) \<and> tx_start s \<noteq> None"
  using assms(1)
proof (induction rule: tx_reach.induct)
  case (Went_On st k s w r s' w')
  then have tx: "tx_start s \<noteq> None" by simp
  show ?case
    using Went_On.hyps(2) tx
  proof (cases rule: tx_step_cases)
    case (error e)
    then show ?thesis using Went_On.IH error tx by simp
  next
    case (answer a)
    have "tables (snd (exec_stmt env st (s\<lparr>tables := overlay d w\<rparr>))) = overlay d w'"
      using exec_writes [OF answer(7), of d w] tx assms(3) by (simp add: answer(2))
    then show ?thesis using Went_On.IH answer tx by simp
  qed
qed (use assms(2) in simp)

end
