(* ===== verification/Transfer_Interleaving.thy ===== *)
theory Transfer_Interleaving
  imports Interleaving
begin

text \<open>
  Transfer requests whose statements interleave. Each request is a client with a connection of its
  own, a clock and identifiers and faults of its own (\<open>cl_env\<close>), and a stage: between two calls
  of the database (the phases of \<open>Transfer_Race\<close>) or inside its transaction, with the
  program it has left and its uncommitted writes. \<open>turn\<close> is one statement of one client, or the
  begin or end of its transaction; a client that must wait does not move. \<open>bank_step_refines\<close> shows
  that whatever the clients do, it looks like whole transactions one after the other, in the
  order of their commits.
\<close>

section \<open>Clients and turns\<close>

datatype stage =
    At phase
  | In_Tx "transfer_result prog" writes

record client =
  cl_arg :: transfer_params
  cl_env :: pg_env
  cl_pg :: pg
  cl_stage :: stage

type_synonym bank = "client list \<times> db"

text \<open>How \<open>TransferTx\<close> goes on when \<open>execTx\<close> has returned.\<close>

definition after_move :: "go_error + transfer_result \<Rightarrow> phase" where
  "after_move r =
     (case r of
        Inr res \<Rightarrow> Returned (Inr res)
      | Inl err \<Rightarrow> if errors_is err ErrUniqueViolation then Resolve err else Returned (Inl err))"

definition move_to :: "client \<Rightarrow> stage \<Rightarrow> pg \<Rightarrow> client" where
  "move_to c st s = c\<lparr>cl_pg := s, cl_stage := st\<rparr>"

definition open_writes :: "client \<Rightarrow> writes" where
  "open_writes c = (case cl_stage c of In_Tx p w \<Rightarrow> w | At ph \<Rightarrow> no_writes)"

definition open_rows :: "client \<Rightarrow> uuid set" where
  "open_rows c = (case cl_stage c of In_Tx p w \<Rightarrow> locked_rows (cl_pg c) | At ph \<Rightarrow> {})"

text \<open>No other open transaction has locked the row or inserted the key that the statement needs.\<close>

definition may_run :: "stmt \<Rightarrow> uuid \<Rightarrow> client list \<Rightarrow> bool" where
  "may_run st u others \<longleftrightarrow>
     (\<forall>c \<in> set others. (case waits_for st of Some i \<Rightarrow> i \<notin> open_rows c | None \<Rightarrow> True) \<and>
        stmt_keys u st \<inter> write_keys (open_writes c) = {})"

definition others :: "nat \<Rightarrow> 'a list \<Rightarrow> 'a list" where
  "others n cs = take n cs @ drop (Suc n) cs"

definition begin_move :: "client \<Rightarrow> client" where
  "begin_move c =
     (case fault_at (cl_env c) (tick (cl_pg c)) of
        Some m \<Rightarrow> move_to c (At (after_move (Inl (DriverError m)))) (step_tick (cl_pg c))
      | None \<Rightarrow> move_to c (In_Tx (transfer_prog (cl_arg c)) no_writes) (begin_tx (cl_env c) (cl_pg c)))"

definition committed_db :: "pg \<Rightarrow> db \<Rightarrow> writes \<Rightarrow> db" where
  "committed_db s d w = (overlay d w)\<lparr>notified := notified d @ pending s\<rparr>"

fun end_move :: "client \<Rightarrow> go_error + transfer_result \<Rightarrow> writes \<Rightarrow> db \<Rightarrow> client \<times> db" where
  "end_move c (Inl e) w d = (move_to c (At (after_move (Inl e))) (end_tx (cl_pg c)), d)"
| "end_move c (Inr x) w d =
     (let s = end_tx (step_tick (cl_pg c)) in
      case commit_at (cl_env c) (tick (cl_pg c)) of
        Committed \<Rightarrow> (move_to c (At (after_move (Inr x))) s, committed_db (cl_pg c) d w)
      | CommitFailed m \<Rightarrow> (move_to c (At (after_move (Inl (DriverError m)))) s, d)
      | CommitLost m \<Rightarrow> (move_to c (At (after_move (Inl (DriverError m)))) s, committed_db (cl_pg c) d w))"

definition call_outside :: "client \<Rightarrow> phase \<Rightarrow> db \<Rightarrow> client" where
  "call_outside c ph d =
     (case phase_step (cl_env c) (cl_arg c) ph ((cl_pg c)\<lparr>tables := d\<rparr>) of
        (ph', s') \<Rightarrow> move_to c (At ph') (s'\<lparr>tables := tables (cl_pg c)\<rparr>))"

definition turn :: "nat \<Rightarrow> bank \<Rightarrow> bank" where
  "turn n q =
     (case q of (cs, d) \<Rightarrow>
        let c = cs ! n in
        case cl_stage c of
          At ph \<Rightarrow> (cs[n := if ph = Move then begin_move c else call_outside c ph d], d)
        | In_Tx p w \<Rightarrow>
            (case p of
               Stop r \<Rightarrow> (case end_move c r w d of (c', d') \<Rightarrow> (cs[n := c'], d'))
             | Call st k \<Rightarrow>
                 if may_run st (uuid_at (cl_env c) (tick (cl_pg c))) (others n cs)
                 then (case tx_step (cl_env c) d st (cl_pg c) w of
                         (r, s', w') \<Rightarrow> (cs[n := move_to c (In_Tx (k r) w') s'], d))
                 else q))"

text \<open>
  What else the program does to the database: accounts, users and entries are added, notifications are
  read. No other statement touches transfers; the rows that a client has locked stay, and the keys
  that it has inserted make others wait.
\<close>

definition elsewhere :: "client list \<Rightarrow> db \<Rightarrow> db \<Rightarrow> bool" where
  "elsewhere cs d d' \<longleftrightarrow> books_ok d' \<and> transfers d' = transfers d \<and>
     (\<forall>c \<in> set cs. undisturbed (open_rows c) (write_keys (open_writes c)) d d')"

inductive bank_step :: "bank \<Rightarrow> bank \<Rightarrow> bool" where
  Turn: "n < length cs \<Longrightarrow> bank_step (cs, d) (turn n (cs, d))"
| Elsewhere: "elsewhere cs d d' \<Longrightarrow> bank_step (cs, d) (cs, d')"

definition new_client :: "transfer_params \<times> pg_env \<Rightarrow> client" where
  "new_client q = \<lparr>cl_arg = fst q, cl_env = snd q, cl_pg = connect_db empty_db, cl_stage = At Lookup\<rparr>"

section \<open>How it looks from outside\<close>

text \<open>
  The phase a client is in when a transaction is one step: it has moved when it has committed, or when
  a statement has made it fail.
\<close>

definition shown :: "client \<Rightarrow> transfer_params \<times> phase" where
  "shown c = (cl_arg c, case cl_stage c of
     At ph \<Rightarrow> ph | In_Tx p w \<Rightarrow> (case p of Stop (Inl e) \<Rightarrow> after_move (Inl e) | _ \<Rightarrow> Move))"

definition client_ok :: "db \<Rightarrow> client \<Rightarrow> bool" where
  "client_ok d c \<longleftrightarrow>
     (case cl_stage c of
        At ph \<Rightarrow> True
      | In_Tx p w \<Rightarrow> tx_within d (cl_pg c) w \<and>
          (failed p \<or> (\<exists>s0. fault_at (cl_env c) (tick s0) = None \<and>
             tx_reach (cl_env c) d (transfer_prog (cl_arg c)) (begin_tx (cl_env c) s0) p (cl_pg c) w)))"

definition apart :: "client \<Rightarrow> client \<Rightarrow> bool" where
  "apart c c' \<longleftrightarrow> open_rows c \<inter> open_rows c' = {} \<and> write_keys (open_writes c) \<inter> write_keys (open_writes c') = {}"

definition bank_ok :: "bank \<Rightarrow> bool" where
  "bank_ok q \<longleftrightarrow> books_ok (snd q) \<and> (\<forall>c \<in> set (fst q). client_ok (snd q) c) \<and>
     (\<forall>m < length (fst q). \<forall>n < length (fst q). m \<noteq> n \<longrightarrow> apart (fst q ! m) (fst q ! n))"

text \<open>A client's step as a call of the race, on the tables committed at that time.\<close>

definition as_call :: "client \<Rightarrow> db \<Rightarrow> client \<Rightarrow> db \<Rightarrow> bool" where
  "as_call c d c' d' \<longleftrightarrow>
     cl_arg c' = cl_arg c \<and> cl_env c' = cl_env c \<and>
     ((shown c' = shown c \<and> d' = d) \<or>
      (\<exists>s s'. phase_step (cl_env c) (cl_arg c) (snd (shown c)) s = (snd (shown c'), s') \<and> tables s = d \<and> tables s' = d'))"

subsection \<open>The transaction's calls\<close>

lemma phase_step_Move:
  "phase_step env arg Move s = (let (r, s1) = execTx env (transfer_body env arg) s in (after_move r, s1))"
  by (simp add: after_move_def split: prod.split sum.split)

lemma begin_tx_tables: "begin_tx env (s\<lparr>tables := d\<rparr>) = (begin_tx env s)\<lparr>tables := d\<rparr>"
  by (simp add: begin_tx_def step_tick_def)

lemma as_call_error:
  assumes "fault_at env (tick s0) = None" "transfer_body env arg ((begin_tx env s0)\<lparr>tables := d\<rparr>) = (Inl e, s1)"
  shows "\<exists>s'. phase_step env arg Move (s0\<lparr>tables := d\<rparr>) = (after_move (Inl e), s') \<and> tables s' = d"
  using assms by (simp add: phase_step_Move execTx_defs BeginTxFunc_def begin_tx_tables del: phase_step.simps(2))

lemma begin_fault:
  assumes "fault_at env (tick s0) = Some m"
  shows "\<exists>s'. phase_step env arg Move (s0\<lparr>tables := d\<rparr>) = (after_move (Inl (DriverError m)), s') \<and> tables s' = d"
  using assms by (simp add: phase_step_Move execTx_defs BeginTxFunc_def del: phase_step.simps(2))

lemma outside_reads:
  assumes "phase_step env arg ph s = (ph', s')" "ph \<noteq> Move"
  shows "tables s' = tables s"
  using assms
  by (cases ph) (auto simp: map_error_def split: prod.splits sum.splits if_splits dest: lookup_key_eq(1) GetAccount_same)

lemma begun_unlocked [simp]: "locked_rows (begin_tx env s) = {}"
  by (simp add: locked_rows_eq)

lemma reach_body:
  assumes "tx_reach env d (transfer_prog arg) (begin_tx env s0) (Stop r) s w" "distinct (map acc_id (accounts d))"
  shows "transfer_body env arg ((begin_tx env s0)\<lparr>tables := d\<rparr>) = (r, s\<lparr>tables := overlay d w\<rparr>)"
  using tx_reach_run [OF assms(1) _ assms(2)] by (simp add: run_transfer_prog lift_res_def)

lemma move_to_sel [simp]:
  "cl_arg (move_to c st s) = cl_arg c" "cl_env (move_to c st s) = cl_env c" "cl_stage (move_to c st s) = st"
  "cl_pg (move_to c st s) = s"
  by (simp_all add: move_to_def)

text \<open>Outside its transaction, and when it begins, a client leaves the tables alone.\<close>

lemma begin_ok:
  assumes "cl_stage c = At Move"
  shows "client_ok d (begin_move c) \<and> as_call c d (begin_move c) d \<and>
    open_rows (begin_move c) = {} \<and> write_keys (open_writes (begin_move c)) = {}"
proof (cases "fault_at (cl_env c) (tick (cl_pg c))")
  case None
  then have "tx_reach (cl_env c) d (transfer_prog (cl_arg c)) (begin_tx (cl_env c) (cl_pg c)) (transfer_prog (cl_arg c))
      (begin_tx (cl_env c) (cl_pg c)) no_writes" by (intro Begun)
  moreover have "(case transfer_prog (cl_arg c) of Stop (Inl e) \<Rightarrow> after_move (Inl e) | _ \<Rightarrow> Move) = Move"
    by (simp add: transfer_prog_def lock_prog_def ask_def)
  moreover have "tx_within d s no_writes" for s
    unfolding tx_within_def by (simp add: no_writes_def write_keys_def row_keys_def)
  ultimately show ?thesis
    using None assms
    by (auto simp: begin_move_def client_ok_def as_call_def shown_def open_rows_def open_writes_def)
next
  case (Some m)
  with assms begin_fault [OF Some, of "cl_arg c" d] show ?thesis
    by (simp add: begin_move_def client_ok_def as_call_def shown_def open_rows_def open_writes_def del: phase_step.simps)
      fastforce
qed

lemma outside_ok:
  assumes "cl_stage c = At ph" "ph \<noteq> Move"
  shows "client_ok d (call_outside c ph d) \<and> as_call c d (call_outside c ph d) d \<and>
    open_rows (call_outside c ph d) = {} \<and> write_keys (open_writes (call_outside c ph d)) = {}"
proof -
  obtain ph' s' where run: "phase_step (cl_env c) (cl_arg c) ph ((cl_pg c)\<lparr>tables := d\<rparr>) = (ph', s')" by fastforce
  have "tables s' = d" using outside_reads [OF run assms(2)] by simp
  then have "\<exists>s s'. phase_step (cl_env c) (cl_arg c) ph s = (ph', s') \<and> tables s = d \<and> tables s' = d"
    using run by (intro exI [of _ "(cl_pg c)\<lparr>tables := d\<rparr>"] exI [of _ s']) simp
  then show ?thesis
    using assms run
    by (simp add: call_outside_def client_ok_def as_call_def shown_def open_rows_def open_writes_def)
qed

text \<open>A statement of the transaction: when it makes the program fail, the transaction as a whole fails like that.\<close>

lemma statement_ok:
  assumes c: "cl_stage c = In_Tx (Call st k) w" "client_ok d c" and d: "distinct (map acc_id (accounts d))"
    and step: "tx_step (cl_env c) d st (cl_pg c) w = (r, s', w')"
  defines "c' \<equiv> move_to c (In_Tx (k r) w') s'"
  shows "client_ok d c' \<and> as_call c d c' d \<and> open_rows c' \<subseteq> open_rows c \<union> locks_row st \<and>
    write_keys (open_writes c') \<subseteq> write_keys (open_writes c) \<union> stmt_keys (uuid_at (cl_env c) (tick (cl_pg c))) st"
proof -
  let ?s = "cl_pg c"
  obtain s0 where up: "fault_at (cl_env c) (tick s0) = None"
    and reach: "tx_reach (cl_env c) d (transfer_prog (cl_arg c)) (begin_tx (cl_env c) s0) (Call st k) ?s w"
    using c by (auto simp: client_ok_def)
  have facts: "disciplined (locked_rows ?s) (Call st k)" "tx_within d ?s w" "tx_start ?s \<noteq> None"
    using tx_reach_facts [OF reach] transfer_prog_disciplined [of "cl_arg c"] by simp_all
  have going: "tx_reach (cl_env c) d (transfer_prog (cl_arg c)) (begin_tx (cl_env c) s0) (k r) s' w'"
    by (rule Went_On [OF reach step])
  have "tx_within d s' w'" using tx_step_within [OF step facts(3) _ facts(2)] facts(1) by simp
  then have ok: "client_ok d c'" using going up by (auto simp: client_ok_def c'_def)
  have grow: "open_rows c' \<subseteq> open_rows c \<union> locks_row st \<and>
    write_keys (open_writes c') \<subseteq> write_keys (open_writes c) \<union> stmt_keys (uuid_at (cl_env c) (tick ?s)) st"
    using step facts(3)
  proof (cases rule: tx_step_cases)
    case (answer a)
    then show ?thesis using exec_keys [OF answer(7), of w] c(1) by (simp add: open_rows_def open_writes_def c'_def)
  next
    case (error e)
    then show ?thesis using c(1) by (simp add: open_rows_def open_writes_def c'_def)
  qed
  have "as_call c d c' d"
  proof (cases "\<exists>e. k r = Stop (Inl e)")
    case True
    then obtain e where e: "k r = Stop (Inl e)" by blast
    from as_call_error [OF up reach_body [OF going [unfolded e] d]] obtain s2
      where "phase_step (cl_env c) (cl_arg c) Move (s0\<lparr>tables := d\<rparr>) = (after_move (Inl e), s2)" "tables s2 = d" by blast
    moreover have "snd (shown c) = Move" "snd (shown c') = after_move (Inl e)"
      using c(1) e by (simp_all add: shown_def c'_def)
    moreover have "tables (s0\<lparr>tables := d\<rparr>) = d" by simp
    ultimately show ?thesis unfolding as_call_def by (metis c'_def move_to_sel(1,2))
  next
    case False
    then have "shown c' = shown c"
      using c(1) by (auto simp: shown_def c'_def split: prog.splits sum.splits)
    then show ?thesis by (simp add: as_call_def c'_def)
  qed
  with ok grow show ?thesis by blast
qed

text \<open>The end of the transaction: a commit takes effect as a whole, at once.\<close>

lemma end_ok:
  assumes c: "cl_stage c = In_Tx (Stop r) w" "client_ok d c" and d: "distinct (map acc_id (accounts d))"
    and fin: "end_move c r w d = (c', d')"
  shows "client_ok d' c' \<and> as_call c d c' d' \<and> open_rows c' = {} \<and> write_keys (open_writes c') = {} \<and>
    (d' = d \<or> (d' = committed_db (cl_pg c) d w \<and> tx_within d (cl_pg c) w))"
proof (cases r)
  case (Inl e)
  then show ?thesis
    using c fin by (auto simp: client_ok_def as_call_def shown_def open_rows_def open_writes_def)
next
  case (Inr x)
  let ?s = "cl_pg c" and ?env = "cl_env c"
  obtain s0 where up: "fault_at ?env (tick s0) = None"
    and reach: "tx_reach ?env d (transfer_prog (cl_arg c)) (begin_tx ?env s0) (Stop (Inr x)) ?s w"
    using c Inr by (auto simp: client_ok_def)
  have within: "tx_within d ?s w" using c by (simp add: client_ok_def)
  have body: "transfer_body ?env (cl_arg c) (begin_tx ?env (s0\<lparr>tables := d\<rparr>)) = (Inr x, ?s\<lparr>tables := overlay d w\<rparr>)"
    using reach_body [OF reach d] by (simp add: begin_tx_tables)
  have pub: "publish_pending (step_tick (?s\<lparr>tables := overlay d w\<rparr>)) = committed_db ?s d w"
    by (simp add: publish_pending_def committed_db_def overlay_def step_tick_def)
  have call: "\<exists>s'. phase_step ?env (cl_arg c) Move (s0\<lparr>tables := d\<rparr>) = (snd (shown c'), s') \<and> tables s' = d'"
    using up body fin Inr pub
    by (auto simp: Let_def phase_step_Move execTx_defs BeginTxFunc_def shown_def simp del: phase_step.simps
        split: commit_outcome.splits)
  have "snd (shown c) = Move" using c(1) Inr by (simp add: shown_def)
  moreover have "cl_arg c' = cl_arg c \<and> cl_env c' = cl_env c"
    using fin Inr by (auto simp: Let_def split: commit_outcome.splits)
  moreover have "tables (s0\<lparr>tables := d\<rparr>) = d" by simp
  ultimately have "as_call c d c' d'" using call unfolding as_call_def by metis
  then show ?thesis
    using fin Inr within by (auto simp: Let_def client_ok_def open_rows_def open_writes_def split: commit_outcome.splits)
qed

subsection \<open>The other clients\<close>

lemma client_undisturbed:
  assumes "client_ok d c" "undisturbed (open_rows c) (write_keys (open_writes c)) d d'"
  shows "client_ok d' c"
proof (cases "cl_stage c")
  case (In_Tx p w)
  have "failed p \<or> tx_reach (cl_env c) d' (transfer_prog (cl_arg c)) (begin_tx (cl_env c) s0) p (cl_pg c) w"
    if "tx_reach (cl_env c) d (transfer_prog (cl_arg c)) (begin_tx (cl_env c) s0) p (cl_pg c) w" for s0
    using tx_reach_undisturbed [OF that] transfer_prog_disciplined assms(2) In_Tx
    by (auto simp: open_rows_def open_writes_def)
  moreover have "tx_within d' (cl_pg c) w"
    using assms In_Tx by (auto simp: client_ok_def tx_within_def open_rows_def open_writes_def undisturbed_def)
  ultimately show ?thesis using assms(1) In_Tx by (auto simp: client_ok_def)
qed (simp add: client_ok_def)

lemma commit_undisturbed:
  assumes w: "tx_within d s w" and "A \<inter> locked_rows s = {}" "K \<inter> write_keys w = {}" "K \<inter> db_keys d = {}"
  shows "undisturbed A K d (committed_db s d w)"
proof -
  have "find_account i (committed_db s d w) = find_account i d" if "i \<in> A" for i
  proof -
    have "w_balances w i = None" using w that assms(2) by (auto simp: tx_within_def)
    then have "map_option (written_row w) (find_account i d) = find_account i d"
      by (cases "find_account i d") (auto simp: written_row_def dest: find_account_Some)
    moreover have "find_account i (committed_db s d w) = find_account i (overlay d w)"
      by (simp add: committed_db_def find_account_def)
    ultimately show ?thesis by (simp add: find_account_overlay)
  qed
  moreover have "tr_from_account_id t \<notin> A" if "t \<in> set (w_transfers w)" for t
    using w that assms(2) by (auto simp: tx_within_def)
  moreover have "db_keys (committed_db s d w) = db_keys d \<union> write_keys w"
    using keys_overlay by (simp add: committed_db_def db_keys_def)
  ultimately show ?thesis using assms(3,4) by (auto simp: undisturbed_def committed_db_def image_image)
qed

section \<open>Every turn is invisible or one whole call\<close>

lemma others_set: "c \<in> set (others n cs) \<longleftrightarrow> (\<exists>m < length cs. m \<noteq> n \<and> c = cs ! m)"
proof
  assume "c \<in> set (others n cs)"
  then consider m where "m < min (length cs) n" "c = cs ! m" | m where "m < length cs - Suc n" "c = cs ! (Suc n + m)"
    by (auto simp: others_def in_set_conv_nth)
  then show "\<exists>m < length cs. m \<noteq> n \<and> c = cs ! m"
  proof cases
    case (2 m)
    then show ?thesis by (intro exI [of _ "Suc n + m"]) auto
  qed auto
next
  assume "\<exists>m < length cs. m \<noteq> n \<and> c = cs ! m"
  then obtain m where m: "m < length cs" "m \<noteq> n" "c = cs ! m" by blast
  show "c \<in> set (others n cs)"
  proof (cases "m < n")
    case True
    then have "take n cs ! m = c" "m < length (take n cs)" using m by auto
    then show ?thesis unfolding others_def by (metis UnI1 nth_mem set_append)
  next
    case False
    then have "drop (Suc n) cs ! (m - Suc n) = c" "m - Suc n < length (drop (Suc n) cs)" using m by auto
    then show ?thesis unfolding others_def by (metis UnI2 nth_mem set_append)
  qed
qed

lemma apart_sym: "apart c c' \<Longrightarrow> apart c' c"
  by (simp add: apart_def Int_commute)

lemma bank_update:
  assumes ok: "bank_ok (cs, d)" and n: "n < length cs" and "books_ok d'" "client_ok d' c'"
    and rest: "\<And>m. m < length cs \<Longrightarrow> m \<noteq> n \<Longrightarrow> client_ok d' (cs ! m) \<and> apart c' (cs ! m)"
  shows "bank_ok (cs[n := c'], d')"
proof -
  have "client_ok d' c" if "c \<in> set (cs[n := c'])" for c
    using that rest assms(4) n by (auto simp: in_set_conv_nth nth_list_update)
  moreover have "apart (cs[n := c'] ! i) (cs[n := c'] ! j)" if "i < length cs" "j < length cs" "i \<noteq> j" for i j
  proof (cases "i = n \<or> j = n")
    case True
    then show ?thesis using that rest n apart_sym by (metis nth_list_update_eq nth_list_update_neq)
  next
    case False
    then show ?thesis using that ok by (simp add: bank_ok_def)
  qed
  ultimately show ?thesis using assms(3) by (simp add: bank_ok_def)
qed

lemma apart_less:
  "apart c e \<Longrightarrow> open_rows c' \<subseteq> open_rows c \<Longrightarrow> write_keys (open_writes c') \<subseteq> write_keys (open_writes c) \<Longrightarrow> apart c' e"
  by (auto simp: apart_def)

lemma phase_step_books:
  assumes "phase_step env arg ph s = (ph', s')" "books_ok (tables s)"
  shows "books_ok (tables s')"
proof (cases "ph = Move")
  case True
  obtain r s1 where run: "execTx env (transfer_body env arg) s = (r, s1)" by fastforce
  have "books_ok (tables s1)"
    using keepsD [OF transfer_books.execTx_keeps _ run] assms(2) by (simp add: on_tables_def)
  then show ?thesis using assms(1) True run by (simp add: phase_step_Move del: phase_step.simps)
qed (use assms outside_reads in metis)

lemma as_call_books: "as_call c d c' d' \<Longrightarrow> books_ok d \<Longrightarrow> books_ok d'"
  unfolding as_call_def using phase_step_books by blast

lemma turn_as_call:
  assumes ok: "bank_ok (cs, d)" and n: "n < length cs"
  shows "\<exists>c' d'. turn n (cs, d) = (cs[n := c'], d') \<and> bank_ok (cs[n := c'], d') \<and> as_call (cs ! n) d c' d'"
proof -
  let ?c = "cs ! n"
  have c: "client_ok d ?c" and books: "books_ok d" using ok n by (auto simp: bank_ok_def)
  have ids: "distinct (map acc_id (accounts d))"
    using books by (simp add: books_ok_def schema_ok_def accounts_ok_def)
  have rest: "client_ok d (cs ! m)" "apart ?c (cs ! m)" if "m < length cs" "m \<noteq> n" for m
    using ok n that by (auto simp: bank_ok_def)
  have same: ?thesis if "turn n (cs, d) = (cs[n := c'], d)" "client_ok d c' \<and> as_call ?c d c' d"
    "open_rows c' \<subseteq> open_rows ?c" "write_keys (open_writes c') \<subseteq> write_keys (open_writes ?c)" for c'
    using that bank_update [OF ok n books, of c'] rest apart_less by blast
  show ?thesis
  proof (cases "cl_stage ?c")
    case (At ph)
    show ?thesis
    proof (cases "ph = Move")
      case True
      then show ?thesis
        using same [of "begin_move ?c"] begin_ok [of ?c d] At by (simp add: turn_def)
    next
      case False
      then show ?thesis
        using same [of "call_outside ?c ph d"] outside_ok [OF At False, of d] At by (simp add: turn_def)
    qed
  next
    case (In_Tx p w)
    show ?thesis
    proof (cases p)
      case (Stop r)
      obtain c' d' where fin: "end_move ?c r w d = (c', d')" by fastforce
      note e = end_ok [OF In_Tx [unfolded Stop] c ids fin]
      then have calls: "as_call ?c d c' d'" by blast
      have "client_ok d' (cs ! m) \<and> apart c' (cs ! m)" if m: "m < length cs" "m \<noteq> n" for m
      proof -
        let ?A = "open_rows (cs ! m)" and ?K = "write_keys (open_writes (cs ! m))"
        have "apart c' (cs ! m)" using e by (simp add: apart_def)
        moreover have "client_ok d' (cs ! m)"
        proof (cases "d' = d")
          case False
          then have d': "d' = committed_db (cl_pg ?c) d w" "tx_within d (cl_pg ?c) w" using e by auto
          have "?K \<inter> db_keys d = {}"
            using rest(1) [OF m] by (auto simp: client_ok_def open_writes_def tx_within_def split: stage.splits)
          then have "undisturbed ?A ?K d d'"
            using commit_undisturbed [OF d'(2)] rest(2) [OF m] In_Tx
            by (simp add: d'(1) apart_def open_rows_def open_writes_def Int_commute)
          then show ?thesis by (rule client_undisturbed [OF rest(1) [OF m]])
        qed (use rest m in simp)
        ultimately show ?thesis by simp
      qed
      moreover have "books_ok d'" using as_call_books [OF calls books] .
      moreover have "turn n (cs, d) = (cs[n := c'], d')" using In_Tx Stop fin by (simp add: turn_def)
      ultimately show ?thesis using e calls bank_update [OF ok n, of d' c'] by blast
    next
      case (Call st k)
      let ?u = "uuid_at (cl_env ?c) (tick (cl_pg ?c))"
      obtain r s' w' where step: "tx_step (cl_env ?c) d st (cl_pg ?c) w = (r, s', w')"
        using prod_cases3 by blast
      let ?c' = "move_to ?c (In_Tx (k r) w') s'"
      show ?thesis
      proof (cases "may_run st ?u (others n cs)")
        case True
        note st = statement_ok [OF In_Tx [unfolded Call] c ids step]
        have "apart ?c' (cs ! m)" if m: "m < length cs" "m \<noteq> n" for m
        proof -
          have "cs ! m \<in> set (others n cs)" using m by (auto simp: others_set)
          then have "locks_row st \<inter> open_rows (cs ! m) = {}" "stmt_keys ?u st \<inter> write_keys (open_writes (cs ! m)) = {}"
            using True by (cases st; auto simp: may_run_def)+
          then show ?thesis using rest(2) [OF m] st unfolding apart_def by blast
        qed
        then have "bank_ok (cs[n := ?c'], d)" using bank_update [OF ok n books, of ?c'] st rest(1) by blast
        then show ?thesis using st In_Tx Call True step by (simp add: turn_def) blast
      next
        case False
        then have "turn n (cs, d) = (cs[n := ?c], d)" using In_Tx Call by (simp add: turn_def)
        then show ?thesis using same [of ?c] c by (simp add: as_call_def)
      qed
    qed
  qed
qed

lemma elsewhere_ok: "bank_ok (cs, d) \<Longrightarrow> elsewhere cs d d' \<Longrightarrow> bank_ok (cs, d')"
  using client_undisturbed by (auto simp: bank_ok_def elsewhere_def)

lemma bank_step_ok: "bank_step q q' \<Longrightarrow> bank_ok q \<Longrightarrow> bank_ok q'"
  by (induction rule: bank_step.induct) (metis turn_as_call, blast intro: elsewhere_ok)

definition bank_start :: "(transfer_params \<times> pg_env) list \<Rightarrow> db \<Rightarrow> bank" where
  "bank_start ps d = (map new_client ps, d)"

lemma bank_start_ok: "books_ok d \<Longrightarrow> bank_ok (bank_start ps d)"
  by (auto simp: bank_ok_def bank_start_def client_ok_def new_client_def apart_def open_rows_def open_writes_def)

lemma bank_reachable_ok: "bank_step\<^sup>*\<^sup>* (bank_start ps d) q \<Longrightarrow> books_ok d \<Longrightarrow> bank_ok q"
  by (induction rule: rtranclp_induct) (auto intro: bank_start_ok bank_step_ok)

text \<open>What a call of the transaction commits, as one step on the tables committed before.\<close>

lemma execTx_commits:
  assumes run: "execTx env (transfer_body env arg) s = (r, s')" and ok: "schema_ok (tables s)"
    and "tables s' \<noteq> tables s"
  shows "\<exists>k l res. k < l \<and> committed arg (time_at env k) (tables s) res (tables s') \<and>
    checks_passed arg (time_at env l) (tables s) \<and> (r = Inr res \<or> (\<exists>m. r = Inl (DriverError m)))"
proof (cases r)
  case (Inr res)
  from run [unfolded Inr] obtain s1 where s1: "transfer_body env arg (begin_tx env s) = (Inr res, s1)"
    "s' = commit (step_tick s1)" by (rule execTx_InrE)
  then show ?thesis using transfer_commit [OF s1(1) ok] assms(3) Inr by blast
next
  case (Inl e)
  from run [unfolded Inl] show ?thesis
  proof (cases rule: execTx_InlE)
    case (lost m x s1)
    then show ?thesis using transfer_commit [OF lost(2) ok] assms(3) Inl by blast
  qed (use assms(3) in auto)
qed

text \<open>A turn that changes the committed tables is the commit of one whole transfer.\<close>

lemma turn_commits:
  assumes "bank_step\<^sup>*\<^sup>* (bank_start ps d0) (cs, d)" and "books_ok d0"
    and n: "n < length cs" and turn: "turn n (cs, d) = (cs', d')" and "d' \<noteq> d"
  shows "\<exists>k l res. k < l \<and>
    committed (cl_arg (cs ! n)) (time_at (cl_env (cs ! n)) k) d res d' \<and>
    checks_passed (cl_arg (cs ! n)) (time_at (cl_env (cs ! n)) l) d \<and>
    (snd (shown (cs' ! n)) = Returned (Inr res) \<or> (\<exists>m. snd (shown (cs' ! n)) = Returned (Inl (DriverError m))))"
proof -
  have ok: "bank_ok (cs, d)" by (rule bank_reachable_ok [OF assms(1,2)])
  then have schema: "schema_ok d" by (simp add: bank_ok_def books_ok_def)
  from turn_as_call [OF ok n] turn obtain c' where cs': "cs' = cs[n := c']" and call: "as_call (cs ! n) d c' d'" by auto
  let ?c = "cs ! n"
  from call \<open>d' \<noteq> d\<close> obtain s s' where step: "phase_step (cl_env ?c) (cl_arg ?c) (snd (shown ?c)) s = (snd (shown c'), s')"
    and t: "tables s = d" "tables s' = d'" unfolding as_call_def by blast
  have move: "snd (shown ?c) = Move" using outside_reads [OF step] t \<open>d' \<noteq> d\<close> by blast
  obtain r s1 where run: "execTx (cl_env ?c) (transfer_body (cl_env ?c) (cl_arg ?c)) s = (r, s1)" by fastforce
  then have "s1 = s'" "after_move r = snd (shown c')"
    using step move by (simp_all add: phase_step_Move del: phase_step.simps)
  then have shown: "snd (shown (cs' ! n)) = after_move r" using n cs' by simp
  obtain k l res where "k < l" "committed (cl_arg ?c) (time_at (cl_env ?c) k) d res d'"
    "checks_passed (cl_arg ?c) (time_at (cl_env ?c) l) d" "r = Inr res \<or> (\<exists>m. r = Inl (DriverError m))"
    using execTx_commits [OF run] schema t \<open>d' \<noteq> d\<close> \<open>s1 = s'\<close> by metis
  moreover from this(4) have "snd (shown (cs' ! n)) = Returned (Inr res) \<or> (\<exists>m. snd (shown (cs' ! n)) = Returned (Inl (DriverError m)))"
    unfolding shown by (auto simp: after_move_def)
  ultimately show ?thesis by blast
qed

section \<open>What stays true of the requests\<close>

lemma race_ok_tables: "race_ok args ts0 (rs, s) \<Longrightarrow> tables s' = tables s \<Longrightarrow> race_ok args ts0 (rs, s')"
  by (simp add: race_ok_def)

lemma turn_race_ok:
  assumes ok: "bank_ok (cs, d)" and n: "n < length cs" and turn: "turn n (cs, d) = (cs', d')"
    and race: "race_ok args ts0 (map shown cs, connect_db d)"
  shows "race_ok args ts0 (map shown cs', connect_db d')"
proof -
  from turn_as_call [OF ok n] turn obtain c' where cs': "cs' = cs[n := c']" and call: "as_call (cs ! n) d c' d'" by auto
  show ?thesis
  proof (cases "shown c' = shown (cs ! n) \<and> d' = d")
    case True
    then have "map shown cs' = map shown cs" using n by (simp add: cs' map_update) (metis list_update_id nth_map)
    then show ?thesis using race True by simp
  next
    case False
    with call obtain s s' where arg: "cl_arg c' = cl_arg (cs ! n)"
      and step: "phase_step (cl_env (cs ! n)) (cl_arg (cs ! n)) (snd (shown (cs ! n))) s = (snd (shown c'), s')"
      and t: "tables s = d" "tables s' = d'" unfolding as_call_def by blast
    have fsts: "shown c = (cl_arg c, snd (shown c))" for c by (simp add: shown_def)
    have "race_step (cl_env (cs ! n)) (map shown cs, s) ((map shown cs)[n := (cl_arg (cs ! n), snd (shown c'))], s')"
      using n step fsts [of "cs ! n"] by (intro race_step.Turn) simp_all
    moreover have "(map shown cs)[n := (cl_arg (cs ! n), snd (shown c'))] = map shown cs'"
      using fsts [of c'] arg by (simp add: cs' map_update)
    ultimately show ?thesis
      using race_step_ok race_ok_tables [OF race, of s] race_ok_tables [of args ts0 "map shown cs'" s' "connect_db d'"] t by simp
  qed
qed

lemma bank_race_ok:
  assumes "bank_step\<^sup>*\<^sup>* (bank_start ps d0) q" "books_ok d0"
  shows "race_ok (map fst ps) (transfers d0) (map shown (fst q), connect_db (snd q))"
  using assms(1)
proof (induction rule: rtranclp_induct)
  case base
  have "race_ok (map fst ps) (transfers d0) (race_start (map fst ps) (connect_db d0))"
    using race_reachable_ok [of undefined "map fst ps" "connect_db d0"] assms(2) by simp
  then show ?case
    by (simp add: race_start_def bank_start_def new_client_def shown_def comp_def)
next
  case (step q q')
  have ok: "bank_ok q" by (rule bank_reachable_ok [OF step.hyps(1) assms(2)])
  show ?case
    using step.hyps(2) ok step.IH
  proof (induction rule: bank_step.induct)
    case (Turn n cs d)
    obtain cs' d' where "turn n (cs, d) = (cs', d')" by fastforce
    then show ?case using turn_race_ok [OF Turn.prems(1) Turn.hyps] Turn.prems(2) by simp
  next
    case (Elsewhere cs d d')
    then show ?case by (simp add: race_ok_def elsewhere_def)
  qed
qed

end
