(* ===== verification/Interleaved_Payments.thy ===== *)
theory Interleaved_Payments
  imports Transfer_Interleaving Transfer_Witnesses
begin

text \<open>
  What the interleaving of statements cannot break: every commit is one whole transfer, a request is paid
  at most once, the daily limit holds. The witnesses run two opposite transfers at the
  same time, the second one waiting for the first one's row lock.
\<close>

text \<open>
  C2 (refinement). Statements may interleave, transfers do not. Let any transfer requests run at the same
  time, statement by statement, each seeing what is committed at each of its statements and its own writes, waiting only for
  row locks and for keys that others have just inserted, through any failures. Whenever the committed
  tables change by a step of a request, one whole transfer of that request has happened to them: its
  checks hold of, and its rows, balances and notifications are computed from, exactly the tables as they
  were committed at that moment, however they have changed since the transaction began.
\<close>

theorem interleaved_commits:
  assumes "bank_step\<^sup>*\<^sup>* (bank_start ps d0) (cs, d)" and "books_ok d0"
    and n: "n < length cs" and turn: "turn n (cs, d) = (cs', d')" and "d' \<noteq> d"
  shows "\<exists>k l res. k < l \<and>
    committed (cl_arg (cs ! n)) (time_at (cl_env (cs ! n)) k) d res d' \<and>
    checks_passed (cl_arg (cs ! n)) (time_at (cl_env (cs ! n)) l) d \<and>
    (snd (shown (cs' ! n)) = Returned (Inr res) \<or> (\<exists>m. snd (shown (cs' ! n)) = Returned (Inl (DriverError m))))"
  by (rule turn_commits [OF assms])

text \<open>
  C3 (safety). Racing requests pay once. Let any requests run at the same time, repeated or not, statement by
  statement, interleaved in any order with each other and with everything else in the bank, through any
  failures: the books stay in order; every new transfer is what one of the requests asked for, and no two
  transfers have the same source and key; and whoever was told of a success finds exactly the transfer they
  asked for in the table, the same one for all requests with that source and key.
\<close>

theorem interleaved_requests_pay_once:
  assumes "bank_step\<^sup>*\<^sup>* (bank_start ps d0) (cs, d)" and "books_ok d0"
  shows "books_ok d \<and> distinct (map transfer_key (transfers d)) \<and>
    (\<exists>new. transfers d = transfers d0 @ new \<and> (\<forall>t \<in> set new. \<exists>arg \<in> set (map fst ps). pays arg t)) \<and>
    (\<forall>c \<in> set cs. \<forall>res. cl_stage c = At (Returned (Inr res)) \<longrightarrow>
       [t \<leftarrow> transfers d. transfer_key t = (par_from_account_id (cl_arg c), par_idempotency_key (cl_arg c))] =
         [res_transfer res] \<and> pays (cl_arg c) (res_transfer res))"
proof -
  have shown: "(cl_arg c, Returned (Inr res)) \<in> set (map shown cs)"
    if "c \<in> set cs" "cl_stage c = At (Returned (Inr res))" for c res
    using that by (force simp: shown_def)
  show ?thesis
    using race_ok_pays_once [OF bank_race_ok [OF assms, simplified]] shown by simp
qed

section \<open>The moment of the check\<close>

text \<open>
  A transfer that is checked against a daily limit and posted makes ten calls of the database from the
  sum of the outgoing transfers on, the sum included.
\<close>

lemma run_sql_tick: "run_sql env q s = (r, s') \<Longrightarrow> tick s' = Suc (tick s)"
  by (auto simp: run_sql_def step_tick_def split: option.splits sum.splits prod.splits)

lemma post_transfer_tick:
  assumes "post_transfer env arg s = (Inr res, s')"
  shows "tick s' = tick s + 9"
  using assms
  by (auto simp: post_transfer_def move_rows_def notify_side_def andthen_Inr ret_def CreateTransfer_def
      CreateEntry_def AddAccountBalance_def CreateNotification_def PublishNotification_def enqueue_notify_def
      dest!: run_sql_tick split: option.splits)

lemma transfer_checks_tick:
  assumes "transfer_checks env arg a b s = (Inr u, s')" "0 < par_daily_limit arg"
  shows "tick s' = Suc (tick s)"
  using assms
  by (auto simp: transfer_checks_def check_daily_limit_def andthen_Inr ret_def raise_def SumOutgoingTransfersSince_def
      dest!: run_sql_tick split: if_splits)

lemma transfer_body_checked:
  assumes run: "transfer_body env arg s = (Inr res, s')" and "0 < par_daily_limit arg"
    and moved: "tables s' \<noteq> tables s \<or> pending s' \<noteq> pending s"
  shows "10 \<le> tick s' \<and> checks_passed arg (time_at env (tick s' - 10)) (tables s)"
proof -
  let ?f = "par_from_account_id arg" and ?key = "par_idempotency_key arg"
  from run obtain a b s1 where l: "lockAccounts env ?f (par_to_account_id arg) s = (Inr (a, b), s1)"
    and rest: "handle (GetTransferBySourceAndIdempotencyKey env ?f ?key)
       (\<lambda>e. if \<not> errors_is (ClassifyError e) ErrRecordNotFound then raise (ClassifyError e)
          else andthen (transfer_checks env arg a b) (\<lambda>_. post_transfer env arg))
       (\<lambda>x. lift_res (transferReplay x arg a b)) s1 = (Inr res, s')"
    by (auto simp: transfer_body_def andthen_Inr)
  note l1 = lockAccounts_Inr [OF l]
  obtain r s2 where g: "GetTransferBySourceAndIdempotencyKey env ?f ?key s1 = (r, s2)" by fastforce
  then have same: "tables s2 = tables s1" "pending s2 = pending s1"
    by (cases r; auto simp: GetTransferBySourceAndIdempotencyKey_def dest: run_query_row_Inr run_query_row_Inl)+
  have "\<exists>e. r = Inl e"
  proof (rule ccontr)
    assume "\<nexists>e. r = Inl e"
    then have "s' = s2" using rest g by (cases r) (auto simp: handle_def lift_res_def)
    then show False using moved same l1 by simp
  qed
  then obtain s3 where c: "transfer_checks env arg a b s2 = (Inr (), s3)" and p: "post_transfer env arg s3 = (Inr res, s')"
    using rest g by (auto simp: handle_def raise_def andthen_Inr split: if_splits)
  have "tick s' = tick s2 + 10" using post_transfer_tick [OF p] transfer_checks_tick [OF c assms(2)] by simp
  then show ?thesis using transfer_checks_Inr [OF c] l1 same by simp
qed

lemma turn_checked:
  assumes ok: "bank_ok (cs, d)" and n: "n < length cs" and turn: "turn n (cs, d) = (cs', d')" and "d' \<noteq> d"
    and lim: "0 < par_daily_limit (cl_arg (cs ! n))"
  shows "10 \<le> tick (cl_pg (cs ! n)) \<and>
    checks_passed (cl_arg (cs ! n)) (time_at (cl_env (cs ! n)) (tick (cl_pg (cs ! n)) - 10)) d"
proof -
  let ?c = "cs ! n" and ?s = "cl_pg (cs ! n)"
  have c: "client_ok d ?c" and ids: "distinct (map acc_id (accounts d))"
    using ok n by (auto simp: bank_ok_def books_ok_def schema_ok_def accounts_ok_def)
  obtain x w where stage: "cl_stage ?c = In_Tx (Stop (Inr x)) w" and d': "d' = committed_db ?s d w"
    using turn \<open>d' \<noteq> d\<close>
    by (auto simp: turn_def Let_def split: stage.splits prog.splits sum.splits prod.splits commit_outcome.splits
        if_splits elim!: end_move.elims)
  then obtain s0 where "tx_reach (cl_env ?c) d (transfer_prog (cl_arg ?c)) (begin_tx (cl_env ?c) s0) (Stop (Inr x)) ?s w"
    using c by (auto simp: client_ok_def)
  note body = reach_body [OF this ids]
  have "overlay d w \<noteq> d \<or> pending ?s \<noteq> []"
    using \<open>d' \<noteq> d\<close> d' by (auto simp: committed_db_def)
  then show ?thesis using transfer_body_checked [OF body lim] by simp
qed

text \<open>
  C5 (safety). The daily limit cannot be passed by asking for several transfers at a time. On a bank whose
  books were in order when the requests came in, whenever a step of a request with a daily limit, at most
  \<open>MaxSafeMinorUnits\<close> as the configuration enforces, changes the committed tables, however its
  statements have interleaved with those of other requests, the outgoing total of its source over the 24 hours
  before its check, everything committed by then and the new transfer included, is within the limit. The time
  of the check is the database's clock at the statement of this transaction that sums the outgoing transfers,
  ten calls of the database before its commit.
\<close>

theorem interleaved_daily_limit:
  assumes "bank_step\<^sup>*\<^sup>* (bank_start ps d0) (cs, d)" and "books_ok d0"
    and "n < length cs" and "turn n (cs, d) = (cs', d')" and "d' \<noteq> d"
    and "0 < par_daily_limit (cl_arg (cs ! n))" and "par_daily_limit (cl_arg (cs ! n)) \<le> MaxSafeMinorUnits"
  shows "10 \<le> tick (cl_pg (cs ! n)) \<and>
    outgoing_since (par_from_account_id (cl_arg (cs ! n)))
      (time_at (cl_env (cs ! n)) (tick (cl_pg (cs ! n)) - 10) - 24 * 60 * 60 * second) d' \<le> par_daily_limit (cl_arg (cs ! n))"
proof -
  from turn_commits [OF assms(1-5)] obtain k res where
    "committed (cl_arg (cs ! n)) (time_at (cl_env (cs ! n)) k) d res d'" by blast
  then show ?thesis
    using turn_checked [OF bank_reachable_ok [OF assms(1,2)] assms(3-6)] committed_within_limit assms(6,7) by blast
qed

section \<open>Witnesses\<close>

fun turns :: "nat list \<Rightarrow> bank \<Rightarrow> bank" where
  "turns [] q = q"
| "turns (n # ns) q = turns ns (turn n q)"

lemma turn_length: "length (fst (turn n q)) = length (fst q)"
  by (cases q) (auto simp: turn_def Let_def split: stage.split prog.split prod.split)

lemma turns_reach:
  assumes "\<forall>n \<in> set ns. n < length (fst q)"
  shows "bank_step\<^sup>*\<^sup>* q (turns ns q)"
  using assms
proof (induction ns arbitrary: q)
  case (Cons n ns)
  have "bank_step q (turn n q)" using Cons.prems Turn [of n "fst q" "snd q"] by simp
  moreover have "bank_step\<^sup>*\<^sup>* (turn n q) (turns ns (turn n q))"
    using Cons by (simp add: turn_length)
  ultimately show ?case by simp
qed simp

text \<open>Alice pays Bob 30 of her 100 while Bob pays 5 back: the second request waits for the first one's row lock.\<close>

definition other_env :: pg_env where
  "other_env = sample_env\<lparr>uuid_at := (\<lambda>n. word_of_int (2000 + int n))\<rparr>"

definition back_arg :: transfer_params where
  "back_arg = sample_arg\<lparr>par_from_account_id := 11, par_to_account_id := 10, par_amount := 5\<rparr>"

abbreviation two_requests :: bank where
  "two_requests \<equiv> bank_start [(sample_arg, sample_env), (back_arg, other_env)] sample_db"

definition mid :: bank where
  "mid = turns ([0, 0, 0, 1, 1, 1] @ replicate 12 0) two_requests"

definition paid_both :: bank where
  "paid_both = turns (replicate 17 1) (turn 0 mid)"

lemma mid_reach: "bank_step\<^sup>*\<^sup>* two_requests (fst mid, snd mid)"
  using turns_reach [of "[0, 0, 0, 1, 1, 1] @ replicate 12 0" two_requests] by (simp add: mid_def bank_start_def)

text \<open>The next turn of the first client is its commit: what is on the tables, and on its clock, before and after.\<close>

definition commit_view :: "bank \<Rightarrow> nat \<times> transfer_params \<times> int list \<times> int list \<times> nat \<times> int" where
  "commit_view q =
     (case (q, turn 0 q) of ((cs, d), (cs', d')) \<Rightarrow>
        (length cs, cl_arg (cs ! 0), map acc_balance (accounts d), map acc_balance (accounts d'),
         tick (cl_pg (cs ! 0)), outgoing_since 10 (5 * second - 24 * 60 * 60 * second) d'))"

lemma mid_view: "commit_view mid = (2, sample_arg, [100, 0], [70, 30], 15, 30)"
  by code_simp

lemma mid_facts: "length (fst mid) = 2" "cl_arg (fst mid ! 0) = sample_arg"
  "map acc_balance (accounts (snd (turn 0 mid))) = [70, 30]" "map acc_balance (accounts (snd mid)) = [100, 0]"
  "tick (cl_pg (fst mid ! 0)) = 15" "outgoing_since 10 (5 * second - 24 * 60 * 60 * second) (snd (turn 0 mid)) = 30"
  using mid_view by (simp_all add: commit_view_def case_prod_beta)

lemma mid_changed: "snd (turn 0 mid) \<noteq> snd mid"
  using mid_facts(3,4) by fastforce

theorem interleaved_commits_witness:
  "\<exists>k l res. k < l \<and> committed sample_arg (time_at (cl_env (fst mid ! 0)) k) (snd mid) res (snd (turn 0 mid)) \<and>
     checks_passed sample_arg (time_at (cl_env (fst mid ! 0)) l) (snd mid)"
  using interleaved_commits [OF mid_reach sample_books _ _ mid_changed, of 0 "fst (turn 0 mid)"] mid_facts(1,2)
  by auto

text \<open>Alice's limit is 50. Her clock stands at 15 when she commits, so the check was made at 5, which is 5 seconds.\<close>

theorem interleaved_daily_limit_witness:
  "par_daily_limit sample_arg = 50 \<and> tick (cl_pg (fst mid ! 0)) = 15 \<and>
   outgoing_since 10 (time_at (cl_env (fst mid ! 0)) 5 - 24 * 60 * 60 * second) (snd (turn 0 mid)) \<le> 50 \<and>
   outgoing_since 10 (5 * second - 24 * 60 * 60 * second) (snd (turn 0 mid)) = 30"
proof -
  have "par_daily_limit sample_arg = 50" "par_from_account_id sample_arg = 10" "(50::int) \<le> MaxSafeMinorUnits"
    by (simp_all add: sample_arg_def MaxSafe_numeral)
  then show ?thesis
    using interleaved_daily_limit [OF mid_reach sample_books _ _ mid_changed, of 0 "fst (turn 0 mid)"] mid_facts by simp
qed

definition view_of :: "bank \<Rightarrow> int list \<times> int list \<times> bool list" where
  "view_of q = (map tr_amount (transfers (snd q)), map acc_balance (accounts (snd q)),
     map (\<lambda>c. case cl_stage c of At (Returned (Inr res)) \<Rightarrow> True | _ \<Rightarrow> False) (fst q))"

lemma paid_facts: "view_of paid_both = ([30, 5], [75, 25], [True, True])"
  by code_simp

theorem interleaved_requests_pay_once_witness:
  "map acc_balance (accounts (snd paid_both)) = [75, 25] \<and> distinct (map transfer_key (transfers (snd paid_both))) \<and>
   list_all (\<lambda>c. \<exists>t'. pays (cl_arg c) t' \<and>
      [t \<leftarrow> transfers (snd paid_both). transfer_key t = (par_from_account_id (cl_arg c), par_idempotency_key (cl_arg c))] =
        [t']) (fst paid_both)"
proof -
  have "paid_both = turns ([0, 0, 0, 1, 1, 1] @ replicate 13 0 @ replicate 17 1) two_requests"
    by (simp add: paid_both_def mid_def eval_nat_numeral)
  then have reach: "bank_step\<^sup>*\<^sup>* two_requests (fst paid_both, snd paid_both)"
    using turns_reach [of "[0, 0, 0, 1, 1, 1] @ replicate 13 0 @ replicate 17 1" two_requests] by (simp add: bank_start_def)
  note paid = interleaved_requests_pay_once [OF reach sample_books]
  have "\<exists>t'. pays (cl_arg c) t' \<and>
      [t \<leftarrow> transfers (snd paid_both). transfer_key t = (par_from_account_id (cl_arg c), par_idempotency_key (cl_arg c))] =
        [t']" if c: "c \<in> set (fst paid_both)" for c
  proof -
    have "\<forall>b \<in> set (snd (snd (view_of paid_both))). b" by (simp add: paid_facts)
    then have "case cl_stage c of At (Returned (Inr res)) \<Rightarrow> True | _ \<Rightarrow> False" using c by (simp add: view_of_def)
    then obtain res where "cl_stage c = At (Returned (Inr res))" by (auto split: stage.splits phase.splits sum.splits)
    from paid [THEN conjunct2, THEN conjunct2, THEN conjunct2, THEN bspec, OF c, THEN spec, THEN mp, OF this]
    show ?thesis by blast
  qed
  moreover have "map acc_balance (accounts (snd paid_both)) = [75, 25]"
    using paid_facts by (simp only: view_of_def prod.inject)
  ultimately show ?thesis using paid unfolding list_all_iff by (intro conjI ballI) simp_all
qed

end
