(* ===== verification/Interleaved_Progress.thy ===== *)
theory Interleaved_Progress
  imports Interleaved_Payments
begin

text \<open>
  Requests that run at the same time do not wait for each other for ever. \<open>lockAccounts\<close> takes the smaller
  account first, so row locks are taken in ascending order; the keys that a request inserts carry the
  identifier of an account it has locked or an identifier of its own; and every program is finite.
\<close>

section \<open>Locks are taken in ascending order\<close>

primrec ascending :: "uuid set \<Rightarrow> 'a prog \<Rightarrow> bool" where
  "ascending A (Stop r) = True"
| "ascending A (Call st k) =
     ((\<forall>i \<in> locks_row st. \<forall>j \<in> A. j \<le> i) \<and> (\<forall>e. ascending A (k (Inl e))) \<and>
      (\<forall>a. answers st a \<longrightarrow> ascending (A \<union> locks_row st) (k (Inr a))))"

lemma ascending_ask:
  "ascending A (ask g st f) \<longleftrightarrow> (\<forall>i \<in> locks_row st. \<forall>j \<in> A. j \<le> i) \<and>
     (\<forall>a. answers st a \<longrightarrow> ascending (A \<union> locks_row st) (f a))"
  by (simp add: ask_def)

lemma ascending_post: "ascending A (post_prog arg)"
  by (simp add: post_prog_def notify_prog_def ascending_ask)

lemma transfer_prog_ascending: "ascending {} (transfer_prog arg)"
proof -
  have "ascending A (new_transfer_prog arg a b)" for A a b
    by (simp add: new_transfer_prog_def limit_prog_def ascending_ask ascending_post)
  then show ?thesis
    by (auto simp: transfer_prog_def lock_prog_def ascending_ask uuid_string_less_iff split: sum.split)
qed

lemma tx_reach_ascending:
  assumes "tx_reach env d p0 s0 p s w" "disciplined {} p0" "ascending {} p0" "locked_rows s0 = {}" "tx_start s0 \<noteq> None"
  shows "ascending (locked_rows s) p"
  using assms
proof (induction rule: tx_reach.induct)
  case (Went_On st k s w r s' w')
  have "tx_start s \<noteq> None" using tx_reach_facts [OF Went_On.hyps(1)] Went_On.prems by simp
  with Went_On.hyps(2) show ?case
  proof (cases rule: tx_step_cases)
    case (error e)
    then show ?thesis using Went_On.IH Went_On.prems by (simp add: locked_rows_eq)
  next
    case (answer a)
    then show ?thesis using Went_On.IH Went_On.prems by simp
  qed
qed simp

section \<open>Whose keys\<close>

definition own_keys :: "pg_env \<Rightarrow> uuid set \<Rightarrow> row_key set" where
  "own_keys env A =
     (let U = range (uuid_at env) in
      Transfer_Id ` U \<union> Entry_Id ` U \<union> Notification_Id ` U \<union>
      {Transfer_Key i k | i k. i \<in> A} \<union> {Notification_Key t i | t i. i \<in> A})"

lemma stmt_keys_own: "needs st \<subseteq> A \<Longrightarrow> stmt_keys (uuid_at env n) st \<subseteq> own_keys env A"
  by (cases st) (auto simp: own_keys_def)

lemma own_keys_mono: "A \<subseteq> B \<Longrightarrow> own_keys env A \<subseteq> own_keys env B"
  by (auto simp: own_keys_def)

definition strangers :: "pg_env \<Rightarrow> pg_env \<Rightarrow> bool" where
  "strangers env env' \<longleftrightarrow> (\<forall>k l. uuid_at env k \<noteq> uuid_at env' l)"

lemma own_keys_apart: "strangers env env' \<Longrightarrow> A \<inter> A' = {} \<Longrightarrow> own_keys env A \<inter> own_keys env' A' = {}"
  by (auto simp: own_keys_def strangers_def)

lemma tx_reach_keys:
  assumes "tx_reach env d p0 s0 p s w" "disciplined {} p0" "locked_rows s0 = {}" "tx_start s0 \<noteq> None"
  shows "write_keys w \<subseteq> own_keys env (locked_rows s)"
  using assms
proof (induction rule: tx_reach.induct)
  case Begun
  then show ?case by (simp add: no_writes_def write_keys_def row_keys_def)
next
  case (Went_On st k s w r s' w')
  have f: "tx_start s \<noteq> None" "needs st \<subseteq> locked_rows s" using tx_reach_facts [OF Went_On.hyps(1)] Went_On.prems by simp_all
  from Went_On.hyps(2) f(1) show ?case
  proof (cases rule: tx_step_cases)
    case (error e)
    then show ?thesis using Went_On.IH Went_On.prems by (simp add: locked_rows_eq)
  next
    case (answer a)
    have "write_keys w' \<subseteq> write_keys w \<union> stmt_keys (uuid_at env (tick s)) st"
      using exec_keys [OF answer(7), of w] answer(2) by simp
    moreover have "own_keys env (locked_rows s) \<subseteq> own_keys env (locked_rows s')"
      by (rule own_keys_mono) (simp add: answer(4))
    ultimately show ?thesis
      using Went_On.IH Went_On.prems stmt_keys_own [OF f(2), of env "tick s"] by blast
  qed
qed

section \<open>Somebody can go on\<close>

definition can_go :: "nat \<Rightarrow> bank \<Rightarrow> bool" where
  "can_go n q =
     (case q of (cs, d) \<Rightarrow> n < length cs \<and>
        (case cl_stage (cs ! n) of
           At ph \<Rightarrow> (case ph of Returned r \<Rightarrow> False | _ \<Rightarrow> True)
         | In_Tx p w \<Rightarrow>
             (case p of
                Stop r \<Rightarrow> True
              | Call st k \<Rightarrow> may_run st (uuid_at (cl_env (cs ! n)) (tick (cl_pg (cs ! n)))) (others n cs))))"

definition has_returned :: "client \<Rightarrow> bool" where
  "has_returned c = (case cl_stage c of At ph \<Rightarrow> (case ph of Returned r \<Rightarrow> True | _ \<Rightarrow> False) | In_Tx p w \<Rightarrow> False)"

definition waits_at :: "client \<Rightarrow> uuid \<Rightarrow> bool" where
  "waits_at c i \<longleftrightarrow> (\<exists>k w. cl_stage c = In_Tx (Call (Get_Account_For_Update i) k) w)"

lemma call_facts:
  assumes "client_ok d c" "cl_stage c = In_Tx (Call st k) w"
  shows "needs st \<subseteq> open_rows c" "write_keys w \<subseteq> own_keys (cl_env c) (open_rows c)"
    "\<And>i j. i \<in> locks_row st \<Longrightarrow> j \<in> open_rows c \<Longrightarrow> j \<le> i"
proof -
  from assms obtain s0 where reach: "tx_reach (cl_env c) d (transfer_prog (cl_arg c)) (begin_tx (cl_env c) s0)
      (Call st k) (cl_pg c) w" by (auto simp: client_ok_def)
  have rows: "open_rows c = locked_rows (cl_pg c)" using assms(2) by (simp add: open_rows_def)
  note start = begun_unlocked [of "cl_env c" s0]
  have tx: "tx_start (begin_tx (cl_env c) s0) \<noteq> None" by simp
  show "needs st \<subseteq> open_rows c"
    using tx_reach_facts [OF reach] transfer_prog_disciplined [of "cl_arg c"] tx start by (simp add: rows)
  show "write_keys w \<subseteq> own_keys (cl_env c) (open_rows c)"
    unfolding rows by (rule tx_reach_keys [OF reach transfer_prog_disciplined start tx])
  show "\<And>i j. i \<in> locks_row st \<Longrightarrow> j \<in> open_rows c \<Longrightarrow> j \<le> i"
    using tx_reach_ascending [OF reach transfer_prog_disciplined transfer_prog_ascending start tx] by (simp add: rows)
qed

text \<open>Two clients at a statement each: only a row lock can make one wait for the other.\<close>

lemma only_locks_block:
  assumes c: "client_ok d c" "cl_stage c = In_Tx (Call st k) w"
    and e: "client_ok d e" "cl_stage e = In_Tx (Call st' k') w'"
    and "apart c e" "strangers (cl_env c) (cl_env e)"
    and blocks: "\<not> may_run st (uuid_at (cl_env c) n) [e]"
  shows "\<exists>i. waits_at c i \<and> i \<in> open_rows e"
proof -
  have rows: "open_rows c \<inter> open_rows e = {}" using assms(5) by (simp add: apart_def)
  have "stmt_keys (uuid_at (cl_env c) n) st \<inter> write_keys w' = {}"
    using stmt_keys_own [OF call_facts(1) [OF c], of "cl_env c" n] call_facts(2) [OF e]
      own_keys_apart [OF assms(6) rows] by blast
  then obtain i where i: "waits_for st = Some i" "i \<in> open_rows e"
    using blocks e(2) by (auto simp: may_run_def open_writes_def split: option.splits)
  then have "i \<notin> needs st" using call_facts(1) [OF c] rows by blast
  then have "st = Get_Account_For_Update i" using i(1) by (cases st) auto
  then show ?thesis using c(2) i(2) by (auto simp: waits_at_def)
qed

lemma may_run_single: "may_run st u cs \<longleftrightarrow> (\<forall>c \<in> set cs. may_run st u [c])"
  unfolding may_run_def by (auto split: option.splits)

lemma somebody_goes_on:
  assumes ok: "bank_ok (cs, d)"
    and envs: "\<And>m n. m < length cs \<Longrightarrow> n < length cs \<Longrightarrow> m \<noteq> n \<Longrightarrow> strangers (cl_env (cs ! m)) (cl_env (cs ! n))"
  shows "(\<forall>c \<in> set cs. has_returned c) \<or> (\<exists>n. can_go n (cs, d))"
proof (rule ccontr)
  assume stuck: "\<not> ?thesis"
  have at_call: "\<exists>st k w. cl_stage (cs ! n) = In_Tx (Call st k) w" if "n < length cs" "\<not> has_returned (cs ! n)" for n
  proof -
    have "\<not> can_go n (cs, d)" using stuck by blast
    then show ?thesis
      using that by (cases "cl_stage (cs ! n)") (auto simp: can_go_def has_returned_def split: phase.splits prog.splits)
  qed
  have idle: "open_rows c = {}" "write_keys (open_writes c) = {}" if "has_returned c" for c
    using that by (auto simp: has_returned_def open_rows_def open_writes_def split: stage.splits)
  have waits: "\<exists>i m. waits_at (cs ! n) i \<and> m < length cs \<and> i \<in> open_rows (cs ! m) \<and> m \<noteq> n"
    if n: "n < length cs" "\<not> has_returned (cs ! n)" for n
  proof -
    from at_call [OF n] obtain st k w where st: "cl_stage (cs ! n) = In_Tx (Call st k) w" by blast
    let ?u = "uuid_at (cl_env (cs ! n)) (tick (cl_pg (cs ! n)))"
    have "\<not> may_run st ?u (others n cs)" using stuck n st by (auto simp: can_go_def)
    then obtain m where m: "m < length cs" "m \<noteq> n" "\<not> may_run st ?u [cs ! m]"
      by (subst (asm) may_run_single) (auto simp: others_set)
    then have "\<not> has_returned (cs ! m)" using idle by (auto simp: may_run_def split: option.splits)
    from at_call [OF m(1) this] obtain st' k' w' where st': "cl_stage (cs ! m) = In_Tx (Call st' k') w'" by blast
    have "client_ok d (cs ! n)" "client_ok d (cs ! m)" "apart (cs ! n) (cs ! m)"
      using ok n m by (auto simp: bank_ok_def)
    from only_locks_block [OF this(1) st this(2) st' this(3) envs m(3)] n m show ?thesis by blast
  qed
  let ?I = "{i. \<exists>n < length cs. waits_at (cs ! n) i}"
  have "?I \<subseteq> (\<Union>n < length cs. {i. waits_at (cs ! n) i})" by auto
  moreover have "finite {i. waits_at c i}" for c
    by (rule finite_subset [of _ "UNIV :: uuid set"]) simp_all
  ultimately have fin: "finite ?I" by simp
  obtain n where "n < length cs" "\<not> has_returned (cs ! n)" using stuck by (auto simp: in_set_conv_nth)
  then have "?I \<noteq> {}" using waits by blast
  then obtain n where n: "n < length cs" "waits_at (cs ! n) (Max ?I)" using Max_in [OF fin] by blast
  then have "\<not> has_returned (cs ! n)" by (auto simp: waits_at_def has_returned_def)
  from waits [OF n(1) this] n(2) obtain m where m: "m < length cs" "Max ?I \<in> open_rows (cs ! m)" "m \<noteq> n"
    by (auto simp: waits_at_def)
  then have "\<not> has_returned (cs ! m)" using idle by auto
  from waits [OF m(1) this] obtain i l where i: "waits_at (cs ! m) i" "l < length cs" "i \<in> open_rows (cs ! l)" "l \<noteq> m" by blast
  have "client_ok d (cs ! m)" "apart (cs ! m) (cs ! l)" using ok m i by (auto simp: bank_ok_def)
  then have "Max ?I \<le> i" "Max ?I \<noteq> i"
    using call_facts(3) [of d "cs ! m"] i m(2) by (auto simp: waits_at_def apart_def)
  moreover have "i \<le> Max ?I" using fin i(1) m(1) by (intro Max_ge) auto
  ultimately show False by simp
qed

section \<open>How far it can be\<close>

primrec depth_le :: "'a prog \<Rightarrow> nat \<Rightarrow> bool" where
  "depth_le (Stop r) = (\<lambda>n. True)"
| "depth_le (Call st k) = (\<lambda>n. 0 < n \<and> (\<forall>r. depth_le (k r) (n - 1)))"

lemma depth_le_ask: "depth_le (ask g st f) (Suc n) \<longleftrightarrow> (\<forall>a. depth_le (f a) n)"
  by (auto simp: ask_def split: sum.split)

lemma depth_le_mono: "depth_le p m \<Longrightarrow> m \<le> n \<Longrightarrow> depth_le p n"
proof (induction p arbitrary: m n)
  case (Call st k)
  then have "m - 1 \<le> n - 1" "0 < n" by auto
  then show ?case using Call by (metis depth_le.simps(2) rangeI)
qed simp

lemma transfer_prog_depth: "depth_le (transfer_prog arg) 13"
proof -
  have post: "depth_le (post_prog arg) 9"
    by (simp add: post_prog_def notify_prog_def depth_le_ask eval_nat_numeral)
  have "depth_le (new_transfer_prog arg a b) 10" for a b
    using depth_le_mono [OF post, of 10] post
    by (simp add: new_transfer_prog_def limit_prog_def depth_le_ask eval_nat_numeral)
  then show ?thesis
    by (auto simp: transfer_prog_def lock_prog_def depth_le_ask eval_nat_numeral split: sum.split)
qed

text \<open>How many turns a client takes at most from its stage: begin, thirteen statements, end, and a replay.\<close>

fun phase_left :: "phase \<Rightarrow> nat" where
  "phase_left (Returned r) = 0"
| "phase_left (Replay_To x a) = 1"
| "phase_left (Replay_From x) = 2"
| "phase_left (Resolve e) = 3"
| "phase_left Move = 18"
| "phase_left Lookup = 19"

definition turns_left :: "client \<Rightarrow> nat \<Rightarrow> bool" where
  "turns_left c n =
     (case cl_stage c of At ph \<Rightarrow> phase_left ph \<le> n | In_Tx p w \<Rightarrow> 4 \<le> n \<and> depth_le p (n - 4))"

lemma turns_left_mono: "turns_left c m \<Longrightarrow> m \<le> n \<Longrightarrow> turns_left c n"
  by (auto simp: turns_left_def split: stage.splits intro: depth_le_mono)

lemma after_move_left: "phase_left (after_move r) \<le> 3"
  by (simp add: after_move_def split: sum.split)

lemma phase_step_left:
  assumes "phase_step env arg ph s = (ph', s')" "ph \<noteq> Move" "\<nexists>r. ph = Returned r"
  shows "phase_left ph' < phase_left ph"
  using assms by (cases ph) (auto split: prod.splits sum.splits if_splits)

text \<open>A turn of a client that can go on brings it nearer to its end; any other turn changes nothing.\<close>

lemma turn_progress:
  assumes n: "n < length cs" and left: "turns_left (cs ! n) N"
  shows "\<exists>c' d'. turn n (cs, d) = (cs[n := c'], d') \<and> turns_left c' N \<and>
    (can_go n (cs, d) \<longrightarrow> 0 < N \<and> turns_left c' (N - 1))"
proof (cases "cl_stage (cs ! n)")
  case (At ph)
  show ?thesis
  proof (cases "ph = Move")
    case True
    let ?c' = "begin_move (cs ! n)"
    have "phase_left (after_move r) \<le> 17" for r using after_move_left [of r] by linarith
    then have "turns_left ?c' 17"
      using transfer_prog_depth by (auto simp: begin_move_def turns_left_def split: option.split)
    moreover have "18 \<le> N" using left At True by (simp add: turns_left_def)
    ultimately show ?thesis
      using At True by (auto simp: turn_def intro!: exI [of _ ?c'] elim: turns_left_mono)
  next
    case False
    let ?c' = "call_outside (cs ! n) ph d"
    obtain ph' s' where run: "phase_step (cl_env (cs ! n)) (cl_arg (cs ! n)) ph ((cl_pg (cs ! n))\<lparr>tables := d\<rparr>) = (ph', s')"
      by fastforce
    then have c': "cl_stage ?c' = At ph'" by (simp add: call_outside_def)
    have N: "phase_left ph \<le> N" using left At by (simp add: turns_left_def)
    have "turns_left ?c' N \<and> (can_go n (cs, d) \<longrightarrow> 0 < N \<and> turns_left ?c' (N - 1))"
    proof (cases "\<exists>r. ph = Returned r")
      case True
      then have "ph' = ph" using run by auto
      then show ?thesis using True At N c' by (auto simp: can_go_def turns_left_def)
    next
      case other: False
      have "phase_left ph' < phase_left ph" by (rule phase_step_left [OF run False other])
      then have "0 < N" "phase_left ph' \<le> N" "phase_left ph' \<le> N - 1" using N by linarith+
      then show ?thesis using c' by (simp add: turns_left_def)
    qed
    moreover have "turn n (cs, d) = (cs[n := ?c'], d)" using At False by (simp add: turn_def)
    ultimately show ?thesis by blast
  qed
next
  case (In_Tx p w)
  have N: "4 \<le> N" "depth_le p (N - 4)" using left In_Tx by (simp_all add: turns_left_def)
  show ?thesis
  proof (cases p)
    case (Stop r)
    obtain c' d' where fin: "end_move (cs ! n) r w d = (c', d')" by fastforce
    then have "\<exists>r. cl_stage c' = At (after_move r)" by (cases r) (auto simp: Let_def split: commit_outcome.splits)
    then have "turns_left c' 3" using after_move_left by (auto simp: turns_left_def)
    then have "turns_left c' N" "turns_left c' (N - 1)" using N(1) by (auto elim: turns_left_mono)
    moreover have "turn n (cs, d) = (cs[n := c'], d')" using fin In_Tx Stop by (simp add: turn_def)
    moreover have "0 < N" using N(1) by simp
    ultimately show ?thesis by blast
  next
    case (Call st k)
    let ?u = "uuid_at (cl_env (cs ! n)) (tick (cl_pg (cs ! n)))"
    show ?thesis
    proof (cases "may_run st ?u (others n cs)")
      case True
      obtain r s' w' where step: "tx_step (cl_env (cs ! n)) d st (cl_pg (cs ! n)) w = (r, s', w')"
        using prod_cases3 by blast
      have "4 < N" "depth_le (k r) (N - 1 - 4)" using N Call by (auto simp: numeral_eq_Suc)
      then have left1: "turns_left (move_to (cs ! n) (In_Tx (k r) w') s') (N - 1)" by (simp add: turns_left_def)
      then have "turns_left (move_to (cs ! n) (In_Tx (k r) w') s') N" by (rule turns_left_mono) simp
      moreover have "turn n (cs, d) = (cs[n := move_to (cs ! n) (In_Tx (k r) w') s'], d)"
        using In_Tx Call True step by (simp add: turn_def)
      moreover have "0 < N" using \<open>4 < N\<close> by simp
      ultimately show ?thesis using left1 by blast
    next
      case False
      then show ?thesis using In_Tx Call left by (auto simp: turn_def can_go_def intro!: exI [of _ "cs ! n"])
    qed
  qed
qed

section \<open>All requests return\<close>

text \<open>Turns of clients that can go on, one after the other.\<close>

fun effective :: "nat list \<Rightarrow> bank \<Rightarrow> bool" where
  "effective [] q = True"
| "effective (n # ns) q = (can_go n q \<and> effective ns (turn n q))"

lemma can_go_length: "can_go n (cs, d) \<Longrightarrow> n < length cs"
  by (simp add: can_go_def)

lemma effective_bound:
  "length f = length cs \<Longrightarrow> \<forall>i < length cs. turns_left (cs ! i) (f ! i) \<Longrightarrow> effective ns (cs, d) \<Longrightarrow>
    length ns \<le> sum_list f"
proof (induction ns arbitrary: cs d f)
  case (Cons n ns)
  have go: "can_go n (cs, d)" and n: "n < length cs" using Cons.prems(3) can_go_length by auto
  from turn_progress [OF n, of "f ! n" d] Cons.prems(2) n go obtain c' d' where
    t: "turn n (cs, d) = (cs[n := c'], d')" "0 < f ! n" "turns_left c' (f ! n - 1)" by blast
  let ?f = "f[n := f ! n - 1]"
  have "effective ns (cs[n := c'], d')" using Cons.prems(3) t(1) by simp
  moreover have "\<forall>i < length cs. turns_left (cs[n := c'] ! i) (?f ! i)"
    using Cons.prems(1,2) t(3) n by (auto simp: nth_list_update)
  ultimately have "length ns \<le> sum_list ?f" using Cons.IH [of ?f "cs[n := c']" d'] Cons.prems(1) by simp
  moreover have "sum_list ?f + f ! n = sum_list f + (f ! n - 1)"
    using n Cons.prems(1) elem_le_sum_list [of n f] by (simp add: sum_list_update)
  ultimately show ?case using t(2) by simp
qed simp

lemma reach_left:
  assumes "bank_step\<^sup>*\<^sup>* (bank_start ps d0) q"
  shows "\<forall>c \<in> set (fst q). turns_left c 19"
  using assms
proof (induction rule: rtranclp_induct)
  case base
  then show ?case by (simp add: bank_start_def new_client_def turns_left_def)
next
  case (step q q')
  from step.hyps(2) step.IH show ?case
  proof (induction rule: bank_step.induct)
    case (Turn n cs d)
    then obtain c' d' where "turn n (cs, d) = (cs[n := c'], d')" "turns_left c' 19"
      using turn_progress [of n cs 19 d] by auto
    then show ?case using Turn.prems by (auto dest!: set_update_subset_insert [THEN subsetD])
  qed simp
qed

lemma reach_envs:
  assumes "bank_step\<^sup>*\<^sup>* (bank_start ps d0) q" "books_ok d0"
  shows "map cl_env (fst q) = map snd ps"
  using assms(1)
proof (induction rule: rtranclp_induct)
  case base
  then show ?case by (simp add: bank_start_def new_client_def)
next
  case (step q q')
  have "bank_ok q" by (rule bank_reachable_ok [OF step.hyps(1) assms(2)])
  with step.hyps(2) step.IH show ?case
  proof (induction rule: bank_step.induct)
    case (Turn n cs d)
    then obtain c' d' where t: "turn n (cs, d) = (cs[n := c'], d')" "cl_env c' = cl_env (cs ! n)"
      using turn_as_call [of cs d n] by (auto simp: as_call_def)
    have "map cl_env (cs[n := c']) = (map cl_env cs)[n := cl_env (cs ! n)]" by (simp add: map_update t(2))
    also have "\<dots> = map cl_env cs" using Turn.hyps by (simp add: list_update_same_conv)
    finally show ?case using Turn.prems t(1) by simp
  qed simp
qed

text \<open>
  C4 (liveness). Requests that run at the same time all return. Let any transfer requests run statement by
  statement, interleaved with each other and with the rest of the bank, through any failures, with
  identifiers that no two of them share. They are never all stuck: as long as one has not returned, some request can
  go on; and whichever of those that can goes on each time, there are at most nineteen turns for each
  request, and then all have returned.
\<close>

theorem interleaved_requests_return:
  assumes "bank_step\<^sup>*\<^sup>* (bank_start ps d0) (cs, d)" and "books_ok d0"
    and "\<And>m n. m < length ps \<Longrightarrow> n < length ps \<Longrightarrow> m \<noteq> n \<Longrightarrow> strangers (snd (ps ! m)) (snd (ps ! n))"
  shows "((\<forall>c \<in> set cs. has_returned c) \<or> (\<exists>n. can_go n (cs, d))) \<and>
    (\<forall>ns. effective ns (cs, d) \<longrightarrow> length ns \<le> 19 * length cs)"
proof -
  have envs: "map cl_env cs = map snd ps" using reach_envs [OF assms(1,2)] by simp
  then have len: "length cs = length ps" by (metis length_map)
  have "cl_env (cs ! n) = snd (ps ! n)" if "n < length cs" for n
    using that len arg_cong [OF envs, of "\<lambda>xs. xs ! n"] by simp
  then have "(\<forall>c \<in> set cs. has_returned c) \<or> (\<exists>n. can_go n (cs, d))"
    using somebody_goes_on [OF bank_reachable_ok [OF assms(1,2)]] assms(3) len by simp
  moreover have "length ns \<le> 19 * length cs" if "effective ns (cs, d)" for ns
    using effective_bound [of "replicate (length cs) 19" cs ns d] reach_left [OF assms(1)] that
    by (simp add: sum_list_replicate)
  ultimately show ?thesis by blast
qed

section \<open>Witness\<close>

text \<open>Identifiers that two requests cannot share: even ones and odd ones.\<close>

definition even_env :: pg_env where
  "even_env = sample_env\<lparr>uuid_at := (\<lambda>n. word_of_int (1000 + 2 * int n))\<rparr>"

definition odd_env :: pg_env where
  "odd_env = sample_env\<lparr>uuid_at := (\<lambda>n. word_of_int (1001 + 2 * int n))\<rparr>"

lemma even_odd: "strangers even_env odd_env" "strangers odd_env even_env"
proof -
  have "(word_of_int (1000 + 2 * int k) :: uuid) \<noteq> word_of_int (1001 + 2 * int l)" for k l
  proof
    assume "(word_of_int (1000 + 2 * int k) :: uuid) = word_of_int (1001 + 2 * int l)"
    then have "bit (word_of_int (1000 + 2 * int k) :: uuid) 0 = bit (word_of_int (1001 + 2 * int l) :: uuid) 0"
      by simp
    then show False by (simp add: bit_word_of_int_iff bit_0)
  qed
  then show "strangers even_env odd_env" "strangers odd_env even_env"
    by (auto simp: strangers_def even_env_def odd_env_def) metis
qed

abbreviation cautious :: "(transfer_params \<times> pg_env) list" where
  "cautious \<equiv> [(sample_arg, even_env), (back_arg, odd_env)]"

definition crossing :: bank where
  "crossing = turns [0, 0, 0, 1, 1, 1] (bank_start cautious sample_db)"

lemma crossing_facts: "\<not> can_go 1 crossing" "length (fst crossing) = 2" "effective [0] crossing"
  by code_simp+

theorem interleaved_requests_return_witness:
  "\<not> can_go 1 crossing \<and> (\<exists>n. can_go n crossing) \<and> \<not> effective (replicate 39 0) crossing"
proof -
  have reach: "bank_step\<^sup>*\<^sup>* (bank_start cautious sample_db) (fst crossing, snd crossing)"
    using turns_reach [of "[0, 0, 0, 1, 1, 1]" "bank_start cautious sample_db"]
    by (simp add: crossing_def bank_start_def)
  have "strangers (snd (cautious ! m)) (snd (cautious ! n))" if "m < length cautious" "n < length cautious" "m \<noteq> n" for m n
    using that even_odd by (auto simp: less_Suc_eq)
  from interleaved_requests_return [OF reach sample_books this]
  have bound: "\<forall>ns. effective ns (fst crossing, snd crossing) \<longrightarrow> length ns \<le> 19 * length (fst crossing)" by blast
  have late: "\<not> effective (replicate 39 0) crossing"
  proof
    assume "effective (replicate 39 0) crossing"
    with bound [THEN spec, of "replicate 39 0"] have "length (replicate 39 (0 :: nat)) \<le> 38"
      unfolding prod.collapse crossing_facts(2) by linarith
    then show False unfolding length_replicate by simp
  qed
  have "can_go 0 crossing" using crossing_facts(3) by simp
  then show ?thesis using crossing_facts(1) late by blast
qed

end
