(* ===== verification/Payment_Feed.thy ===== *)
theory Payment_Feed
  imports Interleaved_Payments Listener Notification_Stream
begin

text \<open>
  From a committed transfer to the open event streams: PostgreSQL delivers the messages of the commit to
  the listener's connection, the listener publishes them on the hub, the streams of their owners write
  them out. \<open>Transfer_Interleaving\<close>, \<open>Listener\<close>, \<open>Hub\<close> and \<open>Notification_Stream\<close> put together.
\<close>

text \<open>
  What a connection that is listening receives when the tables change from \<open>d\<close> to \<open>d'\<close>: the new
  messages, in the order of the commits, as documented for \<open>NOTIFY\<close>.
\<close>

definition deliveries :: "(uuid \<times> string \<Rightarrow> string) \<Rightarrow> db \<Rightarrow> db \<Rightarrow> wait list" where
  "deliveries enc d d' = map (Got \<circ> Some \<circ> enc) (drop (length (notified d)) (notified d'))"

lemma received_got: "received (map (Got \<circ> f) xs) = map f xs"
  by (induction xs) simp_all

text \<open>A stream whose connection works writes out what is in its inbox.\<close>

lemma stream_writes_inbox:
  assumes "writeFrame io = None"
  shows "hub_ok h \<Longrightarrow> (ow, s) \<in> hub_members h \<Longrightarrow> length (hub_inbox h s) \<le> k \<Longrightarrow>
    fst (stream_loop s (replicate k (Event io)) h) = map event_frame (hub_inbox h s)"
proof (induction k arbitrary: h)
  case (Suc k)
  obtain r h1 where r: "receive s h = (r, h1)" by fastforce
  note l = hub_pubsub.recv_law [OF Suc.prems(1,2) r]
  obtain fs fin h2 where loop: "stream_loop s (replicate k (Event io)) h1 = (fs, fin, h2)"
    by (cases "stream_loop s (replicate k (Event io)) h1")
  have ok: "hub_ok h1" "(ow, s) \<in> hub_members h1" using l Suc.prems(2) by simp_all
  show ?case
  proof (cases "hub_inbox h s")
    case Nil
    then have "r = None" "hub_inbox h1 s = []" using l by simp_all
    then show ?thesis using Suc.IH [OF ok] loop r Nil by simp
  next
    case (Cons i js)
    then have "r = Some i" "hub_inbox h1 s = js" using l by simp_all
    then show ?thesis using Suc.IH [OF ok] Suc.prems(3) loop r Cons assms by simp
  qed
qed simp

lemma run_members: "hub_ok h \<Longrightarrow> hub_ok (snd (run dec ws h)) \<and> hub_members (snd (run dec ws h)) = hub_members h"
proof -
  have "hub_ok (fold (\<lambda>(q, i). Publish q i) ms h) \<and>
      hub_members (fold (\<lambda>(q, i). Publish q i) ms h) = hub_members h" if "hub_ok h" for ms h
    using that
  proof (induction ms arbitrary: h)
    case (Cons m ms)
    obtain q i where m: "m = (q, i)" by fastforce
    show ?case using Cons.IH [of "Publish q i h"] hub_pubsub.pub_law [OF Cons.prems, of q i] by (simp add: m)
  qed simp
  then show "hub_ok h \<Longrightarrow> ?thesis" by (simp add: run_publishes)
qed

text \<open>
  C11 (functional). A payment reaches the screens of both owners. Whenever, among any requests whose statements
  interleave, a step of one of them changes the committed tables, two notifications have been added, one
  for each account, with its owner, the amount and the balance the account now has; and once
  the listener has received what PostgreSQL delivers for that commit, an idle stream of either owner, on a
  connection that works, writes out exactly their own, the sender's first when they are the same person, and the
  stream of anybody else writes nothing.
\<close>

theorem payment_reaches_streams:
  assumes run: "bank_step\<^sup>*\<^sup>* (bank_start ps d0) (cs, d)" "books_ok d0"
    and step: "n < length cs" "turn n (cs, d) = (cs', d')" "d' \<noteq> d"
    and codec: "payload_codec enc dec"
    and named: "nil_uuid \<notin> ntf_id ` set (notifications d')" "'''' \<notin> usr_username ` set (users d')"
    and stream: "hub_ok h" "(ow, s) \<in> hub_members h" "hub_inbox h s = []" "writeFrame io = None"
  shows "\<exists>res sent rcvd. announces (cl_arg (cs ! n)) d res d' sent rcvd \<and>
    fst (stream_loop s [Event io, Event io] (snd (Listener.run dec (deliveries enc d d') h))) =
      map (event_frame \<circ> ntf_id) (filter (\<lambda>x. ntf_owner x = ow) [sent, rcvd])"
proof -
  from turn_commits [OF run step] obtain k res where
    "committed (cl_arg (cs ! n)) (time_at (cl_env (cs ! n)) k) d res d'" by blast
  from committed_announces [OF this] obtain a b where ann: "announces (cl_arg (cs ! n)) d res d' a b" by blast
  have "bank_step (cs, d) (cs', d')" using Turn [OF step(1), of d] step(2) by simp
  then have "bank_ok (cs', d')" using run by (meson bank_reachable_ok rtranclp.rtrancl_into_rtrancl)
  then have "schema_ok d'" by (simp add: bank_ok_def books_ok_def)
  then have owners: "acc_owner x \<noteq> ''''" if "x \<in> set (accounts d')" for x
    using that named(2) by (force simp: schema_ok_def accounts_ok_def)
  let ?msgs = "map (\<lambda>x. (ntf_id x, ntf_owner x)) [a, b]"
  have "res_from_account res \<in> set (accounts d')" "res_to_account res \<in> set (accounts d')"
    using ann by (auto simp: announces_def dest: find_account_Some)
  then have "ntf_owner a \<noteq> ''''" "ntf_owner b \<noteq> ''''" using ann owners by (simp_all add: announces_def)
  moreover have "ntf_id a \<noteq> nil_uuid" "ntf_id b \<noteq> nil_uuid" using ann named(1) by (auto simp: announces_def)
  ultimately have good: "\<forall>(i, q) \<in> set ?msgs. i \<noteq> nil_uuid \<and> q \<noteq> ''''" by simp
  have got: "received (deliveries enc d d') = map (Some \<circ> enc) ?msgs"
    using ann by (simp add: deliveries_def announces_def)
  have valid: "valid_messages dec [Some (enc m)] \<noteq> []" if "m \<in> set ?msgs" for m
    using that good codec by (auto simp: valid_messages_def payload_codec_def)
  let ?h = "snd (Listener.run dec (deliveries enc d d') h)"
  have "hub_inbox ?h s = map fst (filter (\<lambda>m. snd m = ow) ?msgs)"
    by (rule run_fills_inbox [OF codec good _ stream(1-3)])
      (use valid in \<open>simp_all add: got filter_True subscriberBuffer_def\<close>)
  then have inbox: "hub_inbox ?h s = map ntf_id (filter (\<lambda>x. ntf_owner x = ow) [a, b])" by simp
  have "fst (stream_loop s (replicate 2 (Event io)) ?h) = map event_frame (hub_inbox ?h s)"
    using stream_writes_inbox [OF stream(4)] run_members [OF stream(1)] stream(2) by (auto simp: inbox)
  then show ?thesis using ann unfolding inbox by (auto simp: numeral_2_eq_2)
qed

section \<open>Witness\<close>

definition bob_listening :: "subscription \<times> hub" where
  "bob_listening = Subscribe ''bob'' NewHub"

lemma bob_hub:
  "hub_ok (snd bob_listening)" "(''bob'', fst bob_listening) \<in> hub_members (snd bob_listening)"
  "hub_inbox (snd bob_listening) (fst bob_listening) = []"
proof -
  have "hub_room NewHub" by (simp add: hub_room_def NewHub_def)
  from hub_pubsub.sub_law [OF hub_ok_NewHub this prod.collapse [symmetric], of "''bob''"]
  show "hub_ok (snd bob_listening)" "(''bob'', fst bob_listening) \<in> hub_members (snd bob_listening)"
    "hub_inbox (snd bob_listening) (fst bob_listening) = []"
    by (simp_all add: bob_listening_def)
qed

definition alert_view :: "bank \<Rightarrow> uuid list \<times> string list \<times> (string \<times> int) list" where
  "alert_view q = (map ntf_id (notifications (snd q)), map usr_username (users (snd q)),
     map (\<lambda>n. (ntf_owner n, ntf_balance n)) (notifications (snd q)))"

lemma paid_view: "alert_view (turn 0 mid) = ([1011, 1013], [''alice'', ''bob''], [(''alice'', 70), (''bob'', 30)])"
  by code_simp

lemma mid_quiet: "length (notifications (snd mid)) = 0"
  by code_simp

theorem payment_reaches_streams_witness:
  "fst (stream_loop (fst bob_listening) [Event good_io, Event good_io]
     (snd (Listener.run tally_decode (deliveries tally_encode (snd mid) (snd (turn 0 mid))) (snd bob_listening)))) =
   [event_frame 1013]"
proof -
  have io: "writeFrame good_io = None" by (simp add: writeFrame_def good_io_def)
  have v: "map ntf_id (notifications (snd (turn 0 mid))) = [1011, 1013]"
    "map usr_username (users (snd (turn 0 mid))) = [''alice'', ''bob'']"
    "map (\<lambda>n. (ntf_owner n, ntf_balance n)) (notifications (snd (turn 0 mid))) = [(''alice'', 70), (''bob'', 30)]"
    using paid_view by (simp_all only: alert_view_def prod.inject)
  have named: "nil_uuid \<notin> ntf_id ` set (notifications (snd (turn 0 mid)))"
    "'''' \<notin> usr_username ` set (users (snd (turn 0 mid)))"
    using arg_cong [OF v(1), of set] arg_cong [OF v(2), of set] by (simp_all)
  have quiet: "notifications (snd mid) = []" using mid_quiet by simp
  obtain res a b where ann: "announces sample_arg (snd mid) res (snd (turn 0 mid)) a b"
    and shown: "fst (stream_loop (fst bob_listening) [Event good_io, Event good_io]
      (snd (Listener.run tally_decode (deliveries tally_encode (snd mid) (snd (turn 0 mid))) (snd bob_listening)))) =
      map (event_frame \<circ> ntf_id) (filter (\<lambda>x. ntf_owner x = ''bob'') [a, b])"
    using payment_reaches_streams [OF mid_reach sample_books _ _ mid_changed tally_codec named bob_hub io,
        of 0 "fst (turn 0 mid)"] mid_facts(1,2) by auto
  have "[a, b] = notifications (snd (turn 0 mid))" using ann quiet by (simp add: announces_def)
  then have "ntf_id b = 1013" "ntf_owner a = ''alice''" "ntf_owner b = ''bob''" using v(1,3) by auto
  then show ?thesis using shown by simp
qed

end
