(* ===== verification/Password.thy ===== *)
theory Password
  imports Go_Errors
begin

text \<open>
  \<open>internal/password\<close> and \<open>internal/random\<close>. The bcrypt package and the random source are
  arguments.
\<close>

section \<open>Password hashes\<close>

text \<open>\<open>GenerateFromPassword\<close>, \<open>CompareHashAndPassword\<close> and the error for a long password.\<close>

record bcrypt_lib =
  bc_generate :: "string \<Rightarrow> int \<Rightarrow> go_error + string"
  bc_compare :: "string \<Rightarrow> string \<Rightarrow> go_error option"
  bc_too_long :: go_error

definition password_Hash :: "bcrypt_lib \<Rightarrow> string \<Rightarrow> go_error + string" where
  "password_Hash bc password =
     (case bc_generate bc password 12 of Inl err \<Rightarrow> Inl err | Inr hashed \<Rightarrow> Inr hashed)"

definition password_Check :: "bcrypt_lib \<Rightarrow> string \<Rightarrow> string \<Rightarrow> go_error option" where
  "password_Check bc password hashed = bc_compare bc hashed password"

text \<open>
  Documented: a password of more than 72 bytes is refused with its own error, no other
  is refused with it, and a hash compares equal to the password it was made of.
\<close>

definition bcrypt_library :: "bcrypt_lib \<Rightarrow> bool" where
  "bcrypt_library bc \<longleftrightarrow>
     (\<forall>password cost. bc_generate bc password cost = Inl (bc_too_long bc) \<longleftrightarrow> 72 < length password) \<and>
     (\<forall>password cost h. bc_generate bc password cost = Inr h \<longrightarrow> bc_compare bc h password = None)"

lemma hashed_checks:
  assumes "bcrypt_library bc" "password_Hash bc pw = Inr h"
  shows "password_Check bc pw h = None"
  using assms by (auto simp: bcrypt_library_def password_Hash_def password_Check_def split: sum.splits)

lemma hash_not_too_long:
  assumes "bcrypt_library bc" "length pw \<le> 72"
  shows "password_Hash bc pw \<noteq> Inl (bc_too_long bc)"
proof
  assume "password_Hash bc pw = Inl (bc_too_long bc)"
  then have "bc_generate bc pw 12 = Inl (bc_too_long bc)" by (auto simp: password_Hash_def split: sum.splits)
  then show False using assms by (simp add: bcrypt_library_def)
qed

section \<open>Random strings\<close>

definition alphabet :: string where
  "alphabet = ''abcdefghijklmnopqrstuvwxyz''"

text \<open>\<open>intn k n\<close> is what the \<open>k\<close>th call of \<open>rand.IntN(n)\<close> returns.\<close>

definition random_String :: "(nat \<Rightarrow> nat \<Rightarrow> nat) \<Rightarrow> nat \<Rightarrow> string" where
  "random_String intn n = map (\<lambda>k. alphabet ! intn k (length alphabet)) [0..<n]"

definition random_Owner :: "(nat \<Rightarrow> nat \<Rightarrow> nat) \<Rightarrow> string" where
  "random_Owner intn = random_String intn 6"

lemma random_String_letters:
  assumes "\<And>k n. 0 < n \<Longrightarrow> intn k n < n"
  shows "length (random_String intn n) = n \<and> set (random_String intn n) \<subseteq> set alphabet"
proof -
  have "alphabet ! intn k (length alphabet) \<in> set alphabet" for k
    using assms [of "length alphabet" k] by (intro nth_mem) (simp add: alphabet_def)
  then show ?thesis by (auto simp: random_String_def)
qed

text \<open>
  The hash that \<open>loginUser\<close> compares with when there is no such user, made once when the program
  starts: without it the program does not start.
\<close>

definition dummyPasswordHash :: "bcrypt_lib \<Rightarrow> (nat \<Rightarrow> nat \<Rightarrow> nat) \<Rightarrow> go_error + string" where
  "dummyPasswordHash bc intn =
     (case password_Hash bc (random_String intn 16) of
        Inl err \<Rightarrow> Inl (Panic ''hashing the dummy password'')
      | Inr h \<Rightarrow> Inr h)"

end
