(* ===== verification/Validation.thy ===== *)
theory Validation
  imports Api_User Api_Transfer Password
begin

text \<open>
  \<open>internal/api/validator.go\<close> and the \<open>validate\<close> tags of the request structs. A struct is the list
  of its fields with their rules. What the validator package itself decides (letters and digits,
  addresses, UUIDs, the number of runes) is an argument; the rule \<open>maxbytes\<close> is the program's own.
\<close>

section \<open>The validator\<close>

text \<open>
  \<open>strconv.Atoi\<close>: decimal digits after an optional sign, within int64.
\<close>

definition is_digit :: "char \<Rightarrow> bool" where
  "is_digit c \<longleftrightarrow> 48 \<le> (of_char c :: int) \<and> (of_char c :: int) \<le> 57"

definition digits_value :: "string \<Rightarrow> int" where
  "digits_value = foldl (\<lambda>v c. 10 * v + (of_char c - 48)) 0"

definition Atoi :: "string \<Rightarrow> int option" where
  "Atoi str =
     (let (sign, ds) = (case str of
            c # cs \<Rightarrow> if c = CHR ''-'' then (- 1, cs) else if c = CHR ''+'' then (1, cs) else (1, str)
          | [] \<Rightarrow> (1, []));
          n = sign * digits_value ds in
      if ds = [] \<or> \<not> list_all is_digit ds \<or> \<not> is_int64 n then None else Some n)"

text \<open>A Go string is the list of its bytes, so its length is in bytes.\<close>

definition validateMaxBytes :: "string \<Rightarrow> string \<Rightarrow> bool" where
  "validateMaxBytes param field =
     (case Atoi param of None \<Rightarrow> False | Some limit \<Rightarrow> int (length field) \<le> limit)"

text \<open>
  Rules of the package, and \<open>Custom\<close> for registered ones with their parameter. \<open>vl_register\<close> is what
  \<open>RegisterValidation\<close> returns for a name.
\<close>

datatype field = FStr string | FInt int

datatype rule = Required | Alphanum | Email | Uuid | Min nat | Min_Int int | Gt int | Custom string string

record validator_lib =
  vl_alphanum :: "string \<Rightarrow> bool"
  vl_email :: "string \<Rightarrow> bool"
  vl_uuid :: "string \<Rightarrow> bool"
  vl_runes :: "string \<Rightarrow> nat"
  vl_register :: "string \<Rightarrow> go_error option"

type_synonym custom_rules = "(string \<times> (string \<Rightarrow> string \<Rightarrow> bool)) list"

fun rule_holds :: "validator_lib \<Rightarrow> custom_rules \<Rightarrow> field \<Rightarrow> rule \<Rightarrow> bool" where
  "rule_holds lib cv (FStr s) Required = (s \<noteq> '''')"
| "rule_holds lib cv (FInt n) Required = (n \<noteq> 0)"
| "rule_holds lib cv (FStr s) Alphanum = vl_alphanum lib s"
| "rule_holds lib cv (FStr s) Email = vl_email lib s"
| "rule_holds lib cv (FStr s) Uuid = vl_uuid lib s"
| "rule_holds lib cv (FStr s) (Min k) = (k \<le> vl_runes lib s)"
| "rule_holds lib cv (FInt n) (Min_Int k) = (k \<le> n)"
| "rule_holds lib cv (FInt n) (Gt k) = (k < n)"
| "rule_holds lib cv (FStr s) (Custom name param) =
     (case map_of cv name of Some f \<Rightarrow> f param s | None \<Rightarrow> False)"
| "rule_holds lib cv _ _ = False"

definition newValidator :: "validator_lib \<Rightarrow> go_error + custom_rules" where
  "newValidator lib =
     (case vl_register lib ''maxbytes'' of
        Some err \<Rightarrow> Inl (Panic ''registering maxbytes'')
      | None \<Rightarrow> Inr [(''maxbytes'', validateMaxBytes)])"

definition struct_valid :: "validator_lib \<Rightarrow> custom_rules \<Rightarrow> (field \<times> rule list) list \<Rightarrow> bool" where
  "struct_valid lib cv fs = list_all (\<lambda>(f, rs). list_all (rule_holds lib cv f) rs) fs"

section \<open>The tags of the requests\<close>

definition create_user_tags :: "create_user_request \<Rightarrow> (field \<times> rule list) list" where
  "create_user_tags r =
     [(FStr (cur_username r), [Required, Alphanum]),
      (FStr (cur_password r), [Required, Min 15, Custom ''maxbytes'' ''72'']),
      (FStr (cur_full_name r), [Required]),
      (FStr (cur_email r), [Required, Email])]"

definition login_tags :: "login_request \<Rightarrow> (field \<times> rule list) list" where
  "login_tags r = [(FStr (lrq_username r), [Required, Alphanum]), (FStr (lrq_password r), [Required])]"

definition resend_tags :: "string \<Rightarrow> (field \<times> rule list) list" where
  "resend_tags email = [(FStr email, [Required, Email])]"

definition create_account_tags :: "create_account_request \<Rightarrow> (field \<times> rule list) list" where
  "create_account_tags r = [(FStr (car_currency r), [Required]), (FInt (car_balance r), [Min_Int 0])]"

definition transfer_tags :: "transfer_request \<Rightarrow> (field \<times> rule list) list" where
  "transfer_tags r =
     [(FStr (trq_from_account_id r), [Required, Uuid]), (FStr (trq_to_account_id r), [Required, Uuid]),
      (FInt (trq_amount r), [Required, Gt 0]), (FStr (trq_currency r), [Required]),
      (FStr (trq_idempotency_key r), [Required, Uuid])]"

section \<open>What an accepted request is\<close>

lemma newValidator_rules: "newValidator lib = Inr cv \<Longrightarrow> cv = [(''maxbytes'', validateMaxBytes)]"
  by (simp add: newValidator_def split: option.splits)

lemma Atoi_72: "Atoi ''72'' = Some 72"
  by code_simp

lemma registration_bounds:
  assumes "newValidator lib = Inr cv" and "struct_valid lib cv (create_user_tags r)"
  shows "15 \<le> vl_runes lib (cur_password r) \<and> length (cur_password r) \<le> 72 \<and> cur_username r \<noteq> '''' \<and>
    vl_alphanum lib (cur_username r) \<and> vl_email lib (cur_email r)"
  using assms(2)
  by (simp add: newValidator_rules [OF assms(1)] struct_valid_def create_user_tags_def validateMaxBytes_def Atoi_72)

lemma transfer_amount_positive:
  "struct_valid lib cv (transfer_tags r) \<Longrightarrow> 0 < trq_amount r"
  by (simp add: struct_valid_def transfer_tags_def)

text \<open>
  C39 (bounds). A registration that is accepted can be hashed: when the server's validator exists, a
  password that passes it has at least 15 runes and at most 72 bytes, however many bytes its runes take, so bcrypt, which takes
  no more than 72 bytes, does not refuse it for its length, and the hash that is
  stored compares equal to that password. A longer password is refused with 400 before it is hashed, whatever the rest of the request.
\<close>

theorem accepted_password_hashes:
  assumes "newValidator lib = Inr cv" and "bcrypt_library bc"
  shows "(case bindValidate (Some r) (\<lambda>r. struct_valid lib cv (create_user_tags r)) of
      Inr q \<Rightarrow> 15 \<le> vl_runes lib (cur_password q) \<and> length (cur_password q) \<le> 72 \<and>
        password_Hash bc (cur_password q) \<noteq> Inl (bc_too_long bc) \<and>
        (\<forall>h. password_Hash bc (cur_password q) = Inr h \<longrightarrow> password_Check bc (cur_password q) h = None)
    | Inl e \<Rightarrow> e = ApiError 400 ''invalid_request_payload'' ''invalid request payload'') \<and>
    (72 < length (cur_password r) \<longrightarrow> isl (bindValidate (Some r) (\<lambda>r. struct_valid lib cv (create_user_tags r))))"
  using registration_bounds [OF assms(1), of r] hash_not_too_long [OF assms(2)] hashed_checks [OF assms(2)]
  by (auto simp: bindValidate_def cv_Validate_def)

section \<open>Witness\<close>

definition sample_validator :: validator_lib where
  "sample_validator = \<lparr>vl_alphanum = list_all (\<lambda>c. c \<in> set alphabet), vl_email = (\<lambda>s. CHR ''@'' \<in> set s),
     vl_uuid = (\<lambda>s. length s = 36), vl_runes = length, vl_register = (\<lambda>_. None)\<rparr>"

definition sample_bcrypt :: bcrypt_lib where
  "sample_bcrypt = \<lparr>
     bc_generate = (\<lambda>pw cost. if 72 < length pw then Inl (PlainError ''too long'') else Inr (''$2a$'' @ pw)),
     bc_compare = (\<lambda>h pw. if h = ''$2a$'' @ pw then None else Some (PlainError ''mismatch'')),
     bc_too_long = PlainError ''too long''\<rparr>"

lemma sample_bcrypt_ok: "bcrypt_library sample_bcrypt"
  by (simp add: bcrypt_library_def sample_bcrypt_def)

definition carol_request :: create_user_request where
  "carol_request = \<lparr>cur_username = ''carol'', cur_password = ''correct horse battery'', cur_full_name = ''Carol'',
     cur_email = ''carol@example.org''\<rparr>"

lemma carol_valid: "struct_valid sample_validator [(''maxbytes'', validateMaxBytes)] (create_user_tags carol_request)"
  by code_simp

theorem accepted_password_hashes_witness:
  "password_Check sample_bcrypt ''correct horse battery'' ''$2a$correct horse battery'' = None \<and>
   isl (bindValidate (Some (carol_request\<lparr>cur_password := replicate 73 CHR ''x''\<rparr>))
     (\<lambda>r. struct_valid sample_validator [(''maxbytes'', validateMaxBytes)] (create_user_tags r)))"
proof -
  let ?cv = "[(''maxbytes'', validateMaxBytes)]"
  have new: "newValidator sample_validator = Inr ?cv" by (simp add: newValidator_def sample_validator_def)
  have "bindValidate (Some carol_request) (\<lambda>r. struct_valid sample_validator ?cv (create_user_tags r)) = Inr carol_request"
    by (simp add: bindValidate_Inr carol_valid)
  moreover have "cur_password carol_request = ''correct horse battery''" by (simp add: carol_request_def)
  moreover have "password_Hash sample_bcrypt ''correct horse battery'' = Inr ''$2a$correct horse battery''"
    by (simp add: password_Hash_def sample_bcrypt_def)
  moreover have "72 < length (cur_password (carol_request\<lparr>cur_password := replicate 73 CHR ''x''\<rparr>))" by simp
  ultimately show ?thesis
    using accepted_password_hashes [OF new sample_bcrypt_ok, of carol_request]
      accepted_password_hashes [OF new sample_bcrypt_ok, of "carol_request\<lparr>cur_password := replicate 73 CHR ''x''\<rparr>"]
    by simp
qed

end
