(* ===== verification/Migrate.thy ===== *)
theory Migrate
  imports Go_Errors
begin

text \<open>
  \<open>internal/db/migrate.go\<close>, \<open>migrations/embed.go\<close> and \<open>Migrate\<close> of \<open>internal/worker/client.go\<close>. The
  goose and River libraries are arguments; what is modelled is how they are called, and what is
  released. \<open>Lifecycle\<close> takes the two results as \<open>wd_migrate_schema\<close> and \<open>wd_river_migrate\<close>.
\<close>

text \<open>The embedded \<open>*.sql\<close> files.\<close>

definition migrations_FS :: "string list" where
  "migrations_FS =
     [''00001_init_schema.sql'', ''00002_transfer_safety.sql'', ''00003_scope_transfer_idempotency.sql'',
      ''00004_javascript_safe_balances.sql'', ''00005_hash_email_verification_codes.sql'',
      ''00006_balance_notifications.sql'', ''00007_account_balance_and_transfer_index.sql'']"

text \<open>\<open>NewPostgresSessionLocker\<close>, \<open>NewProvider\<close> with its options, and \<open>Up\<close>.\<close>

datatype 'lk goose_option = WithSessionLocker 'lk

record ('lk, 'pr) goose_lib =
  gs_locker :: "go_error + 'lk"
  gs_provider :: "string \<Rightarrow> string list \<Rightarrow> 'lk goose_option list \<Rightarrow> go_error + 'pr"
  gs_up :: "'pr \<Rightarrow> go_error option"

text \<open>What happens to the \<open>sql.DB\<close> over the pool; closing it is deferred.\<close>

datatype 'pr db_event = Opened | Upgraded 'pr | Closed

definition MigrateSchema :: "('lk, 'pr) goose_lib \<Rightarrow> 'pr db_event list \<times> go_error option" where
  "MigrateSchema lib =
     (let (ev, err) =
        (case gs_locker lib of
           Inl err \<Rightarrow> ([], Some err)
         | Inr locker \<Rightarrow>
             (case gs_provider lib ''postgres'' migrations_FS [WithSessionLocker locker] of
                Inl err \<Rightarrow> ([], Some err)
              | Inr provider \<Rightarrow> ([Upgraded provider], gs_up lib provider))) in
      (Opened # ev @ [Closed], err))"

text \<open>\<open>rivermigrate.New\<close> and the migrator's \<open>Migrate\<close>, by direction.\<close>

definition river_Migrate :: "(go_error + 'm) \<Rightarrow> ('m \<Rightarrow> string \<Rightarrow> go_error option) \<Rightarrow> go_error option" where
  "river_Migrate migrator migrate =
     (case migrator of Inl err \<Rightarrow> Some err | Inr m \<Rightarrow> migrate m ''up'')"

text \<open>
  Replicas that start together are kept apart: nothing is applied but by a provider that has the session
  locker; and the handle on the database is released whatever fails.
\<close>

lemma MigrateSchema_locked:
  assumes "MigrateSchema lib = (ev, r)"
  shows "hd ev = Opened \<and> last ev = Closed \<and> count_list ev Closed = 1 \<and>
    (\<forall>p. Upgraded p \<in> set ev \<longrightarrow> (\<exists>locker. gs_locker lib = Inr locker \<and>
       gs_provider lib ''postgres'' migrations_FS [WithSessionLocker locker] = Inr p)) \<and>
    (r = None \<longrightarrow> (\<exists>p. ev = [Opened, Upgraded p, Closed] \<and> gs_up lib p = None))"
  using assms by (auto simp: MigrateSchema_def Let_def split: sum.splits)

end
