(* ===== verification/Api_Auth.thy ===== *)
theory Api_Auth
  imports Api_Server Api_Transfer Api_User_Witnesses
begin

text \<open>
  The bearer token: \<open>authMiddleware\<close> of \<open>internal/api/middleware.go\<close> in front of a handler. The
  echo-jwt middleware is an argument, with what is documented of it as \<open>echo_jwt_library\<close>; the
  configuration it is given is the code's.
\<close>

section \<open>The middleware\<close>

text \<open>\<open>NewExpectedPayload\<close>: empty claims to decode into, which know the type they must have.\<close>

record expected_payload =
  ep_expected_type :: string

definition NewExpectedPayload :: "string \<Rightarrow> expected_payload" where
  "NewExpectedPayload expectedType = \<lparr>ep_expected_type = expectedType\<rparr>"

record echojwt_config =
  ej_signing_key :: string
  ej_context_key :: string
  ej_new_claims :: expected_payload

definition authContextKey :: string where
  "authContextKey = ''user''"

text \<open>
  What the middleware finds for the headers of a request at a time: an error, which it returns, or
  claims, which it puts in the context for the next handler.
\<close>

type_synonym echo_jwt = "echojwt_config \<Rightarrow> time \<Rightarrow> header \<Rightarrow> go_error + payload"

definition access_config :: "config \<Rightarrow> echojwt_config" where
  "access_config cfg = \<lparr>ej_signing_key = JWTSecret cfg, ej_context_key = authContextKey,
     ej_new_claims = NewExpectedPayload Access\<rparr>"

definition authMiddleware ::
  "echo_jwt \<Rightarrow> config \<Rightarrow> time \<Rightarrow> (payload option \<Rightarrow> 's \<Rightarrow> (go_error + 'a) \<times> 's) \<Rightarrow> web_request
    \<Rightarrow> 's \<Rightarrow> (go_error + 'a) \<times> 's" where
  "authMiddleware echojwt cfg t next_handler r =
     (case echojwt (access_config cfg) t (wr_header r) of
        Inl err \<Rightarrow> raise err
      | Inr p \<Rightarrow> next_handler (Some p))"

text \<open>
  Documented: the token is taken from an \<open>Authorization\<close> header after the scheme \<open>Bearer\<close>, in
  any case; it is accepted only if it is an HS256 token that the signing key verifies, has not expired, and its
  claims, decoded into the given ones, are valid; and a request with one such header gets through.
\<close>

definition echo_jwt_library :: "jwt_lib \<Rightarrow> echo_jwt \<Rightarrow> bool" where
  "echo_jwt_library lib echojwt \<longleftrightarrow>
     (\<forall>c t h p. echojwt c t h = Inr p \<longrightarrow>
        (\<exists>scheme raw. scheme @ raw \<in> set (h ''Authorization'') \<and> equal_fold scheme ''Bearer '' \<and>
           VerifyToken lib (ej_signing_key c) t raw (ep_expected_type (ej_new_claims c)) = Inr p)) \<and>
     (\<forall>c t h raw p. h ''Authorization'' = [''Bearer '' @ raw] \<and>
        VerifyToken lib (ej_signing_key c) t raw (ep_expected_type (ej_new_claims c)) = Inr p \<longrightarrow>
        echojwt c t h = Inr p)"

section \<open>Who gets through\<close>

text \<open>The request carries an access token of this server with these claims, unexpired.\<close>

definition bears :: "jwt_lib \<Rightarrow> string \<Rightarrow> time \<Rightarrow> web_request \<Rightarrow> payload \<Rightarrow> bool" where
  "bears lib key t r p \<longleftrightarrow>
     (\<exists>scheme raw. scheme @ raw \<in> set (wr_header r ''Authorization'') \<and> equal_fold scheme ''Bearer '' \<and>
        sign lib key p = Inr raw) \<and>
     pl_token_type p = Access \<and> \<not> token_expired t p"

lemma accepted_token:
  assumes "echo_jwt_library lib echojwt" "echojwt (access_config cfg) t h = Inr p"
  shows "\<exists>scheme raw. scheme @ raw \<in> set (h ''Authorization'') \<and> equal_fold scheme ''Bearer '' \<and>
    VerifyToken lib (JWTSecret cfg) t raw Access = Inr p"
proof -
  have "ej_signing_key (access_config cfg) = JWTSecret cfg" "ep_expected_type (ej_new_claims (access_config cfg)) = Access"
    by (simp_all add: access_config_def NewExpectedPayload_def)
  then show ?thesis
    using assms(1) [unfolded echo_jwt_library_def, THEN conjunct1, rule_format, OF assms(2)] by simp
qed

lemma authMiddleware_cases:
  assumes "jwt_library lib" "echo_jwt_library lib echojwt"
    and "authMiddleware echojwt cfg t next_handler r s = (res, s')"
  obtains (refused) e where "res = Inl e" "s' = s"
    | (passed) p where "bears lib (JWTSecret cfg) t r p" "next_handler (Some p) s = (res, s')"
proof (cases "echojwt (access_config cfg) t (wr_header r)")
  case (Inl e)
  then have "res = Inl e" "s' = s" using assms(3) by (simp_all add: authMiddleware_def raise_def)
  then show ?thesis by (rule refused)
next
  case (Inr p)
  from accepted_token [OF assms(2) Inr] obtain scheme raw where raw: "scheme @ raw \<in> set (wr_header r ''Authorization'')"
    "equal_fold scheme ''Bearer ''" "VerifyToken lib (JWTSecret cfg) t raw Access = Inr p" by blast
  then have "sign lib (JWTSecret cfg) p = Inr raw" "pl_token_type p = Access" "\<not> token_expired t p"
    using assms(1) by (auto simp: VerifyToken_def jwt_library_def validate_payload_def Access_def
        split: option.splits if_splits)
  then have "bears lib (JWTSecret cfg) t r p" using raw unfolding bears_def by blast
  then show ?thesis using assms(3) Inr passed by (simp add: authMiddleware_def)
qed

text \<open>With one bearer token the middleware decides as \<open>VerifyToken\<close> does.\<close>

lemma one_bearer:
  assumes "echo_jwt_library lib echojwt" "wr_header r ''Authorization'' = [''Bearer '' @ raw]"
  shows "case VerifyToken lib (JWTSecret cfg) t raw Access of
      Inr p \<Rightarrow> authMiddleware echojwt cfg t next_handler r s = next_handler (Some p) s
    | Inl _ \<Rightarrow> \<exists>e. authMiddleware echojwt cfg t next_handler r s = (Inl e, s)"
proof -
  let ?c = "access_config cfg"
  have iff: "echojwt ?c t (wr_header r) = Inr p \<longleftrightarrow> VerifyToken lib (JWTSecret cfg) t raw Access = Inr p" for p
  proof
    assume "echojwt ?c t (wr_header r) = Inr p"
    from accepted_token [OF assms(1) this] obtain scheme raw' where raw': "scheme @ raw' = ''Bearer '' @ raw"
      "equal_fold scheme ''Bearer ''" "VerifyToken lib (JWTSecret cfg) t raw' Access = Inr p"
      unfolding assms(2) by auto
    have "length scheme = length ''Bearer ''"
      using arg_cong [OF raw'(2) [unfolded equal_fold_def], of length] by (simp only: length_map)
    then have "raw' = raw" using raw'(1) append_eq_append_conv [of scheme "''Bearer ''" raw' raw] by simp
    then show "VerifyToken lib (JWTSecret cfg) t raw Access = Inr p" using raw'(3) by simp
  next
    assume "VerifyToken lib (JWTSecret cfg) t raw Access = Inr p"
    then show "echojwt ?c t (wr_header r) = Inr p"
      using assms unfolding echo_jwt_library_def by (simp add: access_config_def NewExpectedPayload_def)
  qed
  show ?thesis
  proof (cases "VerifyToken lib (JWTSecret cfg) t raw Access")
    case (Inl e)
    then obtain e' where "echojwt ?c t (wr_header r) = Inl e'" using iff by (cases "echojwt ?c t (wr_header r)") auto
    then show ?thesis using Inl by (simp add: authMiddleware_def raise_def)
  next
    case (Inr p)
    then show ?thesis using iff [of p] by (simp add: authMiddleware_def)
  qed
qed

text \<open>
  C9 (safety). Only the owner can spend, and only with a token of this server: if a request to
  the transfer endpoint changes anything, or is answered with a transfer, then it carries, as its bearer
  token, an access token that was signed with the server's key and has not expired, and its claims
  name the owner of the source account; both accounts exist in the currency of the request and are
  different, the amount is positive and within the per-transfer limit of that currency and the largest
  supported amount; and what changed is one committed transfer with exactly these parameters.
\<close>

theorem bearer_spends:
  assumes lib: "jwt_library lib" "echo_jwt_library lib echojwt"
    and schema: "schema_ok (tables s)" and valid: "\<And>q. valid q \<Longrightarrow> 0 < trq_amount q"
    and run: "authMiddleware echojwt cfg t (createTransfer parse_uuid env cfg bound valid) r s = (res, s')"
    and eff: "tables s' \<noteq> tables s \<or> \<not> isl res"
  shows "\<exists>req p. bound = Some req \<and> bears lib (JWTSecret cfg) t r p \<and> 0 < trq_amount req \<and>
    admitted parse_uuid cfg req p (tables s) \<and>
    (tables s' \<noteq> tables s \<longrightarrow>
       (\<exists>at tr. committed (tx_params parse_uuid cfg req) at (tables s) tr (tables s')))"
  using lib run
proof (cases rule: authMiddleware_cases)
  case refused
  then show ?thesis using eff by simp
next
  case (passed p)
  from createTransfer_authorized [OF schema valid passed(2) eff] show ?thesis using passed(1) by auto
qed

text \<open>
  C13 (functional). A login makes its user known to every protected handler, for as long as it says: a
  request that carries the access token of a successful login runs the handler with claims that name
  that user, up to the expiry in the answer, and from then on is refused before the handler, which
  cannot have any effect; and the refresh token of the cookie is refused as a bearer token at all times.
\<close>

theorem login_identifies:
  assumes lib: "jwt_library (srv_jwt srv)" "echo_jwt_library (srv_jwt srv) echojwt"
    and key: "srv_key srv = JWTSecret cfg"
    and run: "loginUser srv rq bound valid w = (Inr (st, body), w')"
  shows "\<exists>p ck. pl_username p = urs_username (lrs_user body) \<and> pl_role p = roleDepositor \<and>
    set_cookies w' = set_cookies w @ [ck] \<and>
    (\<forall>t r (next_handler :: payload option \<Rightarrow> 's \<Rightarrow> (go_error + 'a) \<times> 's) s.
       wr_header r ''Authorization'' = [''Bearer '' @ lrs_access_token body] \<longrightarrow>
         (if t < lrs_access_token_expires_at body
          then authMiddleware echojwt cfg t next_handler r s = next_handler (Some p) s
          else \<exists>e. authMiddleware echojwt cfg t next_handler r s = (Inl e, s))) \<and>
    (\<forall>t r (next_handler :: payload option \<Rightarrow> 's \<Rightarrow> (go_error + 'a) \<times> 's) s.
       wr_header r ''Authorization'' = [''Bearer '' @ ck_value ck] \<longrightarrow>
         (\<exists>e. authMiddleware echojwt cfg t next_handler r s = (Inl e, s)))"
  using run
proof (cases rule: loginUser_Inr)
  case (1 req u tk x)
  note acc = issueTokenPair_access [OF 1(6)] and ref = issueTokenPair_refresh [OF 1(6)]
  have dec: "decode (srv_jwt srv) (JWTSecret cfg) (tp_access tk) = Some (tp_access_payload tk)"
    "decode (srv_jwt srv) (JWTSecret cfg) (tp_refresh tk) = Some (tp_refresh_payload tk)"
    using acc ref lib(1) key by (simp_all add: jwt_library_def)
  have access: "VerifyToken (srv_jwt srv) (JWTSecret cfg) t (tp_access tk) Access =
      (if t < expiry_of (tp_access_payload tk) then Inr (tp_access_payload tk) else Inl ErrExpiredToken)" for t
    using acc dec(1)
    by (auto simp: VerifyToken_def token_expired_def not_yet_valid_def validate_payload_def Access_def)
  have refresh: "isl (VerifyToken (srv_jwt srv) (JWTSecret cfg) t (tp_refresh tk) Access)" for t
    using ref dec(2) by (auto simp: VerifyToken_def validate_payload_def Access_def Refresh_def)
  have "\<exists>e. authMiddleware echojwt cfg t next_handler r s = (Inl e, s)"
    if "wr_header r ''Authorization'' = [''Bearer '' @ tp_refresh tk]"
    for t r s and next_handler :: "payload option \<Rightarrow> 's \<Rightarrow> (go_error + 'a) \<times> 's"
    using one_bearer [OF lib(2) that, of cfg t next_handler s] refresh [of t] by (auto split: sum.splits)
  moreover have "if t < expiry_of (tp_access_payload tk)
      then authMiddleware echojwt cfg t next_handler r s = next_handler (Some (tp_access_payload tk)) s
      else \<exists>e. authMiddleware echojwt cfg t next_handler r s = (Inl e, s)"
    if "wr_header r ''Authorization'' = [''Bearer '' @ tp_access tk]"
    for t r s and next_handler :: "payload option \<Rightarrow> 's \<Rightarrow> (go_error + 'a) \<times> 's"
    using one_bearer [OF lib(2) that, of cfg t next_handler s] access [of t] by (auto split: if_splits)
  ultimately show ?thesis
    using 1 acc
    by (intro exI [of _ "tp_access_payload tk"] exI [of _ "refresh_cookie srv tk"])
      (simp add: newUserResponse_def refresh_cookie_def)
qed

section \<open>Witnesses\<close>

text \<open>A middleware as documented: exactly one header, exactly the scheme \<open>Bearer\<close>.\<close>

definition bearer_only :: "jwt_lib \<Rightarrow> echo_jwt" where
  "bearer_only lib c t h =
     (case h ''Authorization'' of
        [v] \<Rightarrow> (if take 7 v = ''Bearer ''
                then VerifyToken lib (ej_signing_key c) t (drop 7 v) (ep_expected_type (ej_new_claims c))
                else Inl (PlainError ''missing or malformed jwt''))
      | _ \<Rightarrow> Inl (PlainError ''missing or malformed jwt''))"

lemma bearer_only_ok: "echo_jwt_library lib (bearer_only lib)"
proof -
  have "\<exists>scheme raw. scheme @ raw \<in> set (h ''Authorization'') \<and> equal_fold scheme ''Bearer '' \<and>
      VerifyToken lib (ej_signing_key c) t raw (ep_expected_type (ej_new_claims c)) = Inr p"
    if run: "bearer_only lib c t h = Inr p" for c t h p
  proof -
    obtain v where v: "h ''Authorization'' = [v]" "take 7 v = ''Bearer ''"
      "VerifyToken lib (ej_signing_key c) t (drop 7 v) (ep_expected_type (ej_new_claims c)) = Inr p"
      using run by (auto simp: bearer_only_def split: list.splits if_splits)
    have "''Bearer '' @ drop 7 v \<in> set (h ''Authorization'')"
      using append_take_drop_id [of 7 v] unfolding v(1) v(2) by simp
    moreover have "equal_fold ''Bearer '' ''Bearer ''" by (simp add: equal_fold_def)
    ultimately show ?thesis using v(3) by blast
  qed
  then show ?thesis unfolding echo_jwt_library_def by (simp add: bearer_only_def)
qed

definition with_bearer :: "string \<Rightarrow> web_request" where
  "with_bearer tok = \<lparr>wr_method = ''POST'', wr_path = ''/api/v1/transfers'', wr_host = ''bank.org'',
     wr_remote_addr = ''192.0.2.7:443'', wr_tls = True,
     wr_header = (\<lambda>k. if k = ''Authorization'' then [''Bearer '' @ tok] else [])\<rparr>"

abbreviation bearer_call :: "string \<Rightarrow> transfer_response response pg_op" where
  "bearer_call tok \<equiv> authMiddleware (bearer_only user_lib) sample_config second
     (createTransfer sample_parse sample_env sample_config (Some pay_request) (\<lambda>q. 0 < trq_amount q))
     (with_bearer tok)"

lemma alice_token:
  "VerifyToken user_lib sample_key second (sample_key @ ''.a'') Access = Inr alice_auth"
proof -
  have "decode user_lib sample_key (sample_key @ ''.a'') = Some alice_auth"
    by (simp add: user_lib_def table_lib_def alice_auth_def)
  then show ?thesis
    by (simp add: VerifyToken_def token_expired_def not_yet_valid_def validate_payload_def alice_auth_def
        sample_claims_def Refresh_def Access_def second_def)
qed

lemma sample_secret: "JWTSecret sample_config = sample_key"
  by (simp add: sample_config_def sample_key_def)

lemma bearer_pays: "bearer_call (sample_key @ ''.a'') s = pay_call s"
  using one_bearer [OF bearer_only_ok, of "with_bearer (sample_key @ ''.a'')" "sample_key @ ''.a''" user_lib
      sample_config second] alice_token
  by (simp add: with_bearer_def sample_secret)

theorem bearer_spends_witness:
  "(\<exists>p. bears user_lib sample_key second (with_bearer (sample_key @ ''.a'')) p \<and>
      admitted sample_parse sample_config pay_request p sample_db) \<and>
   map acc_balance (accounts (tables (after (bearer_call (sample_key @ ''.a'')) start))) = [70, 30]"
proof -
  have paid: "map acc_balance (accounts (tables (after pay_call start))) = [70, 30]"
    "tables (after pay_call start) \<noteq> sample_db" by code_simp+
  moreover have "jwt_library user_lib" using user_lib_ok by simp
  ultimately show ?thesis
    using bearer_spends [OF _ bearer_only_ok _ _ bearer_pays [THEN trans, OF run_eq [of pay_call start]]]
      sample_schema sample_secret bearer_pays by auto
qed

abbreviation login_body :: login_response where
  "login_body \<equiv> snd (projr (fst (login_call (web_start []))))"

theorem login_identifies_witness:
  "\<exists>p. pl_username p = urs_username (lrs_user login_body) \<and>
     (\<forall>t. (if t < lrs_access_token_expires_at login_body
          then authMiddleware (bearer_only user_lib) sample_config t (\<lambda>auth s. (Inr auth, s))
            (with_bearer (lrs_access_token login_body)) start = (Inr (Some p), start)
          else isl (fst (authMiddleware (bearer_only user_lib) sample_config t (\<lambda>auth s. (Inr auth, s))
            (with_bearer (lrs_access_token login_body)) start))))"
proof -
  obtain st where "login_call (web_start []) = (Inr (st, login_body), snd (login_call (web_start [])))"
    using login_ok by (cases "fst (login_call (web_start []))") (auto simp: prod_eq_iff)
  note run = this
  have lib: "jwt_library (srv_jwt user_server)" by (rule user_lib_ok)
  have mw: "echo_jwt_library (srv_jwt user_server) (bearer_only user_lib)" using bearer_only_ok by simp
  have key: "srv_key user_server = JWTSecret sample_config" by (simp add: sample_secret)
  from login_identifies [where 'a = "payload option" and 's = pg, OF lib mw key run]
  obtain p where p: "pl_username p = urs_username (lrs_user login_body)"
    "\<And>t r (next_handler :: payload option \<Rightarrow> pg \<Rightarrow> (go_error + payload option) \<times> pg) s.
       wr_header r ''Authorization'' = [''Bearer '' @ lrs_access_token login_body] \<Longrightarrow>
         (if t < lrs_access_token_expires_at login_body
          then authMiddleware (bearer_only user_lib) sample_config t next_handler r s = next_handler (Some p) s
          else \<exists>e. authMiddleware (bearer_only user_lib) sample_config t next_handler r s = (Inl e, s))"
    by (elim exE conjE) metis
  have "wr_header (with_bearer (lrs_access_token login_body)) ''Authorization'' =
    [''Bearer '' @ lrs_access_token login_body]" by (simp add: with_bearer_def)
  from p(2) [OF this] p(1) show ?thesis by (metis fst_conv isl_def)
qed

end
