(* ===== verification/Journey.thy ===== *)
theory Journey
  imports Validation Worker
begin

text \<open>
  From the registration form to the first login: the form is accepted (\<open>createUser\<close>), the job that
  it queues sends a link (\<open>Work\<close>), the link is opened (\<open>verifyEmail\<close>), the user logs in
  (\<open>loginUser\<close>). In between, anything else may happen that leaves that user's row and links alone.
\<close>

section \<open>The parts put together\<close>

text \<open>
  The server and the workers as \<open>main\<close> builds them: passwords go through \<open>internal/password\<close>, secrets
  through \<open>internal/secret\<close>.
\<close>

definition deployed :: "bcrypt_lib \<Rightarrow> server \<Rightarrow> worker \<Rightarrow> bool" where
  "deployed bc srv wk \<longleftrightarrow>
     srv_hash srv = password_Hash bc \<and> srv_check srv = (\<lambda>pw h. password_Check bc pw h = None) \<and>
     srv_digest srv = secret_Digest (wk_sha256 wk)"

definition meanwhile :: "string \<Rightarrow> db \<Rightarrow> db \<Rightarrow> bool" where
  "meanwhile name d d' \<longleftrightarrow> schema_ok d' \<and> find_user name d' = find_user name d \<and>
     (\<forall>v. ve_username v = name \<and> find_code (ve_id v) d = Some v \<longrightarrow> find_code (ve_id v) d' = Some v)"

text \<open>Who may register may log in: the rules of the login form are weaker.\<close>

lemma login_form:
  assumes "newValidator lib = Inr cv" and "struct_valid lib cv (create_user_tags r)"
  shows "struct_valid lib cv (login_tags \<lparr>lrq_username = cur_username r, lrq_password = cur_password r\<rparr>)"
  using assms(2)
  by (auto simp: newValidator_rules [OF assms(1)] struct_valid_def create_user_tags_def login_tags_def)

section \<open>Logging in, by what the row says\<close>

lemma login_unverified:
  assumes "healthy (srv_env srv)" and "bindValidate bound valid = Inr req"
    and "find_user (lrq_username req) (tables (db_conn w)) = Some u"
    and "srv_check srv (lrq_password req) (usr_hashed_password u)" and "\<not> usr_is_email_verified u"
  shows "fst (loginUser srv rq bound valid w) = Inl verification_required"
  using assms by (simp add: loginUser_def andthen_def lift_res_def handle_def on_db_def GetUser_def query_row_def raise_def)

lemma CreateSession_healthy:
  assumes "healthy env" and "i \<notin> ses_id ` set (sessions (tables s))" and "un \<in> usr_username ` set (users (tables s))"
  shows "\<exists>x s'. CreateSession env i un h ag ip bl ex s = (Inr x, s')"
  using assms by (simp add: CreateSession_def createSession_sql_def Let_def)

lemma login_verified:
  assumes "healthy (srv_env srv)" and "bindValidate bound valid = Inr req"
    and u: "find_user (lrq_username req) (tables (db_conn w)) = Some u"
    and "srv_check srv (lrq_password req) (usr_hashed_password u)" and "usr_is_email_verified u"
    and "issueTokenPair srv rq (lrq_username req) roleDepositor = Inr tk"
    and "pl_id (tp_refresh_payload tk) \<notin> ses_id ` set (sessions (tables (db_conn w)))"
  shows "\<exists>body. fst (loginUser srv rq bound valid w) = Inr (200, body) \<and> lrs_user body = newUserResponse u \<and>
    lrs_access_token body = tp_access tk"
proof -
  have user: "u \<in> set (users (tables (db_conn w)))" "usr_username u = lrq_username req"
    using u by (auto simp: find_user_def dest: find_Some_set)
  then have "lrq_username req \<in> usr_username ` set (users (tables (step_tick (db_conn w))))"
    using image_eqI [of _ usr_username, OF user(2) [symmetric] user(1)] by simp
  then obtain x s' where "CreateSession (srv_env srv) (pl_id (tp_refresh_payload tk)) (lrq_username req)
      (srv_digest srv (tp_refresh tk)) (rq_user_agent rq) (rq_client_ip rq) False
      (expiry_of (tp_refresh_payload tk)) (step_tick (db_conn w)) = (Inr x, s')"
    using CreateSession_healthy [OF assms(1)] assms(7) by (metis step_tick_sel(1))
  then show ?thesis
    using assms user
    by (simp add: loginUser_def andthen_def lift_res_def handle_def on_db_def GetUser_def query_row_def
        map_error_def setRefreshCookie_def add_cookie_def ret_def)
qed

section \<open>The journey\<close>

text \<open>What the mail of the job contains, and what opening its link then does to the user's row.\<close>

lemma mail_opens:
  assumes job: "Work wk (SendVerifyEmailArgs name) d = (Inr (), d')"
    and mailer: "wk_send wk = Send lib m" "fills (wk_random wk)"
    and u: "find_user name (tables (dk_conn d)) = Some u"
    and between: "meanwhile name (tables (dk_conn d')) (tables (db_conn w))"
    and srv: "healthy (srv_env srv)" "srv_digest srv = secret_Digest (wk_sha256 wk)"
    and parse: "\<And>i. parse_uuid (uuid_string i) = Inr i"
  obtains v code where
    "dk_sent d' = dk_sent d @ [\<lparr>msg_from = sm_from m, msg_to = usr_email u,
       msg_subject = ''Welcome to SimpleBank'',
       msg_html = verification_body (usr_full_name u) (verification_link (wk_base_url wk) (ve_id v) code)\<rparr>]"
    "verify_emails (tables (dk_conn d')) = verify_emails (tables (dk_conn d)) @ [v]"
    "ve_expired_at v = ve_created_at v + 15 * 60 * second"
    "find_user name (tables (db_conn w)) = Some u"
    "time_at (srv_env srv) (tick (db_conn w)) < ve_expired_at v \<Longrightarrow>
       \<exists>w'. verifyEmail parse_uuid srv (uuid_string (ve_id v)) code w = (Inr (200, True), w') \<and>
         find_user name (tables (db_conn w')) = Some (u\<lparr>usr_is_email_verified := True\<rparr>)"
proof -
  from verification_mail_sent [OF job mailer] u obtain v code where
    code: "length code = 64" "ve_secret_code v = srv_digest srv code" and v: "ve_username v = name" "\<not> ve_is_used v"
    and t: "tables (dk_conn d') = (tables (dk_conn d))\<lparr>verify_emails := verify_emails (tables (dk_conn d)) @ [v]\<rparr>"
    and found: "find_code (ve_id v) (tables (dk_conn d')) = Some v"
    and expiry: "ve_expired_at v = ve_created_at v + 15 * 60 * second"
    and sent: "dk_sent d' = dk_sent d @ [\<lparr>msg_from = sm_from m, msg_to = usr_email u,
       msg_subject = ''Welcome to SimpleBank'',
       msg_html = verification_body (usr_full_name u) (verification_link (wk_base_url wk) (ve_id v) code)\<rparr>]"
    unfolding srv(2) by auto
  have ok: "schema_ok (tables (db_conn w))" and here: "find_user name (tables (db_conn w)) = Some u"
    and row: "find_code (ve_id v) (tables (db_conn w)) = Some v"
    using between u v(1) found t by (auto simp: meanwhile_def find_user_def)
  have web: "\<lparr>db_conn = db_conn w, set_cookies = set_cookies w\<rparr> = w" by simp
  have "code \<noteq> ''''" using code(1) by auto
  then have "\<exists>w'. verifyEmail parse_uuid srv (uuid_string (ve_id v)) code w = (Inr (200, True), w') \<and>
         find_user name (tables (db_conn w')) = Some (u\<lparr>usr_is_email_verified := True\<rparr>)"
    if "time_at (srv_env srv) (tick (db_conn w)) < ve_expired_at v"
    using live_link_redeems [of v "db_conn w" srv code parse_uuid "set_cookies w"] row v code(2) that srv(1) ok parse here
    unfolding web by auto
  then show thesis using that [OF sent _ expiry here] t by simp
qed

text \<open>What an answered registration has stored.\<close>

lemma registration_stored:
  assumes env: "healthy (srv_env srv)" "queue_delivers srv"
    and ids: "uuid_at (srv_env srv) (Suc (tick (db_conn w0))) \<notin> usr_id ` set (users (tables (db_conn w0)))"
    and fresh: "cur_username req \<notin> usr_username ` set (users (tables (db_conn w0)))"
      "cur_email req \<notin> usr_email ` set (users (tables (db_conn w0)))"
    and register: "createUser srv (Some req) valid w0 = (Inr resp, w1)"
  obtains u where "valid req" "find_user (cur_username req) (tables (db_conn w1)) = Some u"
    "srv_hash srv (cur_password req) = Inr (usr_hashed_password u)" "\<not> usr_is_email_verified u"
    "usr_username u = cur_username req" "usr_full_name u = cur_full_name req" "usr_email u = cur_email req"
    "srv_queue srv \<noteq> None \<longrightarrow> SendVerifyEmailArgs (cur_username req) \<in> set (jobs (tables (db_conn w1)))"
proof -
  have bound: "bindValidate (Some req) valid = Inr req"
    using register by (auto simp: createUser_def andthen_Inr bindValidate_Inr)
  obtain h where h: "srv_hash srv (cur_password req) = Inr h"
    using register bound by (auto simp: createUser_def andthen_Inr)
  obtain u where u: "registered \<lparr>cu_username = cur_username req, cu_hashed_password = h,
      cu_full_name = cur_full_name req, cu_email = cur_email req\<rparr> (tables (db_conn w0)) u"
    and w1: "enqueued srv (SendVerifyEmailArgs (cur_username req))
      ((tables (db_conn w0))\<lparr>users := users (tables (db_conn w0)) @ [u]\<rparr>) (tables (db_conn w1))"
    using createUser_outcome [OF env ids bound h register] fresh by auto
  have "users (tables (db_conn w1)) = users (tables (db_conn w0)) @ [u]"
    using w1 by (auto simp: enqueued_def split: if_splits)
  moreover have "find_user (cur_username req) (tables (db_conn w0)) = None"
    using fresh(1) by (force simp: find_user_def find_None_set)
  ultimately have "find_user (cur_username req) (tables (db_conn w1)) = Some u"
    using u by (simp add: find_user_def find_append registered_def)
  moreover have "srv_queue srv \<noteq> None \<longrightarrow> SendVerifyEmailArgs (cur_username req) \<in> set (jobs (tables (db_conn w1)))"
    using w1 by (auto simp: enqueued_def)
  ultimately show thesis
    using that [of u] bound h u by (simp add: bindValidate_Inr registered_def)
qed

text \<open>
  C12 (functional). From the form to the first login. On a working database and queue, let a registration
  that the form's rules accept be answered, for a name and an address nobody has. It stores the user and
  queues their job; that job, when it succeeds, sends one mail, to that address, with a link good for
  fifteen minutes; until the link is opened the user's own password is answered with
  \<open>email_verification_required\<close>; opening it in time is accepted; and from then on name and password, which
  the login form's rules accept too, open a session of that user. Anything may happen in between that
  leaves this user's row and links in the tables.
\<close>

theorem first_login:
  assumes parts: "deployed bc srv wk" "bcrypt_library bc" "newValidator vl = Inr cv"
    "healthy (srv_env srv)" "queue_delivers srv" "wk_send wk = Send lib m" "fills (wk_random wk)"
    "\<And>i. parse_uuid (uuid_string i) = Inr i"
    and ids: "uuid_at (srv_env srv) (Suc (tick (db_conn w0))) \<notin> usr_id ` set (users (tables (db_conn w0)))"
    and fresh: "cur_username req \<notin> usr_username ` set (users (tables (db_conn w0)))"
      "cur_email req \<notin> usr_email ` set (users (tables (db_conn w0)))"
    and register: "createUser srv (Some req) (\<lambda>q. struct_valid vl cv (create_user_tags q)) w0 = (Inr resp, w1)"
    and then1: "meanwhile (cur_username req) (tables (db_conn w1)) (tables (dk_conn d1))"
    and job: "Work wk (SendVerifyEmailArgs (cur_username req)) d1 = (Inr (), d2)"
    and then2: "meanwhile (cur_username req) (tables (dk_conn d2)) (tables (db_conn w2))"
  defines "login \<equiv> \<lambda>rq. loginUser srv rq
      (Some \<lparr>lrq_username = cur_username req, lrq_password = cur_password req\<rparr>)
      (\<lambda>q. struct_valid vl cv (login_tags q))"
  shows "(srv_queue srv \<noteq> None \<longrightarrow> SendVerifyEmailArgs (cur_username req) \<in> set (jobs (tables (db_conn w1)))) \<and>
    (\<forall>rq. fst (login rq w2) = Inl verification_required) \<and>
    (\<exists>v code. verify_emails (tables (dk_conn d2)) = verify_emails (tables (dk_conn d1)) @ [v] \<and>
       ve_expired_at v = ve_created_at v + 15 * 60 * second \<and>
       dk_sent d2 = dk_sent d1 @ [\<lparr>msg_from = sm_from m, msg_to = cur_email req,
         msg_subject = ''Welcome to SimpleBank'',
         msg_html = verification_body (cur_full_name req) (verification_link (wk_base_url wk) (ve_id v) code)\<rparr>] \<and>
       (time_at (srv_env srv) (tick (db_conn w2)) < ve_expired_at v \<longrightarrow>
          (\<exists>w3. verifyEmail parse_uuid srv (uuid_string (ve_id v)) code w2 = (Inr (200, True), w3) \<and>
             (\<forall>w4 rq tk. meanwhile (cur_username req) (tables (db_conn w3)) (tables (db_conn w4)) \<and>
                issueTokenPair srv rq (cur_username req) roleDepositor = Inr tk \<and>
                pl_id (tp_refresh_payload tk) \<notin> ses_id ` set (sessions (tables (db_conn w4))) \<longrightarrow>
                (\<exists>body. fst (login rq w4) = Inr (200, body) \<and> lrs_access_token body = tp_access tk \<and>
                   urs_username (lrs_user body) = cur_username req \<and> urs_email (lrs_user body) = cur_email req)))))"
proof -
  let ?name = "cur_username req" and ?valid = "\<lambda>q. struct_valid vl cv (create_user_tags q)"
  let ?form = "\<lparr>lrq_username = ?name, lrq_password = cur_password req\<rparr>"
  have srv: "srv_hash srv = password_Hash bc" "srv_check srv = (\<lambda>pw h. password_Check bc pw h = None)"
    "srv_digest srv = secret_Digest (wk_sha256 wk)" using parts(1) by (simp_all add: deployed_def)
  from registration_stored [OF parts(4,5) ids fresh register] obtain u where valid: "?valid req"
    and found: "find_user ?name (tables (db_conn w1)) = Some u" and h: "srv_hash srv (cur_password req) = Inr (usr_hashed_password u)"
    and u: "\<not> usr_is_email_verified u" "usr_username u = ?name" "usr_full_name u = cur_full_name req"
      "usr_email u = cur_email req"
    and queued: "srv_queue srv \<noteq> None \<longrightarrow> SendVerifyEmailArgs ?name \<in> set (jobs (tables (db_conn w1)))" .
  have found1: "find_user ?name (tables (dk_conn d1)) = Some u" using found then1 by (simp add: meanwhile_def)
  from mail_opens [OF job parts(6,7) found1 then2 parts(4) srv(3) parts(8)] obtain v code where
    mail: "dk_sent d2 = dk_sent d1 @ [\<lparr>msg_from = sm_from m, msg_to = usr_email u,
       msg_subject = ''Welcome to SimpleBank'',
       msg_html = verification_body (usr_full_name u) (verification_link (wk_base_url wk) (ve_id v) code)\<rparr>]"
    and row: "verify_emails (tables (dk_conn d2)) = verify_emails (tables (dk_conn d1)) @ [v]"
      "ve_expired_at v = ve_created_at v + 15 * 60 * second"
    and found2: "find_user ?name (tables (db_conn w2)) = Some u"
    and opens: "time_at (srv_env srv) (tick (db_conn w2)) < ve_expired_at v \<Longrightarrow>
       \<exists>w'. verifyEmail parse_uuid srv (uuid_string (ve_id v)) code w2 = (Inr (200, True), w') \<and>
         find_user ?name (tables (db_conn w')) = Some (u\<lparr>usr_is_email_verified := True\<rparr>)" by blast
  have form: "bindValidate (Some ?form) (\<lambda>q. struct_valid vl cv (login_tags q)) = Inr ?form"
    using login_form [OF parts(3) valid] by (simp add: bindValidate_Inr)
  have check: "srv_check srv (lrq_password ?form) (usr_hashed_password u)"
    using hashed_checks [OF parts(2)] h srv by simp
  have before: "fst (login rq w2) = Inl verification_required" for rq
    unfolding login_def using login_unverified [OF parts(4) form _ check, of w2 rq] found2 u by simp
  have after: "\<exists>body. fst (login rq w4) = Inr (200, body) \<and> lrs_access_token body = tp_access tk \<and>
      urs_username (lrs_user body) = ?name \<and> urs_email (lrs_user body) = cur_email req"
    if "find_user ?name (tables (db_conn w3)) = Some (u\<lparr>usr_is_email_verified := True\<rparr>)"
      "meanwhile ?name (tables (db_conn w3)) (tables (db_conn w4))" "issueTokenPair srv rq ?name roleDepositor = Inr tk"
      "pl_id (tp_refresh_payload tk) \<notin> ses_id ` set (sessions (tables (db_conn w4)))" for w3 w4 rq tk
    unfolding login_def
    using login_verified [OF parts(4) form, of w4 "u\<lparr>usr_is_email_verified := True\<rparr>" rq tk] that check u
    by (auto simp: meanwhile_def newUserResponse_def)
  show ?thesis
    by (intro conjI allI exI [of _ v] exI [of _ code] queued before)
      (use mail row opens after u in \<open>simp_all, blast\<close>)
qed

section \<open>Witness\<close>

text \<open>Reading a canonical UUID back, and nothing else.\<close>

definition hex_value :: "char \<Rightarrow> int" where
  "hex_value c = (let n = of_char c in if n < 58 then n - 48 else n - 87)"

definition hex_fold :: "int \<Rightarrow> string \<Rightarrow> int" where
  "hex_fold = foldl (\<lambda>v c. 16 * v + hex_value c)"

definition parse_canonical :: "string \<Rightarrow> go_error + uuid" where
  "parse_canonical str =
     (let u = word_of_int (hex_fold 0 (filter (\<lambda>c. c \<noteq> CHR ''-'') str)) in
      if uuid_string u = str then Inr u else Inl (PlainError ''invalid UUID''))"

lemma hex_value_digit: "0 \<le> d \<Longrightarrow> d < 16 \<Longrightarrow> hex_value (hex_digit d) = d \<and> hex_digit d \<noteq> CHR ''-''"
proof -
  assume d: "0 \<le> d" "d < 16"
  then have "d \<in> set (map int [0..<16])" by (auto intro: image_eqI [of _ _ "nat d"])
  moreover have "\<forall>d \<in> set (map int [0..<16]). hex_value (hex_digit d) = d \<and> hex_digit d \<noteq> CHR ''-''" by code_simp
  ultimately show ?thesis by blast
qed

lemma hex_fold_uuid:
  "0 \<le> n \<Longrightarrow> n < 16 ^ k \<Longrightarrow> hex_fold v (filter (\<lambda>c. c \<noteq> CHR ''-'') (uuid_chars k n)) = v * 16 ^ k + n"
proof (induction k arbitrary: v n)
  case 0
  then show ?case by (simp add: hex_fold_def)
next
  case (Suc k)
  let ?d = "n div 16 ^ k"
  have "0 \<le> ?d" using Suc.prems by (simp add: pos_imp_zdiv_nonneg_iff)
  moreover have "?d < 16"
  proof (rule ccontr)
    assume "\<not> ?d < 16"
    then have "16 * 16 ^ k \<le> ?d * 16 ^ k" by (intro mult_right_mono) simp_all
    moreover have "?d * 16 ^ k + n mod 16 ^ k = n" by (rule div_mult_mod_eq)
    moreover have "0 \<le> n mod 16 ^ k" by simp
    moreover have "n < 16 * 16 ^ k" using Suc.prems(2) by simp
    ultimately show False by linarith
  qed
  ultimately have d: "hex_value (hex_digit ?d) = ?d" "hex_digit ?d \<noteq> CHR ''-''" using hex_value_digit by blast+
  have "hex_fold (16 * v + ?d) (filter (\<lambda>c. c \<noteq> CHR ''-'') (uuid_chars k (n mod 16 ^ k))) =
      (16 * v + ?d) * 16 ^ k + n mod 16 ^ k"
    by (rule Suc.IH) simp_all
  also have "\<dots> = v * 16 ^ Suc k + n" by (simp add: algebra_simps)
  finally show ?case using d by (simp add: hex_fold_def)
qed

lemma parse_canonical_string: "parse_canonical (uuid_string u) = Inr u"
proof -
  have "uint u < 16 ^ 32" using uint_lt2p [of u] by simp
  then have "hex_fold 0 (filter (\<lambda>c. c \<noteq> CHR ''-'') (uuid_string u)) = uint u"
    using hex_fold_uuid [of "uint u" 32 0] by (simp add: uuid_string_def)
  then show ?thesis by (simp add: parse_canonical_def Let_def)
qed

text \<open>Carol's way in.\<close>

definition carol_claims :: "string \<Rightarrow> payload" where
  "carol_claims ty = (sample_claims ty)\<lparr>pl_username := ''carol'', pl_subject := ''carol''\<rparr>"

definition carol_server :: server where
  "carol_server = user_server\<lparr>
     srv_jwt := table_lib [(carol_claims Access, ''.a''), (carol_claims Refresh, ''.r'')],
     srv_hash := password_Hash sample_bcrypt,
     srv_check := (\<lambda>pw h. password_Check sample_bcrypt pw h = None),
     srv_digest := secret_Digest (wk_sha256 sample_worker)\<rparr>"

abbreviation carol_signs_up :: "web \<Rightarrow> (go_error + string response) \<times> web" where
  "carol_signs_up \<equiv> createUser carol_server (Some carol_request)
     (\<lambda>q. struct_valid sample_validator [(''maxbytes'', validateMaxBytes)] (create_user_tags q))"

lemma carol_bound:
  "carol_signs_up w = createUser carol_server (Some carol_request) (\<lambda>_. True) w"
  using carol_valid by (simp add: createUser_def bindValidate_def cv_Validate_def)

definition signed_up :: web where
  "signed_up = snd (carol_signs_up (web_start []))"

definition carol_mail :: "(go_error + unit) \<times> desk" where
  "carol_mail = Work sample_worker (SendVerifyEmailArgs ''carol'') \<lparr>dk_conn = db_conn signed_up, dk_sent = []\<rparr>"

definition mailed :: web where
  "mailed = \<lparr>db_conn = dk_conn (snd carol_mail), set_cookies = []\<rparr>"

definition carol_user :: user where
  "carol_user = \<lparr>usr_id = 1001, usr_username = ''carol'', usr_hashed_password = ''$2a$correct horse battery'',
     usr_full_name = ''Carol'', usr_email = ''carol@example.org'', usr_is_email_verified = False,
     usr_password_changed_at = zero_time, usr_created_at = 0\<rparr>"

definition carol_db :: db where
  "carol_db = sample_db\<lparr>users := [(sample_user 1 ''alice'')\<lparr>usr_is_email_verified := True\<rparr>,
     sample_user 2 ''bob'', carol_user], sessions := [], jobs := [SendVerifyEmailArgs ''carol'']\<rparr>"

lemma signed_up_eq:
  "createUser carol_server (Some carol_request) (\<lambda>_. True) (web_start []) =
     (Inr (202, verificationAccepted), \<lparr>db_conn = (connect_db carol_db)\<lparr>tick := 4\<rparr>, set_cookies = []\<rparr>)"
proof -
  have srv: "srv_hash carol_server pw = password_Hash sample_bcrypt pw" "srv_env carol_server = sample_env"
    "srv_queue carol_server = Some sample_enqueue" for pw
    by (simp_all add: carol_server_def)
  have hash: "password_Hash sample_bcrypt ''correct horse battery'' = Inr ''$2a$correct horse battery''"
    by (simp add: password_Hash_def sample_bcrypt_def)
  have ctx: "fault_at sample_env n = None" "uuid_at sample_env n = word_of_int (1000 + int n)"
    "time_at sample_env n = int n * second" for n by (simp_all add: sample_env_def)
  show ?thesis
    by (simp add: createUser_def bindValidate_def cv_Validate_def andthen_def lift_res_def handle_def on_db_def
      CreateUserTx_def execTx_defs healthy_execTx [OF sample_healthy, unfolded execTx_defs] user_body_def map_error_def
      CreateUser_def createUser_sql_def queueVerifyEmailTx_def queue_job_def sample_enqueue_def run_sql_def
      ctx ctx_of_def srv hash carol_request_def carol_db_def carol_user_def web_start_def sample_user_def
      sample_db_def empty_db_def ret_def step_tick_def connect_db_def publish_pending_def Let_def begin_tx_def commit_def)
qed
lemma signed_up_sel:
  "tables (db_conn signed_up) = carol_db" "tick (db_conn signed_up) = 4" "tx_start (db_conn signed_up) = None"
  by (simp_all add: signed_up_def carol_bound signed_up_eq)

lemma signed_up_run: "carol_signs_up (web_start []) = (Inr (202, verificationAccepted), signed_up)"
  by (simp add: signed_up_def carol_bound signed_up_eq)

lemma carol_db_ok: "schema_ok carol_db"
  by code_simp

definition carol_secret :: string where
  "carol_secret = hex_encode (replicate 32 0xa7)"

definition carol_code :: verify_email where
  "carol_code = \<lparr>ve_id = 1005, ve_username = ''carol'', ve_email = ''carol@example.org'',
     ve_secret_code = secret_Digest (wk_sha256 sample_worker) carol_secret, ve_is_used = False,
     ve_created_at = 5 * second, ve_expired_at = 905 * second\<rparr>"

lemma carol_db_sel: "verify_emails carol_db = [sample_code]"
  by (simp add: carol_db_def sample_db_def)

lemma carol_found: "find_user ''carol'' carol_db = Some carol_user"
  by (simp add: find_user_def carol_db_def sample_user_def carol_user_def)

lemma carol_mail_run:
  "\<exists>sent s. carol_mail = (Inr (), \<lparr>dk_conn = s, dk_sent = sent\<rparr>) \<and>
     tables s = carol_db\<lparr>verify_emails := [sample_code, carol_code]\<rparr> \<and> tick s = 6"
proof -
  have names: "''carol'' \<in> usr_username ` set (users carol_db)" "verify_emails carol_db = [sample_code]"
    "ve_id sample_code = 30"
    by (simp_all add: carol_db_def carol_user_def sample_db_def sample_code_def)
  have worker: "wk_env sample_worker = sample_env" "wk_send sample_worker = Send sample_smtp sample_mailer"
    "secret_Token (wk_random sample_worker) 32 = Inr carol_secret"
    by (simp_all add: sample_worker_def secret_Token_def carol_secret_def)
  have posts: "smtp_address sample_smtp (sm_from sample_mailer) = None"
    "smtp_address sample_smtp ''carol@example.org'' = None" "smtp_deliver sample_smtp c msg = Delivered" for c msg
    by (simp_all add: sample_smtp_def sample_mailer_def)
  have user: "usr_username carol_user = ''carol''" "usr_email carol_user = ''carol@example.org''"
    by (simp_all add: carol_user_def)
  have ctx: "fault_at sample_env n = None" "uuid_at sample_env n = word_of_int (1000 + int n)"
    "time_at sample_env n = int n * second" for n by (simp_all add: sample_env_def)
  show ?thesis
    by (simp add: carol_mail_def Work_def verify_email_Work_def andthen_def map_error_def in_db_def in_mail_def
        lift_res_def Let_def worker GetUser_def run_sql_def query_row_def CreateVerifyEmail_def
        createVerifyEmail_sql_def ctx ctx_of_def carol_found names user signed_up_sel Send_def posts carol_code_def
        step_tick_def second_def)
qed

lemma mailed_sel:
  "tables (db_conn mailed) = carol_db\<lparr>verify_emails := [sample_code, carol_code]\<rparr>" "tick (db_conn mailed) = 6"
  "carol_mail = (Inr (), snd carol_mail)" "db_conn mailed = dk_conn (snd carol_mail)"
proof -
  obtain sent s where s: "carol_mail = (Inr (), \<lparr>dk_conn = s, dk_sent = sent\<rparr>)"
    "tables s = carol_db\<lparr>verify_emails := [sample_code, carol_code]\<rparr>" "tick s = 6"
    using carol_mail_run by blast
  show "tables (db_conn mailed) = carol_db\<lparr>verify_emails := [sample_code, carol_code]\<rparr>" "tick (db_conn mailed) = 6"
    "carol_mail = (Inr (), snd carol_mail)" "db_conn mailed = dk_conn (snd carol_mail)"
    using s(2,3) by (simp_all add: mailed_def s(1))
qed

lemma schema_verify_emails:
  "schema_ok d \<Longrightarrow> verify_emails_ok (d\<lparr>verify_emails := vs\<rparr>) \<Longrightarrow> schema_ok (d\<lparr>verify_emails := vs\<rparr>)"
  by (simp add: schema_ok_def table_ok_defs)

lemma carol_meanwhile:
  "meanwhile ''carol'' (tables (db_conn signed_up)) (tables (db_conn signed_up))"
  "meanwhile ''carol'' (tables (dk_conn (snd carol_mail))) (tables (db_conn mailed))"
proof -
  have "ve_id sample_code = 30" "ve_username sample_code = ''alice''" "verify_emails carol_db = [sample_code]"
    "usr_username ` set (users carol_db) = {''alice'', ''bob'', ''carol''}"
    by (simp_all add: carol_db_def carol_user_def sample_user_def sample_db_def sample_code_def)
  then have "verify_emails_ok (carol_db\<lparr>verify_emails := [sample_code, carol_code]\<rparr>)"
    by (simp add: verify_emails_ok_def carol_code_def)
  then have "schema_ok (tables (db_conn mailed))"
    unfolding mailed_sel(1) by (rule schema_verify_emails [OF carol_db_ok])
  then show "meanwhile ''carol'' (tables (dk_conn (snd carol_mail))) (tables (db_conn mailed))"
    by (simp add: meanwhile_def mailed_sel(4))
  show "meanwhile ''carol'' (tables (db_conn signed_up)) (tables (db_conn signed_up))"
    using carol_db_ok by (simp add: meanwhile_def signed_up_sel)
qed

abbreviation carol_login :: "request \<Rightarrow> web \<Rightarrow> (go_error + login_response response) \<times> web" where
  "carol_login rq \<equiv> loginUser carol_server rq
     (Some \<lparr>lrq_username = cur_username carol_request, lrq_password = cur_password carol_request\<rparr>)
     (\<lambda>q. struct_valid sample_validator [(''maxbytes'', validateMaxBytes)] (login_tags q))"

text \<open>The tokens that the server makes for Carol.\<close>

lemma carol_issues:
  "\<exists>tk. issueTokenPair carol_server (user_request second) ''carol'' roleDepositor = Inr tk \<and> pl_id (tp_refresh_payload tk) = 20"
proof -
  have pay: "NewPayloadWithID (srv_jwt carol_server) (sample_mint\<lparr>mint_id := 20\<rparr>) 20 ''carol'' ''depositor'' ty
      (900 * second) = carol_claims ty" for ty
  proof -
    have "numeric_date (srv_jwt carol_server) (10 * second + 7) = 10 * second"
      "numeric_date (srv_jwt carol_server) (10 * second + 7 + 900 * second) = 910 * second"
      by (simp_all add: carol_server_def table_lib_def second_def)
    then show ?thesis by (simp add: NewPayloadWithID_def carol_claims_def sample_claims_def sample_mint_def)
  qed
  have "sign (srv_jwt carol_server) key (carol_claims Access) = Inr (key @ ''.a'')"
    "sign (srv_jwt carol_server) key (carol_claims Refresh) = Inr (key @ ''.r'')" for key
    by (simp_all add: carol_server_def table_lib_def carol_claims_def sample_claims_def Access_def Refresh_def)
  moreover have "srv_key carol_server = sample_key" "AccessTTL (srv_config carol_server) = 900 * second"
    "RefreshTTL (srv_config carol_server) = 900 * second"
    by (simp_all add: carol_server_def user_server_def sample_config_def)
  ultimately have "issueTokenPair carol_server (user_request second) ''carol'' roleDepositor =
    Inr \<lparr>tp_access = sample_key @ ''.a'', tp_access_payload = carol_claims Access,
      tp_refresh = sample_key @ ''.r'', tp_refresh_payload = carol_claims Refresh\<rparr>"
    by (simp add: issueTokenPair_def issueTokenPairWithRefreshID_def CreateToken_def CreateTokenWithID_def
      NewPayload_def user_request_def pay signPayload_def roleDepositor_def)
  then show ?thesis by (simp add: carol_claims_def sample_claims_def)
qed

lemma verifyEmail_schema:
  assumes "verifyEmail parse_uuid srv i code w = (r, w')" and "schema_ok (tables (db_conn w))"
  shows "schema_ok (tables (db_conn w'))"
  using assms VerifyEmailTx_schema
  by (auto simp: verifyEmail_def handle_def on_db_def ret_def raise_def Let_def split: sum.splits prod.splits if_splits)

theorem first_login_witness:
  "map msg_to (dk_sent (snd carol_mail)) = [''carol@example.org''] \<and>
   fst (carol_login (user_request second) mailed) = Inl verification_required \<and>
   (\<exists>code w3 w4. verifyEmail parse_canonical carol_server (uuid_string 1005) code mailed = (Inr (200, True), w3) \<and>
      users (tables (db_conn w4)) = users (tables (db_conn w3)) \<and>
      (\<exists>body. fst (carol_login (user_request second) w4) = Inr (200, body) \<and> urs_username (lrs_user body) = ''carol''))"
proof -
  let ?cv = "[(''maxbytes'', validateMaxBytes)]"
  have parts: "deployed sample_bcrypt carol_server sample_worker" "newValidator sample_validator = Inr ?cv"
    "healthy (srv_env carol_server)" "queue_delivers carol_server" "wk_send sample_worker = Send sample_smtp sample_mailer"
    "fills (wk_random sample_worker)"
    using sample_queue_delivers
    by (simp_all add: deployed_def carol_server_def newValidator_def sample_validator_def sample_healthy
        queue_delivers_def enqueued_def sample_worker_def fills_def)
  have fresh: "uuid_at (srv_env carol_server) (Suc (tick (db_conn (web_start [])))) \<notin>
      usr_id ` set (users (tables (db_conn (web_start []))))"
    "cur_username carol_request \<notin> usr_username ` set (users (tables (db_conn (web_start []))))"
    "cur_email carol_request \<notin> usr_email ` set (users (tables (db_conn (web_start []))))"
    using sample_ids [of "[]"]
    by (simp_all add: carol_server_def carol_request_def web_start_def sample_user_def)
  have carol: "cur_username carol_request = ''carol''" "cur_email carol_request = ''carol@example.org''"
    by (simp_all add: carol_request_def)
  have job: "Work sample_worker (SendVerifyEmailArgs (cur_username carol_request)) \<lparr>dk_conn = db_conn signed_up, dk_sent = []\<rparr> =
      (Inr (), snd carol_mail)"
    using mailed_sel(3) by (simp add: carol_mail_def carol)
  have between: "meanwhile (cur_username carol_request) (tables (db_conn signed_up))
      (tables (dk_conn \<lparr>dk_conn = db_conn signed_up, dk_sent = []\<rparr>))"
    "meanwhile (cur_username carol_request) (tables (dk_conn (snd carol_mail))) (tables (db_conn mailed))"
    using carol_meanwhile by (simp_all add: carol)
  note use = first_login [OF parts(1) sample_bcrypt_ok parts(2-6) parse_canonical_string fresh signed_up_run
      between(1) job between(2)]
  from use obtain v code where
    row: "verify_emails (tables (dk_conn (snd carol_mail))) =
      verify_emails (tables (dk_conn \<lparr>dk_conn = db_conn signed_up, dk_sent = []\<rparr>)) @ [v]"
    and mail: "dk_sent (snd carol_mail) = dk_sent \<lparr>dk_conn = db_conn signed_up, dk_sent = []\<rparr> @
      [\<lparr>msg_from = sm_from sample_mailer, msg_to = cur_email carol_request, msg_subject = ''Welcome to SimpleBank'',
         msg_html = verification_body (cur_full_name carol_request)
           (verification_link (wk_base_url sample_worker) (ve_id v) code)\<rparr>]"
    and opens: "time_at (srv_env carol_server) (tick (db_conn mailed)) < ve_expired_at v \<longrightarrow>
      (\<exists>w3. verifyEmail parse_canonical carol_server (uuid_string (ve_id v)) code mailed = (Inr (200, True), w3) \<and>
        (\<forall>w4 rq tk. meanwhile (cur_username carol_request) (tables (db_conn w3)) (tables (db_conn w4)) \<and>
           issueTokenPair carol_server rq (cur_username carol_request) roleDepositor = Inr tk \<and>
           pl_id (tp_refresh_payload tk) \<notin> ses_id ` set (sessions (tables (db_conn w4))) \<longrightarrow>
           (\<exists>body. fst (carol_login rq w4) = Inr (200, body) \<and> lrs_access_token body = tp_access tk \<and>
              urs_username (lrs_user body) = cur_username carol_request \<and>
              urs_email (lrs_user body) = cur_email carol_request)))"
    by blast
  have sent: "map msg_to (dk_sent (snd carol_mail)) = [''carol@example.org'']" by (simp add: mail carol)
  have v: "v = carol_code"
    using row mailed_sel(1) unfolding mailed_sel(4) by (simp add: signed_up_sel carol_db_sel)
  have "time_at (srv_env carol_server) (tick (db_conn mailed)) < ve_expired_at v"
    by (simp add: v mailed_sel(2) carol_server_def sample_env_def carol_code_def second_def)
  then obtain w3 where w3: "verifyEmail parse_canonical carol_server (uuid_string (ve_id v)) code mailed = (Inr (200, True), w3)"
    and later: "\<forall>w4 rq tk. meanwhile (cur_username carol_request) (tables (db_conn w3)) (tables (db_conn w4)) \<and>
           issueTokenPair carol_server rq (cur_username carol_request) roleDepositor = Inr tk \<and>
           pl_id (tp_refresh_payload tk) \<notin> ses_id ` set (sessions (tables (db_conn w4))) \<longrightarrow>
           (\<exists>body. fst (carol_login rq w4) = Inr (200, body) \<and> lrs_access_token body = tp_access tk \<and>
              urs_username (lrs_user body) = cur_username carol_request \<and>
              urs_email (lrs_user body) = cur_email carol_request)"
    using opens by blast
  have id: "ve_id v = 1005" by (simp add: v carol_code_def)
  let ?w4 = "w3\<lparr>db_conn := (db_conn w3)\<lparr>tables := (tables (db_conn w3))\<lparr>sessions := []\<rparr>\<rparr>\<rparr>"
  have "schema_ok (tables (db_conn w3))"
    using verifyEmail_schema [OF w3] carol_meanwhile(2) by (simp add: meanwhile_def)
  then have "meanwhile ''carol'' (tables (db_conn w3)) (tables (db_conn ?w4))"
    by (auto simp: meanwhile_def schema_ok_def table_ok_defs find_user_def find_code_def)
  moreover obtain tk where "issueTokenPair carol_server (user_request second) ''carol'' roleDepositor = Inr tk"
    using carol_issues by blast
  ultimately have "\<exists>body. fst (carol_login (user_request second) ?w4) = Inr (200, body) \<and>
      urs_username (lrs_user body) = ''carol''"
    using later [rule_format, of ?w4 "user_request second" tk] by (auto simp: carol)
  moreover have "users (tables (db_conn ?w4)) = users (tables (db_conn w3))" by simp
  moreover have "fst (carol_login (user_request second) mailed) = Inl verification_required" using use by blast
  ultimately show ?thesis using sent w3 [unfolded id] by blast
qed

end
