(* ===== verification/Store.thy ===== *)
theory Store
  imports Transfer_Witnesses Account_Tx User_Tx Verify_Email_Tx Session_Tx Notification_Tx
begin

text \<open>
  \<open>internal/db/store.go\<close> and the interfaces in front of it (\<open>internal/db/sqlc/db.go\<close>,
  \<open>querier.go\<close>): what a \<open>Store\<close> is made of, the calls it takes, and what every history of such
  calls leaves as it was. A call is a value of \<open>store_call\<close>, one constructor per method of the
  interface with the arguments of the method; \<open>store_call\<close> itself runs nothing, \<open>serve_store\<close> does.
\<close>

section \<open>Handles\<close>

text \<open>
  A \<open>DBTX\<close> is whatever can run statements: the connection pool, or an open transaction. On the pool
  a statement is a transaction of its own, so the locks it takes are gone when it ends; in a
  transaction they are kept.
\<close>

datatype DBTX = Pool | Tx

record Queries =
  q_db :: DBTX

definition sqlc_New :: "DBTX \<Rightarrow> Queries" where
  "sqlc_New db = \<lparr>q_db = db\<rparr>"

definition WithTx :: "Queries \<Rightarrow> DBTX \<Rightarrow> Queries" where
  "WithTx q tx = \<lparr>q_db = tx\<rparr>"

definition through :: "Queries \<Rightarrow> 'a pg_op \<Rightarrow> 'a pg_op" where
  "through q m s =
     (case q_db q of
        Tx \<Rightarrow> m s
      | Pool \<Rightarrow> (let (r, s') = m s in (r, s'\<lparr>held := []\<rparr>)))"

text \<open>The two hooks are nil in a store made by \<open>New\<close>; \<open>pgxpool.Pool\<close> has no state here.\<close>

record SQLStore =
  st_queries :: Queries
  st_conn_pool :: DBTX

definition NewStore :: "DBTX \<Rightarrow> SQLStore" where
  "NewStore pool = \<lparr>st_queries = sqlc_New pool, st_conn_pool = pool\<rparr>"

section \<open>The calls of a store\<close>

datatype querier_call =
    Call_AddAccountBalance int uuid
  | Call_BlockSession uuid
  | Call_CountUnreadNotifications string
  | Call_CreateAccount string int string
  | Call_CreateEntry uuid int
  | Call_CreateNotification string uuid uuid
  | Call_CreateSession uuid string string string string bool time
  | Call_CreateTransfer uuid uuid int uuid
  | Call_CreateUser string string string string
  | Call_CreateVerifyEmail string string string
  | Call_GetAccount uuid
  | Call_GetAccountForUpdate uuid
  | Call_GetSession uuid
  | Call_GetSessionForUpdate uuid
  | Call_GetTransferBySourceAndIdempotencyKey uuid uuid
  | Call_GetUser string
  | Call_GetUserByEmail string
  | Call_ListAccounts string int int
  | Call_ListNotifications string bool time uuid int
  | Call_ListTransfersByAccount uuid int int
  | Call_LockNotificationOwner string
  | Call_MarkAllNotificationsRead string
  | Call_MarkNotificationRead uuid string
  | Call_PublishNotification uuid string
  | Call_RotateSession string time uuid
  | Call_SumOutgoingTransfersSince uuid
  | Call_UpdateVerifyEmail uuid string
  | Call_VerifyUserEmail string

text \<open>\<open>Store\<close> embeds \<open>Querier\<close> and adds the methods that are transactions.\<close>

datatype store_call =
    Querier querier_call
  | Call_TransferTx transfer_params
  | Call_CreateUserTx create_user_params "(user \<Rightarrow> unit pg_op) option"
  | Call_VerifyEmailTx uuid string
  | Call_CreateAccountTx string int string
  | Call_RotateSessionTx rotate_params
  | Call_ListNotificationsPage page_params
  | Call_MarkNotificationReadTx string uuid
  | Call_MarkAllNotificationsReadTx string

text \<open>What a call does; its result is of no concern here.\<close>

definition effect :: "'a pg_op \<Rightarrow> unit pg_op" where
  "effect m = andthen m (\<lambda>_. ret ())"

fun querier :: "pg_env \<Rightarrow> querier_call \<Rightarrow> unit pg_op" where
  "querier env (Call_AddAccountBalance amt i) = effect (AddAccountBalance env amt i)"
| "querier env (Call_BlockSession i) = effect (BlockSession env i)"
| "querier env (Call_CountUnreadNotifications owner) = effect (CountUnreadNotifications env owner)"
| "querier env (Call_CreateAccount owner bal cur) = effect (CreateAccount env owner bal cur)"
| "querier env (Call_CreateEntry i amt) = effect (CreateEntry env i amt)"
| "querier env (Call_CreateNotification dir tr i) = effect (CreateNotification env dir tr i)"
| "querier env (Call_CreateSession i un tk ag ip bl ex) = effect (CreateSession env i un tk ag ip bl ex)"
| "querier env (Call_CreateTransfer f t amt k) = effect (CreateTransfer env f t amt k)"
| "querier env (Call_CreateUser un h fn em) = effect (CreateUser env un h fn em)"
| "querier env (Call_CreateVerifyEmail un em code) = effect (CreateVerifyEmail env un em code)"
| "querier env (Call_GetAccount i) = effect (GetAccount env i)"
| "querier env (Call_GetAccountForUpdate i) = effect (GetAccountForUpdate env i)"
| "querier env (Call_GetSession i) = effect (GetSession env i)"
| "querier env (Call_GetSessionForUpdate i) = effect (GetSessionForUpdate env i)"
| "querier env (Call_GetTransferBySourceAndIdempotencyKey f k) = effect (GetTransferBySourceAndIdempotencyKey env f k)"
| "querier env (Call_GetUser un) = effect (GetUser env un)"
| "querier env (Call_GetUserByEmail em) = effect (GetUserByEmail env em)"
| "querier env (Call_ListAccounts owner lim off) = effect (ListAccounts env owner lim off)"
| "querier env (Call_ListNotifications owner has_cursor at i lim) = effect (ListNotifications env owner has_cursor at i lim)"
| "querier env (Call_ListTransfersByAccount i off lim) = effect (ListTransfersByAccount env i off lim)"
| "querier env (Call_LockNotificationOwner owner) = effect (LockNotificationOwner env owner)"
| "querier env (Call_MarkAllNotificationsRead owner) = effect (MarkAllNotificationsRead env owner)"
| "querier env (Call_MarkNotificationRead i owner) = effect (MarkNotificationRead env i owner)"
| "querier env (Call_PublishNotification i owner) = effect (PublishNotification env i owner)"
| "querier env (Call_RotateSession tk ex i) = effect (RotateSession env tk ex i)"
| "querier env (Call_SumOutgoingTransfersSince f) = effect (SumOutgoingTransfersSince env f)"
| "querier env (Call_UpdateVerifyEmail i code) = effect (UpdateVerifyEmail env i code)"
| "querier env (Call_VerifyUserEmail un) = effect (VerifyUserEmail env un)"

fun serve_store :: "pg_env \<Rightarrow> SQLStore \<Rightarrow> store_call \<Rightarrow> unit pg_op" where
  "serve_store env st (Querier c) = through (st_queries st) (querier env c)"
| "serve_store env st (Call_TransferTx arg) = effect (TransferTx env arg)"
| "serve_store env st (Call_CreateUserTx arg after_create) = effect (CreateUserTx env arg after_create)"
| "serve_store env st (Call_VerifyEmailTx i code) = effect (VerifyEmailTx env i code)"
| "serve_store env st (Call_CreateAccountTx owner bal cur) = effect (CreateAccountTx env owner bal cur)"
| "serve_store env st (Call_RotateSessionTx arg) = effect (RotateSessionTx env arg)"
| "serve_store env st (Call_ListNotificationsPage arg) = effect (ListNotificationsPage env arg)"
| "serve_store env st (Call_MarkNotificationReadTx owner i) = effect (MarkNotificationReadTx env owner i)"
| "serve_store env st (Call_MarkAllNotificationsReadTx owner) = effect (MarkAllNotificationsReadTx env owner)"

fun store_history :: "pg_env \<Rightarrow> SQLStore \<Rightarrow> store_call list \<Rightarrow> pg \<Rightarrow> pg" where
  "store_history env st [] s = s"
| "store_history env st (c # cs) s = store_history env st cs (snd (serve_store env st c s))"

section \<open>What is on record\<close>

text \<open>
  What later rows may differ in from earlier ones: an account in its balance, a user by having been
  verified, a link by having been used, a session in its token and expiry and by having been blocked, a
  notification by having been read, once. Entries and transfers never change. Rows are never deleted.
\<close>

definition same_account :: "account \<Rightarrow> account \<Rightarrow> bool" where
  "same_account a b \<longleftrightarrow> b = a\<lparr>acc_balance := acc_balance b\<rparr>"

definition same_user :: "user \<Rightarrow> user \<Rightarrow> bool" where
  "same_user u v \<longleftrightarrow> v = u\<lparr>usr_is_email_verified := usr_is_email_verified v\<rparr> \<and>
     (usr_is_email_verified u \<longrightarrow> usr_is_email_verified v)"

definition same_link :: "verify_email \<Rightarrow> verify_email \<Rightarrow> bool" where
  "same_link v w \<longleftrightarrow> w = v\<lparr>ve_is_used := ve_is_used w\<rparr> \<and> (ve_is_used v \<longrightarrow> ve_is_used w)"

definition same_session :: "session \<Rightarrow> session \<Rightarrow> bool" where
  "same_session x y \<longleftrightarrow>
     y = x\<lparr>ses_refresh_token := ses_refresh_token y, ses_expires_at := ses_expires_at y,
           ses_is_blocked := ses_is_blocked y\<rparr> \<and>
     (ses_is_blocked x \<longrightarrow> ses_is_blocked y)"

definition same_notification :: "notification \<Rightarrow> notification \<Rightarrow> bool" where
  "same_notification m n \<longleftrightarrow> n = m\<lparr>ntf_read_at := ntf_read_at n\<rparr> \<and>
     (ntf_read_at m \<noteq> None \<longrightarrow> ntf_read_at n = ntf_read_at m)"

lemmas same_row_defs = same_account_def same_user_def same_link_def same_session_def same_notification_def

definition kept :: "('r \<Rightarrow> 'r \<Rightarrow> bool) \<Rightarrow> 'r list \<Rightarrow> 'r list \<Rightarrow> bool" where
  "kept R xs ys \<longleftrightarrow> list_all2 R xs (take (length xs) ys)"

definition on_record :: "db \<Rightarrow> db \<Rightarrow> bool" where
  "on_record d d' \<longleftrightarrow>
     kept same_user (users d) (users d') \<and> kept same_link (verify_emails d) (verify_emails d') \<and>
     kept same_account (accounts d) (accounts d') \<and> kept (=) (entries d) (entries d') \<and>
     kept (=) (transfers d) (transfers d') \<and>
     kept same_notification (notifications d) (notifications d') \<and>
     kept same_session (sessions d) (sessions d')"

lemma kept_refl: "(\<And>x. R x x) \<Longrightarrow> kept R xs xs"
  by (simp add: kept_def list_all2_refl)

lemma kept_append: "kept R xs ys \<Longrightarrow> kept R xs (ys @ zs)"
  using list_all2_lengthD [of R xs "take (length xs) ys"] by (auto simp: kept_def min_def split: if_splits)

lemma kept_map:
  assumes "kept R xs ys" "\<And>x y. R x y \<Longrightarrow> R x (f y)"
  shows "kept R xs (map f ys)"
  using assms by (auto simp: kept_def take_map list_all2_map2 elim: list_all2_mono)

lemma kept_replace:
  "kept R xs ys \<Longrightarrow> (\<And>x y. R x y \<Longrightarrow> R x (f y)) \<Longrightarrow> kept R xs (replace_by k v f ys)"
  unfolding replace_by_def by (erule kept_map) simp

lemma kept_member:
  assumes "kept R xs ys" "x \<in> set xs"
  obtains y where "y \<in> set ys" "R x y"
  using assms unfolding kept_def list_all2_conv_all_nth
  by (metis in_set_conv_nth in_set_takeD nth_mem)

lemma on_record_refl [simp]: "on_record d d"
  by (simp add: on_record_def kept_refl same_row_defs)

section \<open>The statements\<close>

text \<open>
  \<open>stays R q\<close>: the statement \<open>q\<close>, whenever it succeeds, leaves what \<open>R\<close> fixes of any earlier tables.
\<close>

definition stays :: "(db \<Rightarrow> db \<Rightarrow> bool) \<Rightarrow> 'a sql \<Rightarrow> bool" where
  "stays R q \<longleftrightarrow> (\<forall>c d0 d x d'. R d0 d \<longrightarrow> q c d = Inr (x, d') \<longrightarrow> R d0 d')"

lemma staysI: "(\<And>c d0 d x d'. R d0 d \<Longrightarrow> q c d = Inr (x, d') \<Longrightarrow> R d0 d') \<Longrightarrow> stays R q"
  by (simp add: stays_def)

lemma stays_run: "stays R q \<Longrightarrow> keeps (on_tables (R d0)) (run_sql env q)"
  by (rule keeps_run_sql) (auto simp: stays_def)

lemma same_account_update: "same_account a b \<Longrightarrow> same_account a (b\<lparr>acc_balance := x\<rparr>)"
  by (cases a; cases b) (simp add: same_account_def)

lemma same_user_update: "same_user u v \<Longrightarrow> same_user u (v\<lparr>usr_is_email_verified := True\<rparr>)"
  by (cases u; cases v) (simp add: same_user_def)

lemma same_link_update: "same_link l k \<Longrightarrow> same_link l (k\<lparr>ve_is_used := True\<rparr>)"
  by (cases l; cases k) (simp add: same_link_def)

lemma same_session_update:
  "same_session p q \<Longrightarrow> same_session p (q\<lparr>ses_is_blocked := True\<rparr>)"
  "same_session p q \<Longrightarrow> same_session p (q\<lparr>ses_refresh_token := tk, ses_expires_at := ex\<rparr>)"
  by (cases p; cases q; simp add: same_session_def)+

lemma same_notification_update:
  "same_notification m n \<Longrightarrow> same_notification m (read_at_now t n)"
  "same_notification m n \<Longrightarrow> ntf_read_at n = None \<Longrightarrow> same_notification m (n\<lparr>ntf_read_at := Some t\<rparr>)"
  by (cases m; cases n; auto simp: same_notification_def read_at_now_def split: option.splits)+

lemmas same_row_updates = same_account_update same_user_update same_link_update same_session_update
  same_notification_update

lemma inserts_on_record:
  "stays on_record (createUser_sql un h fn em)"
  "stays on_record (createAccount_sql owner bal cur)"
  "stays on_record (createEntry_sql i amt)"
  "stays on_record (createTransfer_sql f t amt k)"
  "stays on_record (createSession_sql i un tk ag ip bl ex)"
  "stays on_record (createVerifyEmail_sql un em code)"
  by (rule staysI; auto simp: createUser_sql_def createAccount_sql_def createEntry_sql_def
      createTransfer_sql_def createSession_sql_def createVerifyEmail_sql_def Let_def on_record_def
      kept_append split: if_splits)+

lemma notification_on_record: "stays on_record (createNotification_sql dir tid aid)"
  by (rule staysI, erule createNotification_Inr) (simp add: on_record_def kept_append)

lemma updates_on_record:
  "stays on_record (addAccountBalance_sql amt i)"
  "stays on_record (update_session i (\<lambda>x. x\<lparr>ses_is_blocked := True\<rparr>))"
  "stays on_record (update_session i (\<lambda>x. x\<lparr>ses_refresh_token := tk, ses_expires_at := ex\<rparr>))"
  "stays on_record (verifyUserEmail_sql un)"
  "stays on_record (updateVerifyEmail_sql vi code)"
  "stays on_record (markNotificationRead_sql ni owner)"
  "stays on_record (markAllNotificationsRead_sql owner)"
  by (rule staysI; auto simp: addAccountBalance_sql_def update_session_def verifyUserEmail_sql_def
      updateVerifyEmail_sql_def markNotificationRead_sql_def markAllNotificationsRead_sql_def Let_def
      on_record_def intro!: kept_replace kept_map same_row_updates split: option.splits if_splits)+

lemma notified_on_record: "on_record d0 d \<Longrightarrow> on_record d0 (d\<lparr>notified := ns\<rparr>)"
  by (simp add: on_record_def)

lemma keeps_publish:
  assumes "\<And>d ns. I d \<Longrightarrow> I (d\<lparr>notified := ns\<rparr>)"
  shows "keeps (on_tables I) (PublishNotification env i owner)"
proof -
  have "keeps (on_tables I) (enqueue_notify m)" for m
    using assms by (simp add: keeps_def on_tables_def enqueue_notify_def split: option.split)
  then show ?thesis
    unfolding PublishNotification_def by (intro keeps_intros keeps_run_sql_read) auto
qed

lemma writes_on_record [sql_keeps]:
  "keeps (on_tables (on_record d0)) (CreateUser env un h fn em)"
  "keeps (on_tables (on_record d0)) (CreateAccount env owner b cur)"
  "keeps (on_tables (on_record d0)) (CreateEntry env i amt)"
  "keeps (on_tables (on_record d0)) (CreateTransfer env f t amt k)"
  "keeps (on_tables (on_record d0)) (CreateNotification env dir tid aid)"
  "keeps (on_tables (on_record d0)) (CreateSession env i un tk ag ip bl ex)"
  "keeps (on_tables (on_record d0)) (CreateVerifyEmail env un em code)"
  "keeps (on_tables (on_record d0)) (AddAccountBalance env amt i)"
  "keeps (on_tables (on_record d0)) (RotateSession env tk ex i)"
  "keeps (on_tables (on_record d0)) (BlockSession env i)"
  "keeps (on_tables (on_record d0)) (VerifyUserEmail env un)"
  "keeps (on_tables (on_record d0)) (UpdateVerifyEmail env i code)"
  "keeps (on_tables (on_record d0)) (MarkNotificationRead env i owner)"
  "keeps (on_tables (on_record d0)) (MarkAllNotificationsRead env owner)"
  "keeps (on_tables (on_record d0)) (PublishNotification env i owner)"
  unfolding CreateUser_def CreateAccount_def CreateEntry_def CreateTransfer_def
    CreateNotification_def CreateSession_def CreateVerifyEmail_def AddAccountBalance_def
    RotateSession_def BlockSession_def VerifyUserEmail_def UpdateVerifyEmail_def
    MarkNotificationRead_def MarkAllNotificationsRead_def
  by (intro stays_run inserts_on_record notification_on_record updates_on_record keeps_publish
      notified_on_record, assumption?)+

section \<open>The transactions\<close>

text \<open>A transaction keeps what its statements keep, and is over when it returns, however it ends.\<close>

lemma keeps_tx:
  assumes "keeps (on_tables I) body" "\<And>d ns. I d \<Longrightarrow> I (d\<lparr>notified := ns\<rparr>)"
  shows "keeps (on_tables I) (BeginTxFunc env body)"
proof -
  have "tx_body body I"
    by unfold_locales (use keepsD [OF assms(1)] assms(2) in \<open>auto simp: on_tables_def\<close>)
  then show ?thesis
    by (intro keepsI) (simp add: on_tables_def tx_body.BeginTxFunc_keeps)
qed

lemma keeps_txs:
  assumes "\<And>d ns. I d \<Longrightarrow> I (d\<lparr>notified := ns\<rparr>)"
  shows "keeps (on_tables I) (transfer_body env arg) \<Longrightarrow> keeps (on_tables I) (TransferTx env arg)"
    and "keeps (on_tables I) (account_body env owner bal cur) \<Longrightarrow> keeps (on_tables I) (CreateAccountTx env owner bal cur)"
    and "keeps (on_tables I) (user_body env cu ac) \<Longrightarrow> keeps (on_tables I) (CreateUserTx env cu ac)"
    and "keeps (on_tables I) (verify_body env i code) \<Longrightarrow> keeps (on_tables I) (VerifyEmailTx env i code)"
    and "keeps (on_tables I) (rotate_body env ra) \<Longrightarrow> keeps (on_tables I) (RotateSessionTx env ra)"
    and "keeps (on_tables I) (mark_read_body env owner i) \<Longrightarrow> keeps (on_tables I) (MarkNotificationReadTx env owner i)"
    and "keeps (on_tables I) (mark_all_body env owner) \<Longrightarrow> keeps (on_tables I) (MarkAllNotificationsReadTx env owner)"
    and "keeps (on_tables I) (ListNotificationsPage env pa)"
  using assms
  by (auto simp: execTx_defs CreateAccountTx_def CreateUserTx_def VerifyEmailTx_def RotateSessionTx_def
      MarkNotificationReadTx_def MarkAllNotificationsReadTx_def ListNotificationsPage_def
      intro!: TransferTx_keeps keeps_tx page_body_keeps)

lemma keeps_case_option [keeps_intros]:
  "keeps I m \<Longrightarrow> (\<And>x. keeps I (f x)) \<Longrightarrow> keeps I (case r of None \<Rightarrow> m | Some x \<Rightarrow> f x)"
  by (cases r) simp_all

lemma bodies_on_record:
  "keeps (on_tables (on_record d0)) (transfer_body env arg)"
  "keeps (on_tables (on_record d0)) (account_body env owner bal cur)"
  "keeps (on_tables (on_record d0)) (verify_body env i code)"
  "keeps (on_tables (on_record d0)) (rotate_body env ra)"
  "keeps (on_tables (on_record d0)) (mark_read_body env owner ni)"
  "keeps (on_tables (on_record d0)) (mark_all_body env owner)"
  unfolding transfer_body_def post_transfer_def move_rows_def notify_side_def account_body_def
    verify_body_def rotate_body_def mark_read_body_def mark_all_body_def
  by (intro keeps_intros sql_keeps lockAccounts_keeps transfer_checks_keeps)+

lemma user_body_keeps:
  assumes "\<And>un h fn em. keeps (on_tables I) (CreateUser env un h fn em)"
    and "\<And>f u. after_create = Some f \<Longrightarrow> keeps (on_tables I) (f u)"
  shows "keeps (on_tables I) (user_body env cu after_create)"
  unfolding user_body_def by (cases after_create) (auto intro!: keeps_intros assms)

text \<open>
  What the callers of the store owe it: the function that runs inside \<open>CreateUserTx\<close> adds jobs to the
  queue and leaves all other tables alone.
\<close>

definition only_jobs :: "unit pg_op \<Rightarrow> bool" where
  "only_jobs m \<longleftrightarrow> (\<forall>s. \<exists>js. tables (snd (m s)) = (tables s)\<lparr>jobs := js\<rparr>)"

fun call_ok :: "store_call \<Rightarrow> bool" where
  "call_ok (Call_CreateUserTx cu (Some f)) = (\<forall>u. only_jobs (f u))"
| "call_ok _ = True"

lemma only_jobs_keeps: "only_jobs m \<Longrightarrow> (\<And>d js. I d \<Longrightarrow> I (d\<lparr>jobs := js\<rparr>)) \<Longrightarrow> keeps (on_tables I) m"
  unfolding keeps_def on_tables_def only_jobs_def by metis

lemma jobs_free:
  "on_record d0 d \<Longrightarrow> on_record d0 (d\<lparr>jobs := js\<rparr>)" "schema_ok d \<Longrightarrow> schema_ok (d\<lparr>jobs := js\<rparr>)"
  by (simp_all add: on_record_def schema_defs)

lemma keeps_effect: "keeps I m \<Longrightarrow> keeps I (effect m)"
  unfolding effect_def by (intro keeps_intros)

lemma keeps_through: "keeps (on_tables I) m \<Longrightarrow> keeps (on_tables I) (through q m)"
  by (auto simp: keeps_def on_tables_def through_def Let_def split: DBTX.split prod.split)

lemma querier_schema: "keeps (on_tables schema_ok) (querier env c)"
  by (cases c; simp; intro keeps_effect sql_keeps)

lemma querier_on_record: "keeps (on_tables (on_record d0)) (querier env c)"
  by (cases c; simp; intro keeps_effect sql_keeps)

lemma store_keeps:
  assumes "call_ok c"
  shows "keeps (on_tables schema_ok) (serve_store env st c)"
    and "keeps (on_tables (on_record d0)) (serve_store env st c)"
proof -
  have user: "keeps (on_tables schema_ok) (user_body env cu ac)" "keeps (on_tables (on_record d0)) (user_body env cu ac)"
    if "c = Call_CreateUserTx cu ac" for cu ac
    using assms that
    by (cases ac; auto intro!: user_body_keeps sql_keeps only_jobs_keeps jobs_free)+
  show "keeps (on_tables schema_ok) (serve_store env st c)"
    by (cases c) (auto intro!: keeps_effect keeps_through querier_schema keeps_txs user
        transfer_body_keeps_schema account_body_keeps_schema verify_body_keeps_schema
        rotate_body_keeps_schema mark_bodies_keep_schema)
  show "keeps (on_tables (on_record d0)) (serve_store env st c)"
    by (cases c) (auto intro!: keeps_effect keeps_through querier_on_record keeps_txs user bodies_on_record
        notified_on_record)
qed

text \<open>Between calls no transaction is open, no lock is held and no message waits to be sent.\<close>

definition idle :: "pg \<Rightarrow> bool" where
  "idle s \<longleftrightarrow> tx_start s = None \<and> pending s = [] \<and> held s = []"

definition outside_tx :: "pg \<Rightarrow> bool" where
  "outside_tx s \<longleftrightarrow> tx_start s = None \<and> pending s = []"

lemma idle_run_sql: "keeps idle (run_sql env q)" "keeps outside_tx (run_sql env q)"
  by (auto simp: keeps_def idle_def outside_tx_def run_sql_def step_tick_def
      split: option.split sum.split prod.split)

lemma outside_tx_queues: "keeps outside_tx (hold l)" "keeps outside_tx (enqueue_notify msg)"
  by (auto simp: keeps_def outside_tx_def hold_def enqueue_notify_def)

lemma idle_tx: "keeps idle (BeginTxFunc env body)"
  by (auto simp: keeps_def idle_def BeginTxFunc_def rollback_def commit_def step_tick_def
      split: option.split sum.split prod.split commit_outcome.split)

lemma idle_TransferTx: "keeps idle (TransferTx env arg)"
  unfolding TransferTx_def transfer_move_def transfer_resolve_def replayTransfer_def GetAccount_def
    GetTransferBySourceAndIdempotencyKey_def execTx_defs
  by (intro keeps_intros idle_run_sql idle_tx)

lemma outside_tx_querier: "keeps outside_tx (querier env c)"
  unfolding effect_def AddAccountBalance_def
  by (cases c)
    (auto simp: AddAccountBalance_def BlockSession_def CountUnreadNotifications_def CreateAccount_def
      CreateEntry_def CreateNotification_def CreateSession_def CreateTransfer_def CreateUser_def
      CreateVerifyEmail_def GetAccount_def GetAccountForUpdate_def GetSession_def
      GetSessionForUpdate_def GetTransferBySourceAndIdempotencyKey_def GetUser_def GetUserByEmail_def
      ListAccounts_def ListNotifications_def ListTransfersByAccount_def LockNotificationOwner_def
      MarkAllNotificationsRead_def MarkNotificationRead_def PublishNotification_def RotateSession_def
      SumOutgoingTransfersSince_def UpdateVerifyEmail_def VerifyUserEmail_def
      intro!: keeps_effect keeps_intros idle_run_sql outside_tx_queues)

lemma idle_through:
  assumes "keeps outside_tx m"
  shows "keeps idle (through (st_queries (NewStore Pool)) m)"
proof (rule keepsI)
  fix s r s' assume s: "idle s" and run: "through (st_queries (NewStore Pool)) m s = (r, s')"
  have "outside_tx (snd (m s))" using assms s by (simp add: keeps_def idle_def outside_tx_def)
  then show "idle s'"
    using run by (simp add: through_def NewStore_def sqlc_New_def case_prod_beta idle_def outside_tx_def) auto
qed

lemma store_idle: "keeps idle (serve_store env (NewStore Pool) c)"
  by (cases c)
    (auto simp: execTx_defs CreateAccountTx_def CreateUserTx_def VerifyEmailTx_def RotateSessionTx_def
      MarkNotificationReadTx_def MarkAllNotificationsReadTx_def ListNotificationsPage_def
      intro!: keeps_effect idle_through outside_tx_querier idle_TransferTx idle_tx)

lemma store_history_keeps:
  assumes "\<And>c. c \<in> set cs \<Longrightarrow> keeps J (serve_store env st c)" "J s"
  shows "J (store_history env st cs s)"
  using assms by (induction cs arbitrary: s) (auto simp: keeps_def)

section \<open>The record of a store\<close>

text \<open>
  C14 (invariant). The store forgets nothing. On tables that meet the constraints of the schema, with no
  transaction open, whatever calls of its interface are made, single statements and transactions alike, in
  whatever order, with whatever arguments but one, and through any failures: the constraints still hold;
  entries and transfers are never changed and no row is ever deleted; an account only changes in its balance,
  a user who is verified stays so, a link that is used stays used, a session that is blocked stays blocked,
  and a notification keeps the time it was first read at; and no transaction is left open, no lock held and no
  message unsent. The one argument is \<open>AfterCreate\<close> of \<open>CreateUserTx\<close>, a function
  that is given the open transaction and could do anything with it: it is taken to add jobs to the queue and
  to leave all other tables alone, as the only one that the server passes does when its queue works
  (\<open>server_callback_ok\<close> in \<open>Bank_History\<close>).
\<close>

theorem store_forgets_nothing:
  assumes "schema_ok (tables s)" "idle s" "list_all call_ok cs"
    and "s' = store_history env (NewStore Pool) cs s"
  shows "schema_ok (tables s') \<and> on_record (tables s) (tables s') \<and> idle s'"
proof -
  have ok: "call_ok c" if "c \<in> set cs" for c using that assms(3) by (simp add: list_all_iff)
  have start: "on_tables schema_ok s" "on_tables (on_record (tables s)) s" using assms(1) by (simp_all add: on_tables_def)
  have "on_tables schema_ok s'" "on_tables (on_record (tables s)) s'" "idle s'"
    unfolding assms(4) using start assms(2)
    by (auto intro: store_history_keeps store_keeps ok store_idle)
  then show ?thesis by (simp add: on_tables_def)
qed

section \<open>Witness\<close>

text \<open>
  A registration and a payment, a raw entry, a notification read twice, a link redeemed twice, a
  session blocked and rotated, on the sample bank.
\<close>

definition some_calls :: "store_call list" where
  "some_calls =
    [Call_CreateUserTx carol (Some (\<lambda>_. ret ())), Call_TransferTx sample_arg,
     Call_MarkNotificationReadTx ''alice'' 1014, Call_MarkAllNotificationsReadTx ''alice'',
     Querier (Call_MarkNotificationRead 1014 ''alice''), Querier (Call_LockNotificationOwner ''alice''),
     Call_VerifyEmailTx 30 ''s3cret'', Call_VerifyEmailTx 30 ''s3cret'',
     Querier (Call_BlockSession 20), Querier (Call_RotateSession ''hash-2'' 0 20)]"

definition after_calls :: pg where
  "after_calls = store_history sample_env (NewStore Pool) some_calls start"

lemma after_calls_facts:
  "(map usr_is_email_verified (users (tables after_calls)), map ntf_read_at (notifications (tables after_calls)),
    map ses_is_blocked (sessions (tables after_calls)), map acc_balance (accounts (tables after_calls))) =
   ([True, False, False], [Some (19 * second), None], [True], [70, 30])"
  by code_simp

lemma some_calls_ok: "list_all call_ok some_calls"
  by (simp add: some_calls_def only_jobs_def ret_def) (metis db.surjective db.update_convs(8))

theorem store_forgets_nothing_witness:
  "schema_ok (tables after_calls) \<and> on_record sample_db (tables after_calls) \<and> idle after_calls \<and>
   map ntf_read_at (notifications (tables after_calls)) = [Some (19 * second), None]"
proof -
  have "idle start" by (simp add: idle_def)
  then show ?thesis
    using store_forgets_nothing [OF _ _ some_calls_ok after_calls_def] sample_schema after_calls_facts by simp
qed

end
