(* ===== verification/Bank_History.thy ===== *)
theory Bank_History
  imports Store Api_Transfer Api_Notification Worker
begin

text \<open>
  The whole server over time: every handler of \<open>internal/api\<close> that reaches the database and every job
  of \<open>internal/worker\<close>, as a call on one database, and what any history of calls leaves intact. The
  handlers rest on the store only through the locale \<open>kept_by_store\<close> and the locales below it: a property
  of the tables that the calls they make of the store keep.
\<close>

section \<open>Calls\<close>

text \<open>
  A request as the framework hands it to its handler: the decoded body with the validator, parameters,
  cookie, and the claims put in the context by the middleware, whatever they are. Bodies, parameters and
  claims are arbitrary here, so nothing is assumed about who calls.
\<close>

datatype call =
    Req_createUser "create_user_request option" "create_user_request \<Rightarrow> bool"
  | Req_loginUser request "login_request option" "login_request \<Rightarrow> bool"
  | Req_logoutUser request cookie_read
  | Req_renewToken request cookie_read
  | Req_resendVerifyEmail "string option" "string \<Rightarrow> bool"
  | Req_verifyEmail string string
  | Req_createAccount "create_account_request option" "create_account_request \<Rightarrow> bool" "payload option"
  | Req_getAccount string "payload option"
  | Req_listAccounts "go_error + int" "go_error + int" "payload option"
  | Req_listTransfers string "go_error + int" "go_error + int" "payload option"
  | Req_createTransfer "transfer_request option" "transfer_request \<Rightarrow> bool" "payload option"
  | Req_listNotifications "go_error + int" "string list option" "payload option"
  | Req_markNotificationRead string "payload option"
  | Req_markAllNotificationsRead "payload option"
  | Run_job job

record site =
  site_srv :: server
  site_worker :: worker
  site_json :: cursor_json
  site_parse_uuid :: "string \<Rightarrow> go_error + uuid"

definition web_effect :: "'a web_op \<Rightarrow> pg \<Rightarrow> pg" where
  "web_effect m s = db_conn (snd (m \<lparr>db_conn = s, set_cookies = []\<rparr>))"

definition work_effect :: "'a work_op \<Rightarrow> pg \<Rightarrow> pg" where
  "work_effect m s = dk_conn (snd (m \<lparr>dk_conn = s, dk_sent = []\<rparr>))"

fun serve_call :: "site \<Rightarrow> call \<Rightarrow> pg \<Rightarrow> pg" where
  "serve_call st (Req_createUser bound valid) = web_effect (createUser (site_srv st) bound valid)"
| "serve_call st (Req_loginUser rq bound valid) = web_effect (loginUser (site_srv st) rq bound valid)"
| "serve_call st (Req_logoutUser rq ck) = web_effect (logoutUser (site_srv st) rq ck)"
| "serve_call st (Req_renewToken rq ck) = web_effect (renewToken (site_srv st) rq ck)"
| "serve_call st (Req_resendVerifyEmail bound valid) = web_effect (resendVerifyEmail (site_srv st) bound valid)"
| "serve_call st (Req_verifyEmail i code) = web_effect (verifyEmail (site_parse_uuid st) (site_srv st) i code)"
| "serve_call st (Req_createAccount bound valid auth) =
     after (createAccount (srv_env (site_srv st)) (srv_config (site_srv st)) bound valid auth)"
| "serve_call st (Req_getAccount param auth) =
     after (getAccount (site_parse_uuid st) (srv_env (site_srv st)) param auth)"
| "serve_call st (Req_listAccounts page sz auth) = after (listAccounts (srv_env (site_srv st)) page sz auth)"
| "serve_call st (Req_listTransfers param page sz auth) =
     after (listTransfers (site_parse_uuid st) (srv_env (site_srv st)) param page sz auth)"
| "serve_call st (Req_createTransfer bound valid auth) =
     after (createTransfer (site_parse_uuid st) (srv_env (site_srv st)) (srv_config (site_srv st)) bound valid auth)"
| "serve_call st (Req_listNotifications sz cursors auth) =
     after (listNotifications (site_json st) (srv_env (site_srv st)) sz cursors auth)"
| "serve_call st (Req_markNotificationRead param auth) =
     after (markNotificationRead (site_parse_uuid st) (srv_env (site_srv st)) param auth)"
| "serve_call st (Req_markAllNotificationsRead auth) = after (markAllNotificationsRead (srv_env (site_srv st)) auth)"
| "serve_call st (Run_job j) = work_effect (Work (site_worker st) j)"

fun serve_history :: "site \<Rightarrow> call list \<Rightarrow> pg \<Rightarrow> pg" where
  "serve_history st [] s = s"
| "serve_history st (c # cs) s = serve_history st cs (serve_call st c s)"

section \<open>What handlers need of the store\<close>

lemma keeps_case_sum [keeps_intros]:
  "(\<And>e. keeps I (f e)) \<Longrightarrow> (\<And>x. keeps I (g x)) \<Longrightarrow> keeps I (case r of Inl e \<Rightarrow> f e | Inr x \<Rightarrow> g x)"
  by (cases r) simp_all

lemma keeps_case_cookie [keeps_intros]:
  "keeps I m \<Longrightarrow> keeps I n \<Longrightarrow> (\<And>v. keeps I (f v)) \<Longrightarrow>
     keeps I (case ck of NoCookie \<Rightarrow> m | BadCookie \<Rightarrow> n | GotCookie v \<Rightarrow> f v)"
  by (cases ck) simp_all

definition on_web :: "(db \<Rightarrow> bool) \<Rightarrow> web \<Rightarrow> bool" where
  "on_web I w \<longleftrightarrow> I (tables (db_conn w))"

definition on_desk :: "(db \<Rightarrow> bool) \<Rightarrow> desk \<Rightarrow> bool" where
  "on_desk I d \<longleftrightarrow> I (tables (dk_conn d))"

lemma keeps_on_db: "keeps (on_tables I) m \<Longrightarrow> keeps (on_web I) (on_db m)"
  by (auto simp: keeps_def on_tables_def on_web_def on_db_def Let_def split: prod.split)

lemma keeps_in_db: "keeps (on_tables I) m \<Longrightarrow> keeps (on_desk I) (in_db m)"
  by (auto simp: keeps_def on_tables_def on_desk_def in_db_def Let_def split: prod.split)

lemma keeps_in_mail: "keeps (on_desk I) (in_mail m)"
  by (auto simp: keeps_def on_desk_def in_mail_def Let_def split: prod.split)

lemma keeps_cookie: "keeps (on_web I) (setRefreshCookie srv raw t)" "keeps (on_web I) (clearRefreshCookie srv)"
  by (simp_all add: keeps_def on_web_def setRefreshCookie_def clearRefreshCookie_def add_cookie_def)

text \<open>The River client adds jobs to its queue and leaves all other tables alone.\<close>

definition queue_only_jobs :: "server \<Rightarrow> bool" where
  "queue_only_jobs srv \<longleftrightarrow> (case srv_queue srv of None \<Rightarrow> True | Some put \<Rightarrow> (\<forall>j. only_jobs (put j)))"

text \<open>So the function that \<open>createUser\<close> passes to \<open>CreateUserTx\<close> is one that the store may be given.\<close>

lemma server_callback_ok:
  assumes "queue_only_jobs srv"
  shows "call_ok (Call_CreateUserTx cu (Some (\<lambda>u. queueVerifyEmailTx srv (usr_username u))))"
proof -
  have "only_jobs (ret ())" unfolding only_jobs_def ret_def by (metis db.surjective db.update_convs(8) snd_conv)
  then show ?thesis
    using assms by (simp add: queueVerifyEmailTx_def queue_job_def queue_only_jobs_def split: option.splits)
qed

text \<open>
  The calls of the store that act in the name of the caller are set apart: they keep a property only when
  it allows for what callers may do to what is theirs.
\<close>

fun personal :: "call \<Rightarrow> bool" where
  "personal (Req_createAccount bound valid auth) = True"
| "personal (Req_createTransfer bound valid auth) = True"
| "personal (Req_markNotificationRead param auth) = True"
| "personal (Req_markAllNotificationsRead auth) = True"
| "personal _ = False"

text \<open>So are the calls that hand out refresh tokens and write them into a session.\<close>

fun issuing :: "call \<Rightarrow> bool" where
  "issuing (Req_loginUser rq bound valid) = True"
| "issuing (Req_renewToken rq ck) = True"
| "issuing _ = False"

locale kept_by_base =
  fixes I :: "db \<Rightarrow> bool"
  assumes user: "(\<And>u. keeps (on_tables I) (f u)) \<Longrightarrow> keeps (on_tables I) (CreateUserTx env cu (Some f))"
    and link: "keeps (on_tables I) (CreateVerifyEmail env un em code)"
    and verify: "keeps (on_tables I) (VerifyEmailTx env i code)"
    and block: "keeps (on_tables I) (BlockSession env i)"
    and page: "keeps (on_tables I) (ListNotificationsPage env pa)"
    and jobs: "I d \<Longrightarrow> I (d\<lparr>jobs := js\<rparr>)"
begin

lemmas base_calls = user link verify block page sql_keeps

lemma read_handlers:
  "keeps (on_tables I) (getAccount parse env param auth)"
  "keeps (on_tables I) (listAccounts env pg sz auth)"
  "keeps (on_tables I) (listTransfers parse env param pg sz auth)"
  "keeps (on_tables I) (listNotifications j env sz cursors auth)"
  unfolding getAccount_def listAccounts_def listTransfers_def listNotifications_def
  by (intro keeps_intros base_calls)+

lemma queue_keeps:
  assumes "queue_only_jobs srv"
  shows "keeps (on_tables I) (queue_job srv j)"
  using assms jobs
  by (auto simp: queue_job_def queue_only_jobs_def intro!: keeps_intros only_jobs_keeps split: option.splits)

lemma user_handlers:
  assumes "queue_only_jobs srv"
  shows "keeps (on_web I) (createUser srv ubound uvalid)"
    and "keeps (on_web I) (logoutUser srv rq ck)"
    and "keeps (on_web I) (resendVerifyEmail srv rbound rvalid)"
    and "keeps (on_web I) (verifyEmail parse srv i code)"
  unfolding createUser_def logoutUser_def resendVerifyEmail_def verifyEmail_def
    queueVerifyEmailTx_def queueVerifyEmail_def queueRegistrationNotice_def ignore_error_def
  by (intro keeps_intros keeps_on_db keeps_cookie queue_keeps [OF assms] base_calls)+

lemma jobs_keep: "keeps (on_desk I) (Work wk j)"
  unfolding Work_def verify_email_Work_def registration_notice_Work_def
  by (cases j) (simp_all, (intro keeps_intros keeps_in_db keeps_in_mail base_calls)+)

lemma web_keeps: "keeps (on_web I) m \<Longrightarrow> I (tables s) \<Longrightarrow> I (tables (web_effect m s))"
  by (simp add: keeps_def on_web_def web_effect_def)

lemma work_keeps: "keeps (on_desk I) m \<Longrightarrow> I (tables s) \<Longrightarrow> I (tables (work_effect m s))"
  by (simp add: keeps_def on_desk_def work_effect_def)

lemma after_keeps: "keeps (on_tables I) m \<Longrightarrow> I (tables s) \<Longrightarrow> I (tables (after m s))"
  by (simp add: keeps_def on_tables_def)

lemma base_call_keeps:
  assumes "queue_only_jobs (site_srv st)" "I (tables s)" "\<not> personal c" "\<not> issuing c"
  shows "I (tables (serve_call st c s))"
  using assms by (cases c) (simp_all add: web_keeps work_keeps after_keeps user_handlers read_handlers jobs_keep)

end

locale kept_by_common = kept_by_base I for I :: "db \<Rightarrow> bool" +
  assumes session: "keeps (on_tables I) (CreateSession env i un tk ag ip bl ex)"
    and rotate: "keeps (on_tables I) (RotateSessionTx env ra)"
begin

lemma issuing_handlers:
  "keeps (on_web I) (loginUser srv rq lbound lvalid)"
  "keeps (on_web I) (renewToken srv rq ck)"
  unfolding loginUser_def renewToken_def
  by (intro keeps_intros keeps_on_db keeps_cookie session rotate base_calls)+

lemma common_call_keeps:
  assumes "queue_only_jobs (site_srv st)" "I (tables s)" "\<not> personal c"
  shows "I (tables (serve_call st c s))"
proof (cases "issuing c")
  case True
  then show ?thesis using assms(2) by (cases c) (simp_all add: web_keeps issuing_handlers)
next
  case False
  then show ?thesis using base_call_keeps assms by blast
qed

end

locale kept_by_owners = kept_by_base I for I :: "db \<Rightarrow> bool" +
  assumes transfer: "keeps (on_tables I) (TransferTx env arg)"
    and account: "keeps (on_tables I) (CreateAccountTx env owner bal cur)"
    and mark: "keeps (on_tables I) (MarkNotificationReadTx env owner i)"
    and mark_all: "keeps (on_tables I) (MarkAllNotificationsReadTx env owner)"
begin

lemma personal_handlers:
  "keeps (on_tables I) (createAccount env cfg bound valid auth)"
  "keeps (on_tables I) (createTransfer parse env cfg tbound tvalid auth)"
  "keeps (on_tables I) (markNotificationRead parse env param auth)"
  "keeps (on_tables I) (markAllNotificationsRead env auth)"
  unfolding createAccount_def createTransfer_def validAccount_def markNotificationRead_def
    markAllNotificationsRead_def
  by (intro keeps_intros transfer account mark mark_all sql_keeps)+

lemma personal_call_keeps:
  "personal c \<Longrightarrow> I (tables s) \<Longrightarrow> I (tables (serve_call st c s))"
  by (cases c) (simp_all add: after_keeps personal_handlers)

lemma plain_call_keeps:
  assumes "queue_only_jobs (site_srv st)" "I (tables s)" "\<not> issuing c"
  shows "I (tables (serve_call st c s))"
  using assms base_call_keeps personal_call_keeps by blast

end

locale kept_by_store = kept_by_common I + kept_by_owners I for I :: "db \<Rightarrow> bool"
begin

lemma serve_call_keeps:
  assumes "queue_only_jobs (site_srv st)" "I (tables s)"
  shows "I (tables (serve_call st c s))"
  using assms common_call_keeps personal_call_keeps by blast

lemma serve_history_keeps:
  assumes "queue_only_jobs (site_srv st)" "I (tables s)"
  shows "I (tables (serve_history st cs s))"
  using assms by (induction cs arbitrary: s) (auto intro: serve_call_keeps)

end

section \<open>The books and the paper trail\<close>

text \<open>
  On top of the books: every transfer has been announced to both sides, by a notification with its amount
  to the owner of the account.
\<close>

definition told :: "db \<Rightarrow> transfer \<Rightarrow> string \<Rightarrow> uuid \<Rightarrow> bool" where
  "told d t dir i \<longleftrightarrow>
     (\<exists>n \<in> set (notifications d). ntf_transfer_id n = tr_id t \<and> ntf_direction n = dir \<and>
        ntf_account_id n = i \<and> ntf_amount n = tr_amount t \<and>
        (ntf_owner n, i) \<in> (\<lambda>a. (acc_owner a, acc_id a)) ` set (accounts d))"

definition accounted :: "db \<Rightarrow> bool" where
  "accounted d \<longleftrightarrow> books_ok d \<and>
     (\<forall>t \<in> set (transfers d). told d t ''sent'' (tr_from_account_id t) \<and>
        told d t ''received'' (tr_to_account_id t))"

lemma told_mono:
  assumes "on_record d d'" "told d t dir i"
  shows "told d' t dir i"
proof -
  from assms(2) obtain n a where n: "n \<in> set (notifications d)" "ntf_transfer_id n = tr_id t"
    "ntf_direction n = dir" "ntf_account_id n = i" "ntf_amount n = tr_amount t"
    and a: "a \<in> set (accounts d)" "acc_owner a = ntf_owner n" "acc_id a = i"
    by (auto simp: told_def)
  obtain m where m: "m \<in> set (notifications d')" "same_notification n m"
    using assms(1) n(1) by (auto simp: on_record_def elim: kept_member)
  obtain b where b: "b \<in> set (accounts d')" "same_account a b"
    using assms(1) a(1) by (auto simp: on_record_def elim: kept_member)
  have "ntf_transfer_id m = ntf_transfer_id n" "ntf_direction m = ntf_direction n"
    "ntf_account_id m = ntf_account_id n" "ntf_amount m = ntf_amount n" "ntf_owner m = ntf_owner n"
    using m(2) by (cases n; cases m; simp add: same_notification_def)+
  moreover have "acc_owner b = acc_owner a" "acc_id b = acc_id a"
    using b(2) by (cases a; cases b; simp add: same_account_def)+
  ultimately show ?thesis using m(1) b(1) n a by (force simp: told_def)
qed

lemma accounted_mono:
  assumes "accounted d" "on_record d d'" "transfers d' = transfers d" "books_ok d'"
  shows "accounted d'"
  using assms by (auto simp: accounted_def intro: told_mono)

text \<open>Statements that write neither accounts nor entries nor transfers.\<close>

definition same_money :: "db \<Rightarrow> db \<Rightarrow> bool" where
  "same_money d d' \<longleftrightarrow> accounts d' = accounts d \<and> entries d' = entries d \<and> transfers d' = transfers d"

lemma same_money_books: "same_money d d' \<Longrightarrow> books_ok d \<Longrightarrow> schema_ok d' \<Longrightarrow> books_ok d'"
  by (simp add: same_money_def books_ok_def ledger_ok_def entry_sum_def)

lemma accounted_keeps:
  assumes "\<And>d0. keeps (on_tables (same_money d0)) m" "\<And>d0. keeps (on_tables (on_record d0)) m"
    and "keeps (on_tables schema_ok) m"
  shows "keeps (on_tables accounted) m"
proof (rule keepsI)
  fix s r s' assume a: "on_tables accounted s" and run: "m s = (r, s')"
  from a have "on_tables (same_money (tables s)) s" "on_tables (on_record (tables s)) s" "on_tables schema_ok s"
    by (simp_all add: on_tables_def same_money_def accounted_def books_ok_def)
  then have "same_money (tables s) (tables s')" "on_record (tables s) (tables s')" "schema_ok (tables s')"
    using assms run by (simp_all only: on_tables_def) (metis keepsD on_tables_def)+
  then show "on_tables accounted s'"
    using a same_money_books [of "tables s" "tables s'"] accounted_mono [of "tables s" "tables s'"]
    by (simp add: on_tables_def same_money_def accounted_def)
qed

lemma stays_same_money:
  "stays same_money (createUser_sql un h fn em)"
  "stays same_money (createSession_sql i un tk ag ip bl ex)"
  "stays same_money (createVerifyEmail_sql un em code)"
  "stays same_money (update_session i f)"
  "stays same_money (verifyUserEmail_sql un)"
  "stays same_money (updateVerifyEmail_sql i code)"
  "stays same_money (markNotificationRead_sql i owner)"
  "stays same_money (markAllNotificationsRead_sql owner)"
  by (rule staysI; auto simp: createUser_sql_def createSession_sql_def createVerifyEmail_sql_def
      update_session_def verifyUserEmail_sql_def updateVerifyEmail_sql_def markNotificationRead_sql_def
      markAllNotificationsRead_sql_def Let_def same_money_def split: option.splits if_splits)+

lemma same_money_keeps:
  "keeps (on_tables (same_money d0)) (CreateUser env un h fn em)"
  "keeps (on_tables (same_money d0)) (CreateSession env i un tk ag ip bl ex)"
  "keeps (on_tables (same_money d0)) (CreateVerifyEmail env un em code)"
  "keeps (on_tables (same_money d0)) (RotateSession env tk ex i)"
  "keeps (on_tables (same_money d0)) (BlockSession env i)"
  "keeps (on_tables (same_money d0)) (VerifyUserEmail env un)"
  "keeps (on_tables (same_money d0)) (UpdateVerifyEmail env i code)"
  "keeps (on_tables (same_money d0)) (MarkNotificationRead env i owner)"
  "keeps (on_tables (same_money d0)) (MarkAllNotificationsRead env owner)"
  unfolding CreateUser_def CreateSession_def CreateVerifyEmail_def RotateSession_def BlockSession_def
    VerifyUserEmail_def UpdateVerifyEmail_def MarkNotificationRead_def MarkAllNotificationsRead_def
  by (intro stays_run stays_same_money)+

lemma statements_accounted [sql_keeps]:
  "keeps (on_tables accounted) (CreateUser env un h fn em)"
  "keeps (on_tables accounted) (CreateSession env i un tk ag ip bl ex)"
  "keeps (on_tables accounted) (CreateVerifyEmail env un em code)"
  "keeps (on_tables accounted) (RotateSession env tk ex i)"
  "keeps (on_tables accounted) (BlockSession env i)"
  "keeps (on_tables accounted) (VerifyUserEmail env un)"
  "keeps (on_tables accounted) (UpdateVerifyEmail env i code)"
  "keeps (on_tables accounted) (MarkNotificationRead env i owner)"
  "keeps (on_tables accounted) (MarkAllNotificationsRead env owner)"
  by (intro accounted_keeps same_money_keeps writes_on_record writes_keep_schema)+

lemma jobs_update [simp]: "schema_ok (d\<lparr>jobs := js\<rparr>) = schema_ok d" "books_ok (d\<lparr>jobs := js\<rparr>) = books_ok d"
proof -
  show *: "schema_ok (d\<lparr>jobs := js\<rparr>) = schema_ok d" by (simp add: schema_defs)
  show "books_ok (d\<lparr>jobs := js\<rparr>) = books_ok d" by (simp add: books_ok_def ledger_ok_def entry_sum_def *)
qed

lemma accounted_free: "accounted d \<Longrightarrow> accounted (d\<lparr>notified := ns\<rparr>)" "accounted d \<Longrightarrow> accounted (d\<lparr>jobs := js\<rparr>)"
  by (simp_all add: accounted_def told_def)

lemma posting_told:
  assumes "posting arg at d res ns d'" "on_record d d'" "accounted d" "books_ok d'"
  shows "accounted d'"
proof -
  let ?t = "res_transfer res"
  have rows: "transfers d' = transfers d @ [?t]" "set ns \<subseteq> set (notifications d')"
    and t: "tr_from_account_id ?t = par_from_account_id arg" "tr_to_account_id ?t = par_to_account_id arg"
    using assms(1) by (auto simp: posting_def rows_moved_def Let_def)
  obtain a b where a: "find_account (par_from_account_id arg) d = Some a"
    and b: "find_account (par_to_account_id arg) d = Some b" and moved: "rows_moved arg at d res a b"
    using assms(1) by (auto simp: posting_def Let_def)
  have owner: "(acc_owner x, i) \<in> (\<lambda>a. (acc_owner a, acc_id a)) ` set (accounts d')"
    if "find_account i d = Some x" for x i
  proof -
    have "x \<in> set (accounts d)" "acc_id x = i" using find_account_Some [OF that] by simp_all
    moreover obtain y where "y \<in> set (accounts d')" "same_account x y"
      using assms(2) \<open>x \<in> _\<close> by (auto simp: on_record_def elim: kept_member)
    moreover from this(2) have "acc_owner y = acc_owner x" "acc_id y = acc_id x"
      by (cases x; cases y; simp add: same_account_def)+
    ultimately show ?thesis by (intro image_eqI [of _ _ y]) simp_all
  qed
  have "told d' ?t ''sent'' (tr_from_account_id ?t) \<and> told d' ?t ''received'' (tr_to_account_id ?t)"
    using assms(1) rows(2) owner [OF a] owner [OF b] moved t find_account_Some [OF a] find_account_Some [OF b]
    by (auto simp: posting_def Let_def told_def side_notification_def rows_moved_def)
  then show ?thesis using assms(2-4) rows(1) by (auto simp: accounted_def intro: told_mono)
qed

interpretation transfer_accounted: tx_body "transfer_body env arg" accounted for env arg
proof
  fix s x s'
  assume run: "transfer_body env arg s = (Inr x, s')" and ok: "accounted (tables s)"
    and tx: "tx_start s \<noteq> None" and pend: "pending s = []"
  then have books: "books_ok (tables s)" by (simp add: accounted_def)
  have books': "books_ok (tables s')" by (rule transfer_books.body_keeps [OF run books tx pend])
  have rec: "on_record (tables s) (tables s')"
    using keepsD [OF bodies_on_record(1) _ run, of "tables s"] by (simp add: on_tables_def)
  from tx obtain at where "tx_start s = Some at" by auto
  then consider "tables s' = tables s" | ns where "posting arg at (tables s) x ns (tables s')"
    using transfer_body_Inr [OF run] books pend by (auto simp: books_ok_def)
  then show "accounted (tables s')"
    by cases (use ok posting_told [OF _ rec ok books'] in auto)
qed (rule accounted_free)

interpretation account_accounted: tx_body "account_body env owner bal cur" accounted for env owner bal cur
proof
  fix s x s'
  assume run: "account_body env owner bal cur s = (Inr x, s')" and ok: "accounted (tables s)"
    and "tx_start s \<noteq> None" "pending s = []"
  then have "books_ok (tables s')" using account_books.body_keeps [OF run] by (simp add: accounted_def)
  moreover have "on_record (tables s) (tables s')"
    using keepsD [OF bodies_on_record(2) _ run, of "tables s"] by (simp add: on_tables_def)
  moreover have "transfers (tables s') = transfers (tables s)"
    using account_body_Inr [OF run] by (auto simp: account_opened_def)
  ultimately show "accounted (tables s')" using accounted_mono ok by blast
qed (rule accounted_free)

lemma bodies_accounted:
  "keeps (on_tables accounted) (verify_body env i code)"
  "keeps (on_tables accounted) (rotate_body env ra)"
  "keeps (on_tables accounted) (mark_read_body env owner ni)"
  "keeps (on_tables accounted) (mark_all_body env owner)"
  unfolding verify_body_def rotate_body_def mark_read_body_def mark_all_body_def
  by (intro keeps_intros sql_keeps)+

lemma CreateAccountTx_accounted: "keeps (on_tables accounted) (CreateAccountTx env owner bal cur)"
  unfolding CreateAccountTx_def by (rule account_accounted.execTx_keeps)

interpretation record_kept: kept_by_store "on_record d0" for d0
  by unfold_locales
    (auto intro!: keeps_txs bodies_on_record user_body_keeps sql_keeps notified_on_record jobs_free)

interpretation accounted_kept: kept_by_store accounted
  by unfold_locales
    (auto intro!: keeps_txs(3-8) bodies_accounted user_body_keeps sql_keeps accounted_free
      TransferTx_keeps transfer_accounted.execTx_keeps CreateAccountTx_accounted)

section \<open>The history of a bank\<close>

text \<open>
  C6 (invariant). The bank stays in order, whatever it is asked. After any history of requests and jobs,
  by anybody, with any bodies, parameters, cookies and claims, and through any failures of the database
  and the mail: all constraints hold, every balance is the sum of the account's entries, no transfer has
  the same source and destination, and every transfer has been announced, with its amount, to the owners
  of both accounts; and nothing that was on record has been altered or deleted, but for what changes by
  design: balances, tokens, and the marks of verified users, used links, blocked sessions and read
  notifications, none of which is ever taken back.
\<close>

theorem bank_stays_in_order:
  assumes "queue_only_jobs (site_srv st)" and "accounted (tables s)"
  shows "accounted (tables (serve_history st cs s)) \<and> on_record (tables s) (tables (serve_history st cs s))"
  using accounted_kept.serve_history_keeps [OF assms] record_kept.serve_history_keeps [OF assms(1) on_record_refl]
  by simp

section \<open>Witness\<close>

definition sample_site :: site where
  "sample_site = \<lparr>site_srv = user_server\<lparr>srv_config := sample_config\<rparr>, site_worker = sample_worker, site_json = sample_json,
     site_parse_uuid = sample_parse\<rparr>"

text \<open>Alice pays Bob and reads the news; Bob gets a notice.\<close>

definition a_day :: "call list" where
  "a_day =
    [Req_createTransfer (Some pay_request) (\<lambda>q. 0 < trq_amount q) (Some alice_auth),
     Req_markAllNotificationsRead (Some alice_auth),
     Run_job (SendRegistrationNoticeArgs ''bob@example.org'')]"

definition evening :: pg where
  "evening = serve_history sample_site a_day start"

abbreviation read_call :: "int response pg_op" where
  "read_call \<equiv> markAllNotificationsRead sample_env (Some alice_auth)"

lemma evening_eq: "evening = after read_call (after pay_call start)"
  by (simp add: evening_def a_day_def sample_site_def work_effect_def Work_def registration_notice_Work_def
      in_mail_def Let_def split: prod.split)

lemma evening_facts: "map acc_balance (accounts (tables evening)) = [70, 30]"
  unfolding evening_eq by code_simp

theorem bank_stays_in_order_witness:
  "accounted (tables evening) \<and> on_record sample_db (tables evening) \<and>
   map acc_balance (accounts (tables evening)) = [70, 30]"
proof -
  have "queue_only_jobs (site_srv sample_site)"
    by (auto simp: queue_only_jobs_def sample_site_def only_jobs_def sample_enqueue_def run_sql_def sample_env_def)
  moreover have "accounted sample_db"
    using sample_books by (simp add: accounted_def sample_db_def empty_db_def)
  ultimately show ?thesis
    using bank_stays_in_order [of sample_site start a_day] evening_facts by (simp add: evening_def)
qed

end
