(* ===== verification/Isolation.thy ===== *)
theory Isolation
  imports Bank_History
begin

text \<open>
  Whose money it is: what requests in other people's names, requests without claims and background jobs
  can do to what belongs to one user.
\<close>

section \<open>What belongs to a user\<close>

text \<open>The name in the claims of a call, if it has any.\<close>

definition named :: "payload option \<Rightarrow> string option" where
  "named auth = map_option pl_username auth"

fun caller :: "call \<Rightarrow> string option" where
  "caller (Req_createAccount bound valid auth) = named auth"
| "caller (Req_getAccount param auth) = named auth"
| "caller (Req_listAccounts page sz auth) = named auth"
| "caller (Req_listTransfers param page sz auth) = named auth"
| "caller (Req_createTransfer bound valid auth) = named auth"
| "caller (Req_listNotifications sz cursors auth) = named auth"
| "caller (Req_markNotificationRead param auth) = named auth"
| "caller (Req_markAllNotificationsRead auth) = named auth"
| "caller _ = None"

definition owned :: "string \<Rightarrow> db \<Rightarrow> account list" where
  "owned u d = filter (\<lambda>a. acc_owner a = u) (accounts d)"

definition paid_from :: "string \<Rightarrow> db \<Rightarrow> transfer list \<Rightarrow> transfer list" where
  "paid_from u d = filter (\<lambda>t. tr_from_account_id t \<in> acc_id ` set (owned u d))"

definition no_lower :: "account \<Rightarrow> account \<Rightarrow> bool" where
  "no_lower a b \<longleftrightarrow> same_account a b \<and> acc_balance a \<le> acc_balance b"

text \<open>
  The accounts of \<open>u\<close> are the same, with no balance lower; nothing has been transferred out of them; and
  the notifications of \<open>u\<close> are still there as they were, read or unread.
\<close>

definition untouched :: "string \<Rightarrow> db \<Rightarrow> db \<Rightarrow> bool" where
  "untouched u d d' \<longleftrightarrow>
     list_all2 no_lower (owned u d) (owned u d') \<and>
     paid_from u d (transfers d') = paid_from u d (transfers d) \<and>
     (\<forall>n \<in> set (notifications d). ntf_owner n = u \<longrightarrow> n \<in> set (notifications d'))"

lemma no_lower_refl: "no_lower a a"
  by (simp add: no_lower_def same_account_def)

lemma no_lower_trans: "no_lower a b \<Longrightarrow> no_lower b c \<Longrightarrow> no_lower a c"
  by (cases a; cases b; cases c) (simp add: no_lower_def same_account_def)

lemma no_lower_id: "no_lower a b \<Longrightarrow> acc_id b = acc_id a"
  by (cases a; cases b) (simp add: no_lower_def same_account_def)

lemma untouched_refl [simp]: "untouched u d d"
  by (simp add: untouched_def list_all2_refl no_lower_refl)

lemma no_lower_ids: "list_all2 no_lower xs ys \<Longrightarrow> acc_id ` set ys = acc_id ` set xs"
  by (induction rule: list_all2_induct) (auto dest: no_lower_id)

lemma untouched_trans: "untouched u d d1 \<Longrightarrow> untouched u d1 d2 \<Longrightarrow> untouched u d d2"
  unfolding untouched_def paid_from_def
  by (auto dest: no_lower_ids elim: list_all2_trans [rotated] intro: no_lower_trans)

section \<open>Statements\<close>

lemma untouched_same:
  "untouched u d0 d \<Longrightarrow> accounts d' = accounts d \<Longrightarrow> transfers d' = transfers d \<Longrightarrow>
     notifications d' = notifications d \<Longrightarrow> untouched u d0 d'"
  by (simp add: untouched_def owned_def paid_from_def)

lemma others_untouched:
  "stays (untouched u) (createUser_sql un h fn em)"
  "stays (untouched u) (createSession_sql i un tk ag ip bl ex)"
  "stays (untouched u) (createVerifyEmail_sql un em code)"
  "stays (untouched u) (update_session i f)"
  "stays (untouched u) (verifyUserEmail_sql un)"
  "stays (untouched u) (updateVerifyEmail_sql i code)"
  "stays (untouched u) (createEntry_sql i amt)"
  by (rule staysI, erule untouched_same; auto simp: createUser_sql_def createSession_sql_def
      createVerifyEmail_sql_def update_session_def verifyUserEmail_sql_def updateVerifyEmail_sql_def
      createEntry_sql_def Let_def split: option.splits if_splits)+

lemma personal_untouched:
  assumes "owner \<noteq> u"
  shows "stays (untouched u) (createAccount_sql owner bal cur)"
    and "stays (untouched u) (markNotificationRead_sql i owner)"
    and "stays (untouched u) (markAllNotificationsRead_sql owner)"
  using assms
  by (auto intro!: staysI simp: createAccount_sql_def markNotificationRead_sql_def markAllNotificationsRead_sql_def
      Let_def untouched_def owned_def paid_from_def split: option.splits if_splits)

text \<open>The property that calls keep, with the constraints of the schema.\<close>

definition spared :: "string \<Rightarrow> db \<Rightarrow> db \<Rightarrow> bool" where
  "spared u d0 d \<longleftrightarrow> schema_ok d \<and> untouched u d0 d"

lemma keeps_spared:
  "keeps (on_tables schema_ok) m \<Longrightarrow> keeps (on_tables (untouched u d0)) m \<Longrightarrow> keeps (on_tables (spared u d0)) m"
  by (auto simp: keeps_def on_tables_def spared_def)

lemma statements_spared [sql_keeps]:
  "keeps (on_tables (spared u d0)) (CreateUser env un h fn em)"
  "keeps (on_tables (spared u d0)) (CreateSession env i un tk ag ip bl ex)"
  "keeps (on_tables (spared u d0)) (CreateVerifyEmail env un em code)"
  "keeps (on_tables (spared u d0)) (RotateSession env tk ex i)"
  "keeps (on_tables (spared u d0)) (BlockSession env i)"
  "keeps (on_tables (spared u d0)) (VerifyUserEmail env un)"
  "keeps (on_tables (spared u d0)) (UpdateVerifyEmail env i code)"
  "keeps (on_tables (spared u d0)) (CreateEntry env i amt)"
  unfolding CreateUser_def CreateSession_def CreateVerifyEmail_def RotateSession_def BlockSession_def
    VerifyUserEmail_def UpdateVerifyEmail_def CreateEntry_def
  by (intro keeps_spared stays_run others_untouched writes_keep_schema [unfolded CreateUser_def CreateSession_def
    CreateVerifyEmail_def RotateSession_def BlockSession_def VerifyUserEmail_def UpdateVerifyEmail_def
    CreateEntry_def])+

lemma personal_spared:
  assumes "owner \<noteq> u"
  shows "keeps (on_tables (spared u d0)) (CreateAccount env owner bal cur)"
    and "keeps (on_tables (spared u d0)) (MarkNotificationRead env i owner)"
    and "keeps (on_tables (spared u d0)) (MarkAllNotificationsRead env owner)"
  unfolding CreateAccount_def MarkNotificationRead_def MarkAllNotificationsRead_def
  by (intro keeps_spared stays_run personal_untouched [OF assms] writes_keep_schema [unfolded CreateAccount_def
    MarkNotificationRead_def MarkAllNotificationsRead_def])+

lemma spared_free:
  "spared u d0 d \<Longrightarrow> spared u d0 (d\<lparr>notified := ns\<rparr>)" "spared u d0 d \<Longrightarrow> spared u d0 (d\<lparr>jobs := js\<rparr>)"
  by (simp_all add: spared_def untouched_def owned_def paid_from_def)

lemma bodies_spared:
  "keeps (on_tables (spared u d0)) (verify_body env i code)"
  "keeps (on_tables (spared u d0)) (rotate_body env ra)"
  unfolding verify_body_def rotate_body_def by (intro keeps_intros sql_keeps)+

interpretation spared_common: kept_by_common "spared u d0" for u d0
  by unfold_locales
    (auto intro!: keeps_txs(3-8) bodies_spared user_body_keeps sql_keeps spared_free)

section \<open>Handlers in other people's names\<close>

lemma personal_txs:
  assumes "owner \<noteq> u"
  shows "keeps (on_tables (spared u d0)) (CreateAccountTx env owner bal cur)"
    and "keeps (on_tables (spared u d0)) (MarkNotificationReadTx env owner i)"
    and "keeps (on_tables (spared u d0)) (MarkAllNotificationsReadTx env owner)"
proof -
  have "keeps (on_tables (spared u d0)) (account_body env owner bal cur)"
    "keeps (on_tables (spared u d0)) (mark_read_body env owner i)"
    "keeps (on_tables (spared u d0)) (mark_all_body env owner)"
    unfolding account_body_def mark_read_body_def mark_all_body_def
    by (intro keeps_intros personal_spared [OF assms] sql_keeps)+
  then show "keeps (on_tables (spared u d0)) (CreateAccountTx env owner bal cur)"
    "keeps (on_tables (spared u d0)) (MarkNotificationReadTx env owner i)"
    "keeps (on_tables (spared u d0)) (MarkAllNotificationsReadTx env owner)"
    by (auto intro!: keeps_txs spared_free)
qed

text \<open>Without claims a handler stops before the store; with claims it acts in their name.\<close>

lemma keeps_claims:
  assumes "\<And>p. auth = Some p \<Longrightarrow> keeps I (f p)"
  shows "keeps I (andthen (lift_res (authPayload auth)) f)"
proof (cases auth)
  case None
  then show ?thesis by (simp add: authPayload_def keeps_def andthen_def lift_res_def)
next
  case (Some p)
  then show ?thesis using assms by (simp add: authPayload_def andthen_lift)
qed

lemma named_handlers:
  assumes "named auth \<noteq> Some u"
  shows "keeps (on_tables (spared u d0)) (createAccount env cfg bound valid auth)"
    and "keeps (on_tables (spared u d0)) (markNotificationRead parse env param auth)"
    and "keeps (on_tables (spared u d0)) (markAllNotificationsRead env auth)"
  using assms unfolding createAccount_def markNotificationRead_def markAllNotificationsRead_def named_def
  by (auto intro!: keeps_claims personal_txs keeps_intros)

text \<open>A transfer takes from its source, whose owner is the caller, and from nobody else.\<close>

lemma posting_untouched:
  assumes "posting arg at d res ns d'" "schema_ok d" "find_account (par_from_account_id arg) d = Some a" "acc_owner a \<noteq> u"
  shows "untouched u d d'"
proof -
  let ?f = "par_from_account_id arg" and ?t = "par_to_account_id arg" and ?amt = "par_amount arg"
  have acc: "accounts d' = credit ?t ?amt (credit ?f (- ?amt) (accounts d))" and amt: "0 < ?amt"
    and tr: "transfers d' = transfers d @ [res_transfer res]" "tr_from_account_id (res_transfer res) = ?f"
    and ntf: "set (notifications d) \<subseteq> set (notifications d')"
    using assms(1) by (auto simp: posting_def rows_moved_def Let_def)
  let ?g = "\<lambda>b. if acc_id b = ?t then b\<lparr>acc_balance := acc_balance b + ?amt\<rparr> else b"
  have not_source: "acc_id b \<noteq> ?f" if "b \<in> set (accounts d)" "acc_owner b = u" for b
    using that assms(2-4) find_account_iff [of d ?f b] by (auto simp: schema_ok_def)
  have "owned u d' = map ?g (owned u d)"
    unfolding owned_def acc credit_def replace_by_def using not_source
    by (induction "accounts d" rule: rev_induct) (auto simp: filter_map comp_def)
  moreover have "no_lower b (?g b)" for b using amt by (simp add: no_lower_def same_account_def)
  ultimately have "list_all2 no_lower (owned u d) (owned u d')"
    by (simp add: list_all2_map2 list_all2_refl)
  moreover have "?f \<notin> acc_id ` set (owned u d)" using not_source by (fastforce simp: owned_def)
  ultimately show ?thesis using tr ntf by (auto simp: untouched_def paid_from_def)
qed

lemma createTransfer_spared:
  assumes "named auth \<noteq> Some u" "spared u d0 (tables s)"
    and run: "createTransfer parse env cfg bound valid auth s = (r, s')"
  shows "spared u d0 (tables s')"
  using run
proof (cases rule: createTransfer_cases)
  case refused
  then show ?thesis using assms(2) by simp
next
  case (passed req p s1 r1)
  let ?arg = "tx_params parse cfg req"
  have schema: "schema_ok (tables s1)" using assms(2) passed(4) by (simp add: spared_def)
  obtain a where a: "find_account (par_from_account_id ?arg) (tables s1) = Some a" "acc_owner a \<noteq> u"
    using passed(2-4) assms(1) by (auto simp: admitted_def Let_def named_def)
  from passed(5) schema have "untouched u (tables s1) (tables s')"
  proof (cases rule: TransferTx_outcome)
    case (moved k n res)
    then obtain ns where "posting ?arg (time_at env k) (tables s1) res ns ((tables s')\<lparr>notified := notified (tables s1)\<rparr>)"
      by (auto elim: committed_posting)
    from posting_untouched [OF this schema a] show ?thesis
      by (simp add: untouched_def owned_def paid_from_def)
  qed simp
  moreover have "schema_ok (tables s')" using TransferTx_schema [OF schema passed(5)] .
  ultimately show ?thesis using assms(2) passed(4) by (auto simp: spared_def intro: untouched_trans)
qed

lemma serve_call_spared:
  assumes "queue_only_jobs (site_srv st)" "spared u d0 (tables s)" "caller c \<noteq> Some u"
  shows "spared u d0 (tables (serve_call st c s))"
proof (cases "personal c")
  case True
  then show ?thesis
    using assms(2,3) createTransfer_spared [OF _ assms(2) surjective_pairing]
    by (cases c) (auto intro: spared_common.after_keeps named_handlers)
next
  case False
  then show ?thesis using spared_common.common_call_keeps assms by blast
qed

text \<open>
  C10 (safety). Nobody else's money. Through any history of requests and jobs, in any order, with any bodies
  and through any failures, in which no request carries claims in the name of a user, that user's accounts
  stay the same and none is opened in their name, no balance of theirs is lowered, nothing is transferred
  out of their accounts, and their notifications stay as they were, the unread ones unread.
\<close>

theorem nobody_elses_money:
  assumes "queue_only_jobs (site_srv st)" "schema_ok (tables s)" "list_all (\<lambda>c. caller c \<noteq> Some u) cs"
  shows "untouched u (tables s) (tables (serve_history st cs s))"
proof -
  have "spared u d0 (tables (serve_history st cs t))" if "spared u d0 (tables t)" for d0 t
    using assms(1,3) that by (induction cs arbitrary: t) (auto intro: serve_call_spared)
  from this [of "tables s" s] show ?thesis using assms(2) by (simp add: spared_def)
qed

section \<open>Witness\<close>

theorem nobody_elses_money_witness:
  "untouched ''bob'' sample_db (tables evening) \<and>
   map acc_balance (owned ''bob'' sample_db) = [0] \<and> map acc_balance (accounts (tables evening)) = [70, 30]"
proof -
  have "list_all (\<lambda>c. caller c \<noteq> Some ''bob'') a_day" "map acc_balance (owned ''bob'' sample_db) = [0]"
    by (simp_all add: a_day_def named_def alice_auth_def sample_claims_def owned_def sample_db_def
        sample_account_def)
  moreover have "queue_only_jobs (site_srv sample_site)"
    by (auto simp: queue_only_jobs_def sample_site_def only_jobs_def sample_enqueue_def run_sql_def sample_env_def)
  ultimately show ?thesis
    using nobody_elses_money [of sample_site start "''bob''" a_day] sample_schema evening_facts
    by (simp add: evening_def)
qed

end
