(* ===== verification/Session_Race.thy ===== *)
theory Session_Race
  imports Session_Tx
begin

text \<open>
  Renewals at the same time. \<open>RotateSessionTx\<close> is run statement by statement, many of them on one
  database, at PostgreSQL's default isolation level: BEGIN; the SELECT FOR UPDATE, which waits while
  another transaction holds the row and then reads what is committed; the check, \<open>NewSession\<close> and the
  UPDATE; COMMIT, which makes the new row visible and releases the lock. Logouts, logins and all else
  come in between. The comment in the code says that the lock makes a rotation happen exactly once under
  concurrency; \<open>interleaved_renewals\<close> is that claim.
\<close>

section \<open>Statement by statement\<close>

text \<open>The part of the transaction after the row has been read and locked.\<close>

definition check_and_rotate :: "pg_env \<Rightarrow> rotate_params \<Rightarrow> session \<Rightarrow> session pg_op" where
  "check_and_rotate env arg x =
     (if \<not> session_accepts arg x then raise ErrInvalidSession
      else
        andthen (lift_res (rot_new_session arg)) (\<lambda>rep.
        if rep_id rep \<noteq> ses_id x then raise ErrSessionIDMismatch
        else map_error ClassifyError
          (RotateSession env (rep_refresh_token_hash rep) (rep_expires_at rep) (ses_id x))))"

definition lookup_error :: "go_error \<Rightarrow> go_error" where
  "lookup_error err = (if errors_is (ClassifyError err) ErrRecordNotFound then ErrInvalidSession else ClassifyError err)"

text \<open>\<open>Written y\<close>: the row \<open>y\<close> has been written and is not yet committed.\<close>

datatype renewal =
    Asking
  | Begun
  | Holding session
  | Written session
  | Failing go_error
  | Answered "go_error + session"

record renewer =
  rn_arg :: rotate_params
  rn_env :: pg_env
  rn_pg :: pg
  rn_stage :: renewal

definition holds_row :: "uuid \<Rightarrow> renewer \<Rightarrow> bool" where
  "holds_row i c \<longleftrightarrow> rot_id (rn_arg c) = i \<and>
     (case rn_stage c of Holding x \<Rightarrow> True | Written y \<Rightarrow> True | _ \<Rightarrow> False)"

definition put_row :: "session \<Rightarrow> db \<Rightarrow> db" where
  "put_row y d = d\<lparr>sessions := replace_by ses_id (ses_id y)
     (\<lambda>r. r\<lparr>ses_refresh_token := ses_refresh_token y, ses_expires_at := ses_expires_at y\<rparr>) (sessions d)\<rparr>"

definition renewed :: "renewer \<Rightarrow> renewal \<Rightarrow> pg \<Rightarrow> renewer" where
  "renewed c st s = c\<lparr>rn_stage := st, rn_pg := s\<lparr>tables := tables (rn_pg c)\<rparr>\<rparr>"

text \<open>
  One step of a renewal on the committed tables; \<open>free\<close> says that nobody else holds its row. A renewal
  that has failed is not counted among those that hold a row; it changes nothing before it rolls back.
\<close>

definition renew :: "bool \<Rightarrow> renewer \<Rightarrow> db \<Rightarrow> renewer \<times> db" where
  "renew free c d =
     (let env = rn_env c; arg = rn_arg c; s = (rn_pg c)\<lparr>tables := d\<rparr> in
      case rn_stage c of
        Asking \<Rightarrow>
          (case fault_at env (tick s) of
             Some m \<Rightarrow> (renewed c (Answered (Inl (DriverError m))) (step_tick s), d)
           | None \<Rightarrow> (renewed c Begun (begin_tx env s), d))
      | Begun \<Rightarrow>
          if free then
            (case GetSessionForUpdate env (rot_id arg) s of
               (Inl e, s') \<Rightarrow> (renewed c (Failing (lookup_error e)) s', d)
             | (Inr x, s') \<Rightarrow> (renewed c (Holding x) s', d))
          else (c, d)
      | Holding x \<Rightarrow>
          (case check_and_rotate env arg x s of
             (Inl e, s') \<Rightarrow> (renewed c (Failing e) s', d)
           | (Inr y, s') \<Rightarrow> (renewed c (Written y) s', d))
      | Failing e \<Rightarrow> (renewed c (Answered (Inl e)) (end_tx s), d)
      | Written y \<Rightarrow>
          (case commit_at env (tick s) of
             Committed \<Rightarrow> (renewed c (Answered (Inr y)) (end_tx (step_tick s)), put_row y d)
           | CommitFailed m \<Rightarrow> (renewed c (Answered (Inl (DriverError m))) (end_tx (step_tick s)), d)
           | CommitLost m \<Rightarrow> (renewed c (Answered (Inl (DriverError m))) (end_tx (step_tick s)), put_row y d))
      | Answered r \<Rightarrow> (c, d))"

type_synonym desk_state = "renewer list \<times> db"

definition renew_turn :: "nat \<Rightarrow> desk_state \<Rightarrow> desk_state" where
  "renew_turn n q =
     (case q of (cs, d) \<Rightarrow>
        let c = cs ! n;
            free = (\<forall>m < length cs. m \<noteq> n \<longrightarrow> \<not> holds_row (rot_id (rn_arg c)) (cs ! m));
            (c', d') = renew free c d
        in (cs[n := c'], d'))"

text \<open>
  What else happens to the sessions: new ones are opened, others are blocked, which waits for a locked row.
\<close>

definition meanwhile :: "renewer list \<Rightarrow> db \<Rightarrow> db \<Rightarrow> bool" where
  "meanwhile cs d d' \<longleftrightarrow> sessions_ok d' \<and>
     (\<forall>i. current_hash i d \<noteq> None \<longrightarrow> current_hash i d' = current_hash i d) \<and>
     (\<forall>c \<in> set cs. holds_row (rot_id (rn_arg c)) c \<longrightarrow>
        find_session (rot_id (rn_arg c)) d' = find_session (rot_id (rn_arg c)) d)"

inductive renew_step :: "desk_state \<Rightarrow> desk_state \<Rightarrow> bool" where
  Renewal: "n < length cs \<Longrightarrow> renew_step (cs, d) (renew_turn n (cs, d))"
| Meanwhile: "meanwhile cs d d' \<Longrightarrow> renew_step (cs, d) (cs, d')"

definition renew_start :: "(rotate_params \<times> pg_env) list \<Rightarrow> db \<Rightarrow> desk_state" where
  "renew_start ps d =
     (map (\<lambda>(arg, env). \<lparr>rn_arg = arg, rn_env = env, rn_pg = connect_db empty_db, rn_stage = Asking\<rparr>) ps, d)"

section \<open>In a row, the steps are the transaction\<close>

lemma rotate_body_steps:
  "rotate_body env arg = handle (GetSessionForUpdate env (rot_id arg)) (\<lambda>e. raise (lookup_error e)) (check_and_rotate env arg)"
  by (auto simp: rotate_body_def check_and_rotate_def [abs_def] lookup_error_def handle_def fun_eq_iff
      split: prod.split sum.split)

text \<open>Both parts look at the committed row only, and change the tables only in that row.\<close>

lemma lock_same_row:
  assumes "GetSessionForUpdate env i (s\<lparr>tables := d\<rparr>) = (Inr x, s')" "find_session i d' = find_session i d"
  shows "GetSessionForUpdate env i (s\<lparr>tables := d'\<rparr>) = (Inr x, s'\<lparr>tables := d'\<rparr>) \<and> find_session i d = Some x \<and>
    tables s' = d \<and> pending s' = pending s"
  using assms
  by (auto simp: GetSessionForUpdate_def andthen_def run_sql_def query_row_def ret_def hold_def step_tick_def
      split: option.splits sum.splits prod.splits if_splits)

lemma rotate_same_row:
  assumes "check_and_rotate env arg x (s\<lparr>tables := d\<rparr>) = (Inr y, s')" "find_session (ses_id x) d = Some x"
    and "find_session (ses_id x) d' = find_session (ses_id x) d"
  shows "check_and_rotate env arg x (s\<lparr>tables := d'\<rparr>) = (Inr y, s'\<lparr>tables := put_row y d'\<rparr>) \<and>
    tables s' = put_row y d \<and> pending s' = pending s \<and> ses_id y = ses_id x \<and> session_accepts arg x \<and>
    (\<exists>rep. rot_new_session arg = Inr rep \<and> ses_refresh_token y = rep_refresh_token_hash rep)"
  using assms
  by (auto simp: check_and_rotate_def andthen_def lift_res_def raise_def map_error_def RotateSession_def
      run_sql_def update_session_def put_row_def step_tick_def
      split: option.splits sum.splits prod.splits if_splits)

section \<open>What a renewal under way has done\<close>

text \<open>
  What a renewal has done so far it would have done as well on the tables that are committed now: the row
  it holds has not changed since.
\<close>

definition renewer_ok :: "db \<Rightarrow> renewer \<Rightarrow> bool" where
  "renewer_ok d c \<longleftrightarrow>
     (let env = rn_env c; arg = rn_arg c; now = (rn_pg c)\<lparr>tables := d\<rparr>;
          begun = (\<lambda>s. fault_at env (tick s) = None \<and> tables s = d) in
      case rn_stage c of
        Begun \<Rightarrow> \<exists>s. begun s \<and> now = begin_tx env s
      | Holding x \<Rightarrow> \<exists>s. begun s \<and> GetSessionForUpdate env (rot_id arg) (begin_tx env s) = (Inr x, now)
      | Written y \<Rightarrow> \<exists>s x s1. begun s \<and> GetSessionForUpdate env (rot_id arg) (begin_tx env s) = (Inr x, s1) \<and>
          check_and_rotate env arg x s1 = (Inr y, (rn_pg c)\<lparr>tables := put_row y d\<rparr>)
      | _ \<Rightarrow> True)"

definition exclusive :: "renewer list \<Rightarrow> bool" where
  "exclusive cs \<longleftrightarrow> (\<forall>m < length cs. \<forall>n < length cs. m \<noteq> n \<longrightarrow>
     (\<forall>i. \<not> (holds_row i (cs ! m) \<and> holds_row i (cs ! n))))"

definition desk_ok :: "desk_state \<Rightarrow> bool" where
  "desk_ok q \<longleftrightarrow> (case q of (cs, d) \<Rightarrow> sessions_ok d \<and> (\<forall>c \<in> set cs. renewer_ok d c) \<and> exclusive cs)"

lemma begin_tx_at: "begin_tx env (s\<lparr>tables := d\<rparr>) = (begin_tx env s)\<lparr>tables := d\<rparr>"
  by (simp add: begin_tx_def step_tick_def)

lemma at_tables: "tables s = d \<Longrightarrow> s\<lparr>tables := d\<rparr> = s"
  by auto

lemma locked_row:
  assumes "GetSessionForUpdate env i s = (Inr x, s')"
  shows "find_session i (tables s) = Some x \<and> tables s' = tables s \<and> pending s' = pending s"
  using lock_same_row [where s = s and d = "tables s" and d' = "tables s"] assms by (simp add: at_tables)

lemma rotated_row:
  assumes "check_and_rotate env arg x s = (Inr y, s')" "find_session (ses_id x) (tables s) = Some x"
  shows "tables s' = put_row y (tables s) \<and> pending s' = pending s \<and> ses_id y = ses_id x \<and>
    session_accepts arg x \<and> (\<exists>rep. rot_new_session arg = Inr rep \<and> ses_refresh_token y = rep_refresh_token_hash rep)"
  using rotate_same_row [where s = s and d = "tables s" and d' = "tables s"] assms by (simp add: at_tables)

lemma find_put_row:
  "find_session j (put_row y d) = map_option
     (\<lambda>r. if j = ses_id y then r\<lparr>ses_refresh_token := ses_refresh_token y, ses_expires_at := ses_expires_at y\<rparr> else r)
     (find_session j d)"
  unfolding find_session_def put_row_def by (simp add: find_replace_by)

lemma renewer_ok_Written:
  "rn_stage c = Written y \<Longrightarrow> fault_at (rn_env c) (tick s) = None \<Longrightarrow> tables s = d \<Longrightarrow>
     GetSessionForUpdate (rn_env c) (rot_id (rn_arg c)) (begin_tx (rn_env c) s) = (Inr x, s1) \<Longrightarrow>
     check_and_rotate (rn_env c) (rn_arg c) x s1 = (Inr y, (rn_pg c)\<lparr>tables := put_row y d\<rparr>) \<Longrightarrow> renewer_ok d c"
  by (auto simp: renewer_ok_def Let_def)

lemma renewer_ok_Holding:
  "rn_stage c = Holding x \<Longrightarrow> fault_at (rn_env c) (tick s) = None \<Longrightarrow> tables s = d \<Longrightarrow>
     GetSessionForUpdate (rn_env c) (rot_id (rn_arg c)) (begin_tx (rn_env c) s) = (Inr x, (rn_pg c)\<lparr>tables := d\<rparr>) \<Longrightarrow>
     renewer_ok d c"
  by (auto simp: renewer_ok_def Let_def)

lemma renewer_ok_stable:
  assumes ok: "renewer_ok d c"
    and row: "holds_row (rot_id (rn_arg c)) c \<Longrightarrow> find_session (rot_id (rn_arg c)) d' = find_session (rot_id (rn_arg c)) d"
  shows "renewer_ok d' c"
proof (cases "rn_stage c")
  case Begun
  then obtain s where "fault_at (rn_env c) (tick s) = None" "(rn_pg c)\<lparr>tables := d\<rparr> = begin_tx (rn_env c) s"
    using ok by (auto simp: renewer_ok_def Let_def)
  then have "fault_at (rn_env c) (tick (s\<lparr>tables := d'\<rparr>)) = None"
    "(rn_pg c)\<lparr>tables := d'\<rparr> = begin_tx (rn_env c) (s\<lparr>tables := d'\<rparr>)"
    unfolding begin_tx_at by (simp, metis pg.update_convs(1) pg.surjective)
  then show ?thesis using Begun by (auto simp: renewer_ok_def Let_def intro!: exI [of _ "s\<lparr>tables := d'\<rparr>"])
next
  case (Holding x)
  then obtain s where s: "fault_at (rn_env c) (tick s) = None" "tables s = d"
    "GetSessionForUpdate (rn_env c) (rot_id (rn_arg c)) ((begin_tx (rn_env c) s)\<lparr>tables := d\<rparr>) = (Inr x, (rn_pg c)\<lparr>tables := d\<rparr>)"
    using ok by (auto simp: renewer_ok_def Let_def at_tables)
  have "GetSessionForUpdate (rn_env c) (rot_id (rn_arg c)) (begin_tx (rn_env c) (s\<lparr>tables := d'\<rparr>)) =
      (Inr x, (rn_pg c)\<lparr>tables := d'\<rparr>)"
    using lock_same_row [OF s(3) row] Holding unfolding begin_tx_at by (simp add: holds_row_def)
  then show ?thesis
    using Holding s(1) by (auto simp: renewer_ok_def Let_def intro!: exI [of _ "s\<lparr>tables := d'\<rparr>"])
next
  case (Written y)
  then obtain s x s1 where s: "fault_at (rn_env c) (tick s) = None" "tables s = d"
    "GetSessionForUpdate (rn_env c) (rot_id (rn_arg c)) ((begin_tx (rn_env c) s)\<lparr>tables := d\<rparr>) = (Inr x, s1)"
    "check_and_rotate (rn_env c) (rn_arg c) x s1 = (Inr y, (rn_pg c)\<lparr>tables := put_row y d\<rparr>)"
    using ok by (auto simp: renewer_ok_def Let_def at_tables)
  have same: "find_session (rot_id (rn_arg c)) d' = find_session (rot_id (rn_arg c)) d"
    using row Written by (simp add: holds_row_def)
  note l = lock_same_row [OF s(3) same]
  have x: "ses_id x = rot_id (rn_arg c)" using l find_session_id by blast
  have "check_and_rotate (rn_env c) (rn_arg c) x (s1\<lparr>tables := d\<rparr>) = (Inr y, (rn_pg c)\<lparr>tables := put_row y d\<rparr>)"
    using s(4) l by (simp add: at_tables)
  from rotate_same_row [OF this] l same x
  have "check_and_rotate (rn_env c) (rn_arg c) x (s1\<lparr>tables := d'\<rparr>) = (Inr y, (rn_pg c)\<lparr>tables := put_row y d'\<rparr>)"
    by simp
  then show ?thesis
    using Written s(1) l
    by (intro renewer_ok_Written [of c y "s\<lparr>tables := d'\<rparr>" d' x "s1\<lparr>tables := d'\<rparr>"]) (simp_all add: begin_tx_at)
qed (use ok in \<open>auto simp: renewer_ok_def Let_def\<close>)

text \<open>A commit is one whole \<open>RotateSessionTx\<close>, begun and ended at that moment.\<close>

lemma written_row:
  assumes "renewer_ok d c" "rn_stage c = Written y"
  shows "ses_id y = rot_id (rn_arg c) \<and> current_hash (rot_id (rn_arg c)) d = Some (rot_refresh_token_hash (rn_arg c)) \<and>
    (\<exists>rep. rot_new_session (rn_arg c) = Inr rep \<and>
       current_hash (rot_id (rn_arg c)) (put_row y d) = Some (rep_refresh_token_hash rep))"
proof -
  from assms obtain s x s1 where s: "tables s = d"
    "GetSessionForUpdate (rn_env c) (rot_id (rn_arg c)) (begin_tx (rn_env c) s) = (Inr x, s1)"
    "check_and_rotate (rn_env c) (rn_arg c) x s1 = (Inr y, (rn_pg c)\<lparr>tables := put_row y d\<rparr>)"
    by (auto simp: renewer_ok_def Let_def)
  have x: "find_session (rot_id (rn_arg c)) d = Some x" "tables s1 = d" using locked_row [OF s(2)] s(1) by simp_all
  then have i: "ses_id x = rot_id (rn_arg c)" using find_session_id by blast
  have "find_session (ses_id x) (tables s1) = Some x" using x i by simp
  from rotated_row [OF s(3) this] show ?thesis
    using x i by (auto simp: current_hash_def find_put_row session_accepts_def)
qed

lemma commit_is_rotation:
  assumes "renewer_ok d c" "rn_stage c = Written y"
  shows "\<exists>s r s'. RotateSessionTx (rn_env c) (rn_arg c) s = (r, s') \<and> tables s = d \<and>
    tables s' = snd (renew free c d) \<and> rn_stage (fst (renew free c d)) = Answered r"
proof -
  let ?env = "rn_env c"
  from assms obtain s x s1 where s: "fault_at ?env (tick s) = None" "tables s = d"
    "GetSessionForUpdate ?env (rot_id (rn_arg c)) (begin_tx ?env s) = (Inr x, s1)"
    "check_and_rotate ?env (rn_arg c) x s1 = (Inr y, (rn_pg c)\<lparr>tables := put_row y d\<rparr>)"
    by (auto simp: renewer_ok_def Let_def)
  have x: "find_session (rot_id (rn_arg c)) d = Some x" "tables s1 = d" "pending s1 = []"
    using locked_row [OF s(3)] s(2) by simp_all
  then have "find_session (ses_id x) (tables s1) = Some x" using find_session_id by force
  from rotated_row [OF s(4) this] have pend: "pending (rn_pg c) = []" using x by simp
  have body: "rotate_body ?env (rn_arg c) (begin_tx ?env s) = (Inr y, (rn_pg c)\<lparr>tables := put_row y d\<rparr>)"
    using s by (simp add: rotate_body_steps handle_def)
  show ?thesis
    using s(1,2) body pend assms(2)
    by (intro exI [of _ s])
      (auto simp: RotateSessionTx_def execTx_defs BeginTxFunc_def renew_def Let_def renewed_def commit_def rollback_def
        publish_pending_def put_row_def step_tick_def split: commit_outcome.split)
qed

section \<open>Steps\<close>

lemma renew_args: "renew free c d = (c', d') \<Longrightarrow> rn_arg c' = rn_arg c \<and> rn_env c' = rn_env c"
  by (auto simp: renew_def Let_def renewed_def split: renewal.splits option.splits sum.splits prod.splits
      commit_outcome.splits if_splits)

lemma renew_tables:
  "renew free c d = (c', d') \<Longrightarrow> d' = d \<or> (\<exists>y. rn_stage c = Written y \<and> d' = put_row y d \<and>
     (rn_stage c' = Answered (Inr y) \<or> (\<exists>m. rn_stage c' = Answered (Inl (DriverError m)))))"
  by (auto simp: renew_def Let_def renewed_def split: renewal.splits option.splits sum.splits prod.splits
      commit_outcome.splits if_splits)

lemma renew_holds:
  "renew free c d = (c', d') \<Longrightarrow> holds_row i c' \<Longrightarrow> holds_row i c \<or> (free \<and> i = rot_id (rn_arg c))"
  by (auto simp: renew_def Let_def renewed_def holds_row_def split: renewal.splits option.splits sum.splits prod.splits
      commit_outcome.splits if_splits)

text \<open>A success is the commit of what was written.\<close>

lemma renew_success:
  "renew free c d = (c', d') \<Longrightarrow> rn_stage c' = Answered (Inr y) \<Longrightarrow>
     c' = c \<and> d' = d \<or> rn_stage c = Written y \<and> d' = put_row y d"
  by (auto simp: renew_def Let_def renewed_def split: renewal.splits option.splits sum.splits prod.splits
      commit_outcome.splits if_splits)

lemma renew_keeps_ok:
  assumes ok: "renewer_ok d c" and run: "renew free c d = (c', d')"
  shows "renewer_ok d' c'"
proof (cases "rn_stage c")
  case Asking
  then show ?thesis
    using run
    by (auto simp: renew_def Let_def renewed_def renewer_ok_def split: option.splits
        intro!: exI [of _ "(rn_pg c)\<lparr>tables := d\<rparr>"])
next
  case Begun
  then obtain s where s: "fault_at (rn_env c) (tick s) = None" "tables s = d" "(rn_pg c)\<lparr>tables := d\<rparr> = begin_tx (rn_env c) s"
    using ok by (auto simp: renewer_ok_def Let_def)
  obtain r s' where get: "GetSessionForUpdate (rn_env c) (rot_id (rn_arg c)) ((rn_pg c)\<lparr>tables := d\<rparr>) = (r, s')" by fastforce
  show ?thesis
  proof (cases r)
    case (Inr x)
    then have s': "tables s' = d" using locked_row get by fastforce
    show ?thesis
    proof (cases free)
      case True
      then have c': "c' = renewed c (Holding x) s'" "d' = d" using run Begun get Inr by (simp_all add: renew_def Let_def)
      have "GetSessionForUpdate (rn_env c) (rot_id (rn_arg c)) (begin_tx (rn_env c) s) = (Inr x, s')"
        using get Inr unfolding s(3) by simp
      then show ?thesis
        unfolding c' by (intro renewer_ok_Holding [of _ x s]) (simp_all add: renewed_def at_tables s(1,2) s')
    qed (use run Begun ok in \<open>auto simp: renew_def Let_def\<close>)
  qed (use run Begun get ok in \<open>auto simp: renew_def Let_def renewed_def renewer_ok_def split: if_splits\<close>)
next
  case (Holding x)
  then obtain s where s: "fault_at (rn_env c) (tick s) = None" "tables s = d"
    "GetSessionForUpdate (rn_env c) (rot_id (rn_arg c)) (begin_tx (rn_env c) s) = (Inr x, (rn_pg c)\<lparr>tables := d\<rparr>)"
    using ok by (auto simp: renewer_ok_def Let_def)
  have x: "find_session (ses_id x) (tables ((rn_pg c)\<lparr>tables := d\<rparr>)) = Some x"
    using locked_row [OF s(3)] s(2) find_session_id by force
  obtain r s' where rot: "check_and_rotate (rn_env c) (rn_arg c) x ((rn_pg c)\<lparr>tables := d\<rparr>) = (r, s')" by fastforce
  show ?thesis
  proof (cases r)
    case (Inr y)
    then have "tables s' = put_row y d" using rotated_row [OF _ x] rot by force
    then show ?thesis
      using run Holding rot Inr s
      by (intro renewer_ok_Written [of c' y s d' x "(rn_pg c)\<lparr>tables := d\<rparr>"])
        (auto simp: renew_def Let_def renewed_def at_tables)
  qed (use run Holding rot in \<open>auto simp: renew_def Let_def renewed_def renewer_ok_def\<close>)
qed (use run in \<open>auto simp: renew_def Let_def renewed_def renewer_ok_def split: commit_outcome.splits\<close>)

lemma sessions_ok_put_row: "sessions_ok d \<Longrightarrow> sessions_ok (put_row y d)"
  by (auto simp: sessions_ok_def put_row_def map_replace_by in_set_replace_by)

lemma exclusiveD:
  "exclusive cs \<Longrightarrow> m < length cs \<Longrightarrow> n < length cs \<Longrightarrow> m \<noteq> n \<Longrightarrow> holds_row i (cs ! m) \<Longrightarrow> \<not> holds_row i (cs ! n)"
  by (auto simp: exclusive_def)

lemma renew_turn_ok:
  assumes ok: "desk_ok (cs, d)" and n: "n < length cs" and turn: "renew_turn n (cs, d) = (cs', d')"
  shows "desk_ok (cs', d')"
proof -
  let ?c = "cs ! n" and ?free = "\<forall>m < length cs. m \<noteq> n \<longrightarrow> \<not> holds_row (rot_id (rn_arg (cs ! n))) (cs ! m)"
  obtain c' where run: "renew ?free ?c d = (c', d')" and cs': "cs' = cs[n := c']"
    using turn by (auto simp: renew_turn_def Let_def split: prod.splits)
  have mine: "renewer_ok d ?c" using ok n by (auto simp: desk_ok_def)
  have other: "renewer_ok d' (cs ! m)" if m: "m < length cs" "m \<noteq> n" for m
  proof (rule renewer_ok_stable)
    show "renewer_ok d (cs ! m)" using ok m by (auto simp: desk_ok_def)
    assume held: "holds_row (rot_id (rn_arg (cs ! m))) (cs ! m)"
    have "d' = d \<or> (\<exists>y. d' = put_row y d \<and> ses_id y \<noteq> rot_id (rn_arg (cs ! m)))"
    proof (cases "d' = d")
      case False
      then obtain y where y: "rn_stage ?c = Written y" "d' = put_row y d" using renew_tables [OF run] by auto
      then have "holds_row (rot_id (rn_arg ?c)) ?c" by (simp add: holds_row_def)
      then have "rot_id (rn_arg (cs ! m)) \<noteq> rot_id (rn_arg ?c)"
        using exclusiveD [of cs m n "rot_id (rn_arg (cs ! m))"] ok held m n by (auto simp: desk_ok_def)
      then show ?thesis using y written_row [OF mine y(1)] by auto
    qed simp
    then show "find_session (rot_id (rn_arg (cs ! m))) d' = find_session (rot_id (rn_arg (cs ! m))) d"
      by (auto simp: find_put_row option.map_ident)
  qed
  have "renewer_ok d' (cs' ! m)" if "m < length cs'" for m
    using that other renew_keeps_ok [OF mine run] cs' n by (cases "m = n") auto
  then have "\<forall>c \<in> set cs'. renewer_ok d' c" by (auto simp: in_set_conv_nth)
  moreover have "exclusive cs'"
  proof -
    have held: "holds_row i (cs ! m) \<or> m = n \<and> ?free \<and> i = rot_id (rn_arg ?c)"
      if "holds_row i (cs' ! m)" "m < length cs" for i m
      using renew_holds [OF run, of i] that unfolding cs' by (cases "m = n") auto
    have "\<not> (holds_row i (cs' ! k) \<and> holds_row i (cs' ! m))" if k: "k < length cs" and m: "m < length cs" "k \<noteq> m" for i k m
    proof
      assume both: "holds_row i (cs' ! k) \<and> holds_row i (cs' ! m)"
      then have "holds_row i (cs ! k) \<or> k = n \<and> ?free \<and> i = rot_id (rn_arg ?c)"
        "holds_row i (cs ! m) \<or> m = n \<and> ?free \<and> i = rot_id (rn_arg ?c)"
        using held [OF _ k] held [OF _ m(1)] by blast+
      then show False using exclusiveD [of cs k m i] ok k m by (auto simp: desk_ok_def)
    qed
    then show ?thesis by (simp add: exclusive_def cs')
  qed
  moreover have "sessions_ok d'"
    using renew_tables [OF run] ok sessions_ok_put_row by (auto simp: desk_ok_def)
  ultimately show ?thesis by (simp add: desk_ok_def)
qed

lemma meanwhile_ok:
  assumes "desk_ok (cs, d)" "meanwhile cs d d'"
  shows "desk_ok (cs, d')"
  using assms by (auto simp: desk_ok_def meanwhile_def intro: renewer_ok_stable)

lemma renew_start_ok: "sessions_ok d \<Longrightarrow> desk_ok (renew_start ps d)"
  by (auto simp: desk_ok_def renew_start_def renewer_ok_def exclusive_def holds_row_def split: prod.splits)

section \<open>Exactly once\<close>

text \<open>Who presented the token \<open>h\<close> for the session \<open>i\<close> and was told of a success.\<close>

definition won :: "uuid \<Rightarrow> string \<Rightarrow> renewer \<Rightarrow> bool" where
  "won i h c \<longleftrightarrow> rot_id (rn_arg c) = i \<and> rot_refresh_token_hash (rn_arg c) = h \<and>
     (case rn_stage c of Answered r \<Rightarrow> \<not> isl r | _ \<Rightarrow> False)"

lemma won_iff:
  "won i h c \<longleftrightarrow> rot_id (rn_arg c) = i \<and> rot_refresh_token_hash (rn_arg c) = h \<and> (\<exists>y. rn_stage c = Answered (Inr y))"
  by (auto simp: won_def isl_def split: renewal.splits sum.splits intro: sum.exhaust)

text \<open>No renewal issues a token that is presented; a token contains a random nonce.\<close>

definition new_tokens :: "rotate_params list \<Rightarrow> bool" where
  "new_tokens args \<longleftrightarrow> (\<forall>a \<in> set args. \<forall>b \<in> set args.
     (case rot_new_session a of Inl e \<Rightarrow> True | Inr rep \<Rightarrow> rep_refresh_token_hash rep \<noteq> rot_refresh_token_hash b))"

definition one_winner :: "desk_state \<Rightarrow> bool" where
  "one_winner q \<longleftrightarrow> (case q of (cs, d) \<Rightarrow> \<forall>i h.
     (\<forall>n < length cs. won i h (cs ! n) \<longrightarrow> current_hash i d \<noteq> None \<and> current_hash i d \<noteq> Some h) \<and>
     (\<forall>m < length cs. \<forall>n < length cs. m \<noteq> n \<longrightarrow> \<not> (won i h (cs ! m) \<and> won i h (cs ! n))))"

lemma one_winnerD:
  assumes "one_winner (cs, d)" "m < length cs" "n < length cs" "won i h (cs ! m)" "won i h (cs ! n)"
  shows "m = n"
proof (rule ccontr)
  assume "m \<noteq> n"
  have "\<forall>m < length cs. \<forall>n < length cs. m \<noteq> n \<longrightarrow> \<not> (won i h (cs ! m) \<and> won i h (cs ! n))"
    using assms(1) unfolding one_winner_def case_prod_conv by blast
  with \<open>m \<noteq> n\<close> assms(2-) show False by blast
qed

lemma one_winner_turn:
  assumes ok: "desk_ok (cs, d)" and one: "one_winner (cs, d)" and fresh: "new_tokens (map rn_arg cs)"
    and n: "n < length cs" and turn: "renew_turn n (cs, d) = (cs', d')"
  shows "one_winner (cs', d')"
proof -
  let ?c = "cs ! n" and ?free = "\<forall>m < length cs. m \<noteq> n \<longrightarrow> \<not> holds_row (rot_id (rn_arg (cs ! n))) (cs ! m)"
  obtain c' where run: "renew ?free ?c d = (c', d')" and cs': "cs' = cs[n := c']"
    using turn by (auto simp: renew_turn_def Let_def split: prod.splits)
  have mine: "renewer_ok d ?c" using ok n by (auto simp: desk_ok_def)
  have won': "won i h c' \<longleftrightarrow> won i h ?c \<or> (\<exists>y. rn_stage ?c = Written y \<and> rn_stage c' = Answered (Inr y) \<and> d' = put_row y d \<and>
      rot_id (rn_arg ?c) = i \<and> rot_refresh_token_hash (rn_arg ?c) = h)" for i h
    using renew_success [OF run] renew_args [OF run] run
    by (auto simp: won_iff renew_def Let_def)
  have new: "rep_refresh_token_hash rep \<noteq> rot_refresh_token_hash (rn_arg b)"
    if "rot_new_session (rn_arg ?c) = Inr rep" "b \<in> set cs" for rep b
    using fresh nth_mem [OF n] that by (fastforce simp: new_tokens_def)
  have written: "current_hash (rot_id (rn_arg ?c)) d = Some (rot_refresh_token_hash (rn_arg ?c)) \<and>
      current_hash (rot_id (rn_arg ?c)) (put_row y d) \<noteq> None \<and>
      (\<forall>m < length cs. current_hash (rot_id (rn_arg ?c)) (put_row y d) \<noteq> Some (rot_refresh_token_hash (rn_arg (cs ! m))))"
    if "rn_stage ?c = Written y" for y
    using written_row [OF mine that] by (auto dest: new [OF _ nth_mem])
  have elsewhere: "current_hash j (put_row y d) = current_hash j d"
    if "rn_stage ?c = Written y" "j \<noteq> rot_id (rn_arg ?c)" for y j
    using written_row [OF mine that(1)] that(2) by (simp add: current_hash_def find_put_row option.map_comp comp_def)
  consider (idle) "d' = d" "\<And>i h. won i h c' \<longleftrightarrow> won i h ?c"
    | (wrote) y where "rn_stage ?c = Written y" "d' = put_row y d"
    using renew_tables [OF run] won' by auto
  then show ?thesis
  proof cases
    case idle
    have "won i h (cs' ! m) \<longleftrightarrow> won i h (cs ! m)" if "m < length cs" for i h m
      using idle(2) that unfolding cs' by (cases "m = n") auto
    then show ?thesis using one idle(1) unfolding one_winner_def by (simp add: cs')
  next
    case wrote
    note w = written [OF wrote(1)]
    have now: "won i h (cs' ! m) \<Longrightarrow> won i h (cs ! m) \<or>
        m = n \<and> i = rot_id (rn_arg ?c) \<and> h = rot_refresh_token_hash (rn_arg ?c)" if "m < length cs" for i h m
      using won' that unfolding cs' by (cases "m = n") auto
    have before: "\<not> won (rot_id (rn_arg ?c)) (rot_refresh_token_hash (rn_arg ?c)) (cs ! m)" if "m < length cs" for m
      using one that w unfolding one_winner_def by fastforce
    have "current_hash i d' \<noteq> None \<and> current_hash i d' \<noteq> Some h" if m: "m < length cs" "won i h (cs' ! m)" for i h m
    proof (cases "i = rot_id (rn_arg ?c)")
      case True
      have "h = rot_refresh_token_hash (rn_arg (cs ! m))"
        using now [OF m] by (auto simp: won_iff)
      then show ?thesis using w m(1) True wrote(2) by simp
    next
      case False
      then have "won i h (cs ! m)" using now [OF m] by simp
      then show ?thesis using one m(1) False elsewhere [OF wrote(1)] wrote(2) by (simp add: one_winner_def)
    qed
    moreover have "\<not> (won i h (cs' ! k) \<and> won i h (cs' ! m))" if k: "k < length cs" and m: "m < length cs" "k \<noteq> m" for i h k m
    proof
      assume both: "won i h (cs' ! k) \<and> won i h (cs' ! m)"
      have "\<not> (won i h (cs ! k) \<and> won i h (cs ! m))" using one k m by (simp add: one_winner_def)
      with both show False using now [OF k, of i h] now [OF m(1), of i h] before [OF k] before [OF m(1)] m(2) by metis
    qed
    ultimately show ?thesis unfolding one_winner_def by (simp add: cs')
  qed
qed

lemma renew_turn_args:
  assumes "renew_turn n (cs, d) = (cs', d')"
  shows "map rn_arg cs' = map rn_arg cs"
proof (cases "n < length cs")
  case True
  then show ?thesis
    using assms renew_args
    by (auto simp: renew_turn_def Let_def map_update list_update_same_conv split: prod.splits)
qed (use assms in \<open>auto simp: renew_turn_def Let_def list_update_beyond split: prod.splits\<close>)

definition race_ok :: "rotate_params list \<Rightarrow> desk_state \<Rightarrow> bool" where
  "race_ok args q \<longleftrightarrow> desk_ok q \<and> one_winner q \<and> map rn_arg (fst q) = args"

lemma renew_step_ok:
  assumes "renew_step q q'" "race_ok args q" "new_tokens args"
  shows "race_ok args q'"
  using assms
proof cases
  case (Renewal n cs d)
  obtain cs' d' where turn: "renew_turn n (cs, d) = (cs', d')" by fastforce
  have "desk_ok (cs', d')" "one_winner (cs', d')" "map rn_arg cs' = args"
    using renew_turn_ok [OF _ Renewal(3) turn] one_winner_turn [OF _ _ _ Renewal(3) turn] renew_turn_args [OF turn]
      Renewal(1) assms(2,3) by (auto simp: race_ok_def)
  then show ?thesis using turn Renewal(2) by (simp add: race_ok_def)
next
  case (Meanwhile cs d d')
  have "one_winner (cs, d')"
    using Meanwhile assms(2) by (fastforce simp: race_ok_def one_winner_def meanwhile_def)
  then show ?thesis using Meanwhile assms(2) meanwhile_ok by (auto simp: race_ok_def)
qed

lemma renew_steps_ok:
  assumes "renew_step\<^sup>*\<^sup>* (renew_start ps d0) q" "sessions_ok d0" "new_tokens (map fst ps)"
  shows "race_ok (map fst ps) q"
  using assms(1)
proof (induction rule: rtranclp_induct)
  case base
  have "one_winner (renew_start ps d0)" by (auto simp: one_winner_def renew_start_def won_iff split: prod.splits)
  moreover have "map rn_arg (fst (renew_start ps d0)) = map fst ps" by (auto simp: renew_start_def)
  ultimately show ?case using renew_start_ok [OF assms(2)] by (simp add: race_ok_def)
qed (use renew_step_ok assms(3) in blast)

text \<open>Blocking a session that nobody holds is one of the things that may happen meanwhile.\<close>

lemma blocking_is_meanwhile:
  assumes run: "BlockSession env i s = (r, s')" and ok: "sessions_ok (tables s)" and free: "\<forall>c \<in> set cs. \<not> holds_row i c"
  shows "meanwhile cs (tables s) (tables s')"
proof -
  have "find_session j (tables s') = find_session j (tables s)" if "j \<noteq> i" for j
    using run that
    by (auto simp: BlockSession_def run_sql_def update_session_def find_session_def find_replace_by step_tick_def
        option.map_ident split: option.splits sum.splits prod.splits if_splits)
  moreover have "sessions_ok (tables s')"
    using run ok
    by (auto simp: BlockSession_def run_sql_def update_session_def sessions_ok_def map_replace_by in_set_replace_by
        step_tick_def split: option.splits sum.splits prod.splits if_splits)
  ultimately show ?thesis
    using BlockSession_hash [OF run] free unfolding meanwhile_def current_hash_def by metis
qed

text \<open>
  C18 (safety). Renewals at the same time rotate a session exactly once, as the comment on
  \<open>RotateSessionTx\<close> says. However the statements of any number of renewals interleave, with logouts and
  logins in between and through any failures of statements and commits: a step changes the committed
  tables only where it commits, and what it commits is one whole \<open>RotateSessionTx\<close> run at that moment,
  the answer included; of all renewals that present one token for one session at most one succeeds, and
  that token is not in force on the session afterwards. The replacement tokens are taken to be none of
  the presented ones; each holds a random nonce.
\<close>

theorem interleaved_renewals:
  assumes "renew_step\<^sup>*\<^sup>* (renew_start ps d0) (cs, d)" "sessions_ok d0" "new_tokens (map fst ps)"
  shows "(\<forall>n < length cs. snd (renew_turn n (cs, d)) = d \<or>
       (\<exists>s r s'. RotateSessionTx (rn_env (cs ! n)) (rn_arg (cs ! n)) s = (r, s') \<and> tables s = d \<and>
          tables s' = snd (renew_turn n (cs, d)) \<and> rn_stage (fst (renew_turn n (cs, d)) ! n) = Answered r)) \<and>
    (\<forall>m < length cs. \<forall>n < length cs. won i h (cs ! m) \<and> won i h (cs ! n) \<longrightarrow> m = n) \<and>
    (\<forall>n < length cs. won i h (cs ! n) \<longrightarrow> current_hash i d \<noteq> Some h)"
proof -
  have ok: "desk_ok (cs, d)" "one_winner (cs, d)" using renew_steps_ok [OF assms] by (simp_all add: race_ok_def)
  have "snd (renew_turn n (cs, d)) = d \<or>
       (\<exists>s r s'. RotateSessionTx (rn_env (cs ! n)) (rn_arg (cs ! n)) s = (r, s') \<and> tables s = d \<and>
          tables s' = snd (renew_turn n (cs, d)) \<and> rn_stage (fst (renew_turn n (cs, d)) ! n) = Answered r)"
    if n: "n < length cs" for n
  proof -
    let ?free = "\<forall>m < length cs. m \<noteq> n \<longrightarrow> \<not> holds_row (rot_id (rn_arg (cs ! n))) (cs ! m)"
    obtain c' d' where run: "renew ?free (cs ! n) d = (c', d')" by fastforce
    have turn: "renew_turn n (cs, d) = (cs[n := c'], d')" using run by (simp add: renew_turn_def Let_def)
    have mine: "renewer_ok d (cs ! n)" using ok n by (auto simp: desk_ok_def)
    show ?thesis
    proof (cases "d' = d")
      case False
      then obtain y where "rn_stage (cs ! n) = Written y" using renew_tables [OF run] by blast
      from commit_is_rotation [OF mine this, of ?free] show ?thesis
        unfolding run turn using n by simp
    qed (simp add: turn)
  qed
  moreover have "\<forall>m < length cs. \<forall>n < length cs. won i h (cs ! m) \<and> won i h (cs ! n) \<longrightarrow> m = n"
    using one_winnerD [OF ok(2)] by blast
  moreover have "\<forall>n < length cs. won i h (cs ! n) \<longrightarrow> current_hash i d \<noteq> Some h"
    using ok(2) by (simp add: one_winner_def)
  ultimately show ?thesis by blast
qed

section \<open>Witness\<close>

lemma renew_turns_reach:
  "\<forall>n \<in> set ns. n < length (fst q) \<Longrightarrow> renew_step\<^sup>*\<^sup>* q (fold renew_turn ns q)"
proof (induction ns arbitrary: q)
  case (Cons n ns)
  obtain cs d where q: "q = (cs, d)" by fastforce
  have "length (fst (renew_turn n q)) = length (fst q)" by (simp add: renew_turn_def Let_def split: prod.split)
  then have "renew_step\<^sup>*\<^sup>* (renew_turn n q) (fold renew_turn ns (renew_turn n q))" using Cons by simp
  moreover have "renew_step q (renew_turn n q)" using Cons.prems unfolding q by (simp add: Renewal)
  ultimately show ?case by (simp add: converse_rtranclp_into_rtranclp)
qed simp

text \<open>Alice's browser sends the same cookie twice. The second request waits, and is refused.\<close>

definition same_cookie :: "string \<Rightarrow> rotate_params" where
  "same_cookie new = \<lparr>rot_id = 20, rot_username = ''alice'', rot_refresh_token_hash = ''hash-1'',
     rot_now = 10 * second,
     rot_new_session = Inr \<lparr>rep_id = 20, rep_refresh_token_hash = new, rep_expires_at = 7200 * second\<rparr>\<rparr>"

definition twice :: "(rotate_params \<times> pg_env) list" where
  "twice = [(same_cookie ''hash-2'', sample_env), (same_cookie ''hash-3'', sample_env)]"

abbreviation after_both :: desk_state where
  "after_both \<equiv> fold renew_turn [0, 1, 0, 1, 0, 1, 0, 1, 1, 1] (renew_start twice sample_db)"

theorem interleaved_renewals_witness:
  "won 20 ''hash-1'' (fst after_both ! 0) \<and> rn_stage (fst after_both ! 1) = Answered (Inl ErrInvalidSession) \<and>
   current_hash 20 (snd after_both) \<noteq> Some ''hash-1''"
proof -
  have len: "length (fst (renew_start twice sample_db)) = 2" by (simp add: renew_start_def twice_def)
  have "renew_step\<^sup>*\<^sup>* (renew_start twice sample_db) (fst after_both, snd after_both)"
    using renew_turns_reach [of "[0, 1, 0, 1, 0, 1, 0, 1, 1, 1]" "renew_start twice sample_db"] len by simp
  moreover have "sessions_ok sample_db" "new_tokens (map fst twice)" by code_simp+
  moreover have w: "won 20 ''hash-1'' (fst after_both ! 0)" "length (fst after_both) = 2"
    "rn_stage (fst after_both ! 1) = Answered (Inl ErrInvalidSession)"
    by code_simp+
  moreover have "0 < length (fst after_both)" using w(2) by linarith
  ultimately have "current_hash 20 (snd after_both) \<noteq> Some ''hash-1''"
    using interleaved_renewals [of twice sample_db "fst after_both" "snd after_both" 20 "''hash-1''"] by blast
  then show ?thesis using w by blast
qed

end
