(* ===== verification/Session_History.thy ===== *)
theory Session_History
  imports Bank_History Api_User_Witnesses
begin

text \<open>
  A refresh session over time. Once a renewal has replaced a token, or a logout has ended a session, any
  history of requests and jobs may follow (\<open>Bank_History\<close>) before somebody presents the old token. Most of
  the server never writes a session: what depends on the sessions only, and is kept when one is blocked,
  is kept by every call but logins and renewals (locale \<open>session_fact\<close>); these two are looked at one by one.
\<close>

section \<open>Calls that write no session\<close>

definition same_sessions :: "db \<Rightarrow> db \<Rightarrow> bool" where
  "same_sessions d d' \<longleftrightarrow> sessions d' = sessions d"

lemma stays_same_sessions:
  "stays same_sessions (createUser_sql un h fn em)"
  "stays same_sessions (createAccount_sql owner bal cur)"
  "stays same_sessions (createEntry_sql ai amt)"
  "stays same_sessions (createTransfer_sql f t amt k)"
  "stays same_sessions (createVerifyEmail_sql un em code)"
  "stays same_sessions (addAccountBalance_sql amt ai)"
  "stays same_sessions (verifyUserEmail_sql un)"
  "stays same_sessions (updateVerifyEmail_sql vi code)"
  "stays same_sessions (markNotificationRead_sql ni owner)"
  "stays same_sessions (markAllNotificationsRead_sql owner)"
  by (rule staysI; auto simp: createUser_sql_def createAccount_sql_def createEntry_sql_def createTransfer_sql_def
      createVerifyEmail_sql_def addAccountBalance_sql_def verifyUserEmail_sql_def updateVerifyEmail_sql_def
      markNotificationRead_sql_def markAllNotificationsRead_sql_def Let_def same_sessions_def
      split: option.splits if_splits)+

lemma notification_same_sessions: "stays same_sessions (createNotification_sql dir tid aid)"
  by (rule staysI, erule createNotification_Inr) (simp add: same_sessions_def)

lemma same_sessions_notified: "same_sessions d0 d \<Longrightarrow> same_sessions d0 (d\<lparr>notified := ns\<rparr>)"
  by (simp add: same_sessions_def)

lemma writes_same_sessions [sql_keeps]:
  "keeps (on_tables (same_sessions d0)) (CreateUser env un h fn em)"
  "keeps (on_tables (same_sessions d0)) (CreateAccount env owner b cur)"
  "keeps (on_tables (same_sessions d0)) (CreateEntry env ai amt)"
  "keeps (on_tables (same_sessions d0)) (CreateTransfer env f t amt k)"
  "keeps (on_tables (same_sessions d0)) (CreateNotification env dir tid aid)"
  "keeps (on_tables (same_sessions d0)) (CreateVerifyEmail env un em code)"
  "keeps (on_tables (same_sessions d0)) (AddAccountBalance env amt ai)"
  "keeps (on_tables (same_sessions d0)) (VerifyUserEmail env un)"
  "keeps (on_tables (same_sessions d0)) (UpdateVerifyEmail env vi code)"
  "keeps (on_tables (same_sessions d0)) (MarkNotificationRead env ni owner)"
  "keeps (on_tables (same_sessions d0)) (MarkAllNotificationsRead env owner)"
  "keeps (on_tables (same_sessions d0)) (PublishNotification env ni owner)"
  unfolding CreateUser_def CreateAccount_def CreateEntry_def CreateTransfer_def CreateNotification_def
    CreateVerifyEmail_def AddAccountBalance_def VerifyUserEmail_def UpdateVerifyEmail_def MarkNotificationRead_def
    MarkAllNotificationsRead_def
  by (intro stays_run stays_same_sessions notification_same_sessions keeps_publish same_sessions_notified, assumption?)+

lemma bodies_same_sessions:
  "keeps (on_tables (same_sessions d0)) (transfer_body env arg)"
  "keeps (on_tables (same_sessions d0)) (account_body env owner bal cur)"
  "keeps (on_tables (same_sessions d0)) (verify_body env vi code)"
  "keeps (on_tables (same_sessions d0)) (mark_read_body env owner ni)"
  "keeps (on_tables (same_sessions d0)) (mark_all_body env owner)"
  unfolding transfer_body_def post_transfer_def move_rows_def notify_side_def account_body_def
    verify_body_def mark_read_body_def mark_all_body_def
  by (intro keeps_intros sql_keeps lockAccounts_keeps transfer_checks_keeps)+

locale session_fact =
  fixes I :: "db \<Rightarrow> bool"
  assumes sessions_only: "I d \<Longrightarrow> same_sessions d d' \<Longrightarrow> I d'"
    and blocking: "keeps (on_tables I) (BlockSession env i)"
begin

lemma keeps_unless_sessions:
  assumes "\<And>d0. keeps (on_tables (same_sessions d0)) m"
  shows "keeps (on_tables I) m"
proof (rule keepsI)
  fix s r s' assume "on_tables I s" "m s = (r, s')"
  then show "on_tables I s'"
    using keepsD [OF assms, of "tables s" s] sessions_only by (simp add: on_tables_def same_sessions_def)
qed

lemma untouched_parts: "I d \<Longrightarrow> I (d\<lparr>notified := ns\<rparr>)" "I d \<Longrightarrow> I (d\<lparr>jobs := js\<rparr>)"
  by (auto elim: sessions_only simp: same_sessions_def)

end

sublocale session_fact \<subseteq> kept_by_owners I
  by unfold_locales
    (auto intro!: keeps_txs user_body_keeps blocking untouched_parts
      intro: keeps_unless_sessions bodies_same_sessions writes_same_sessions)

section \<open>A token replaced, a session ended\<close>

definition replaced :: "uuid \<Rightarrow> string \<Rightarrow> db \<Rightarrow> bool" where
  "replaced i h d \<longleftrightarrow> (\<exists>x. find_session i d = Some x \<and> ses_refresh_token x \<noteq> h)"

definition blocked :: "uuid \<Rightarrow> db \<Rightarrow> bool" where
  "blocked i d \<longleftrightarrow> (\<exists>x. find_session i d = Some x \<and> ses_is_blocked x)"

definition missing :: "uuid \<Rightarrow> db \<Rightarrow> bool" where
  "missing i d \<longleftrightarrow> find_session i d = None"

lemma find_same_sessions: "same_sessions d d' \<Longrightarrow> find_session i d' = find_session i d"
  by (simp add: same_sessions_def find_session_def)

interpretation replaced: session_fact "replaced i h" for i h
proof
  show "keeps (on_tables (replaced i h)) (BlockSession env j)" for env j
    by (rule keepsI, drule BlockSession_find) (auto simp: on_tables_def replaced_def)
qed (simp add: replaced_def find_same_sessions)

interpretation blocked: session_fact "blocked i" for i
proof
  show "keeps (on_tables (blocked i)) (BlockSession env j)" for env j
    by (rule keepsI, drule BlockSession_find) (auto simp: on_tables_def blocked_def)
qed (simp add: blocked_def find_same_sessions)

interpretation missing: session_fact "missing i" for i
proof
  show "keeps (on_tables (missing i)) (BlockSession env j)" for env j
    by (rule keepsI, drule BlockSession_find) (auto simp: on_tables_def missing_def)
qed (simp add: missing_def find_same_sessions)

section \<open>Logins and renewals\<close>

text \<open>A login writes a session of its own, under the identifier it has drawn.\<close>

fun draws :: "uuid \<Rightarrow> call \<Rightarrow> bool" where
  "draws i (Req_loginUser rq bound valid) = (mint_id (rq_refresh_mint rq) = i)"
| "draws i _ = False"

lemma login_sessions:
  assumes "loginUser srv rq bound valid w = (r, w')"
  shows "find_session i (tables (db_conn w')) = find_session i (tables (db_conn w)) \<or>
    (find_session i (tables (db_conn w)) = None \<and> mint_id (rq_refresh_mint rq) = i)"
proof (cases r)
  case (Inl e)
  then show ?thesis using loginUser_Inl assms by fastforce
next
  case (Inr a)
  obtain st body where "a = (st, body)" by fastforce
  with assms Inr have "loginUser srv rq bound valid w = (Inr (st, body), w')" by simp
  then show ?thesis
  proof (cases rule: loginUser_Inr)
    case (1 req u tk x)
    have "ses_id x = mint_id (rq_refresh_mint rq)" using 1(8) issueTokenPair_refresh [OF 1(6)] by simp
    moreover have "find_session i (tables (db_conn w)) = None" if "i = ses_id x"
      using 1(7,8) that by (auto simp: find_session_def find_None_iff image_iff)
    ultimately show ?thesis using 1(13) by (auto simp: find_session_def find_append split: option.split)
  qed
qed

text \<open>A renewal writes the session that its cookie names, to hold the digest of the token it hands out.\<close>

fun hands_out :: "server \<Rightarrow> string \<Rightarrow> call \<Rightarrow> bool" where
  "hands_out srv h (Req_renewToken rq ck) =
     (case ck of
        GotCookie raw \<Rightarrow>
          (case VerifyToken (srv_jwt srv) (srv_key srv) (rq_now rq) raw Refresh of
             Inr q \<Rightarrow>
               (case issueTokenPairWithRefreshID srv rq (pl_id q) (pl_username q) (pl_role q) of
                  Inr tk \<Rightarrow> srv_digest srv (tp_refresh tk) = h
                | Inl _ \<Rightarrow> False)
           | Inl _ \<Rightarrow> False)
      | _ \<Rightarrow> False)"
| "hands_out srv h _ = False"

lemma renewal_sessions:
  assumes "renewToken srv rq ck w = (r, w')"
  shows "find_session i (tables (db_conn w')) = find_session i (tables (db_conn w)) \<or>
    (\<exists>x y. find_session i (tables (db_conn w)) = Some x \<and> find_session i (tables (db_conn w')) = Some y \<and>
       \<not> ses_is_blocked x \<and> hands_out srv (ses_refresh_token y) (Req_renewToken rq ck))"
  using assms
proof (cases rule: renewToken_tables)
  case (turned raw q y)
  then show ?thesis
    using rotated_find [OF turned(3), of i]
    by (auto simp: rotated_def rotation_def session_accepts_def replacement_def map_sum_def split: sum.splits)
qed simp

lemma issuing_sessions:
  assumes "issuing c"
  shows "find_session i (tables (serve_call st c s)) = find_session i (tables s) \<or>
    (find_session i (tables s) = None \<and> draws i c) \<or>
    (\<exists>x y. find_session i (tables s) = Some x \<and> find_session i (tables (serve_call st c s)) = Some y \<and>
       \<not> ses_is_blocked x \<and> hands_out (site_srv st) (ses_refresh_token y) c)"
proof (cases c)
  case (Req_loginUser rq bound valid)
  then show ?thesis
    using login_sessions [OF surjective_pairing, of i "site_srv st" rq bound valid "\<lparr>db_conn = s, set_cookies = []\<rparr>"]
    by (auto simp: web_effect_def)
next
  case (Req_renewToken rq ck)
  then show ?thesis
    using renewal_sessions [OF surjective_pairing, of i "site_srv st" rq ck "\<lparr>db_conn = s, set_cookies = []\<rparr>"]
    by (auto simp: web_effect_def)
qed (use assms in simp_all)

section \<open>Any later history\<close>

lemma call_keeps:
  assumes "queue_only_jobs (site_srv st)"
  shows "replaced i h (tables s) \<Longrightarrow> \<not> hands_out (site_srv st) h c \<Longrightarrow> replaced i h (tables (serve_call st c s))"
    and "blocked i (tables s) \<Longrightarrow> blocked i (tables (serve_call st c s))"
    and "missing i (tables s) \<Longrightarrow> \<not> draws i c \<Longrightarrow> missing i (tables (serve_call st c s))"
  using issuing_sessions [of c i st s] replaced.plain_call_keeps [OF assms] blocked.plain_call_keeps [OF assms]
    missing.plain_call_keeps [OF assms]
  by (cases "issuing c"; auto simp: replaced_def blocked_def missing_def)+

lemma history_keeps:
  assumes "queue_only_jobs (site_srv st)"
  shows "replaced i h (tables s) \<Longrightarrow> list_all (\<lambda>c. \<not> hands_out (site_srv st) h c) cs \<Longrightarrow>
      replaced i h (tables (serve_history st cs s))"
    and "blocked i (tables s) \<Longrightarrow> blocked i (tables (serve_history st cs s))"
    and "missing i (tables s) \<Longrightarrow> list_all (\<lambda>c. \<not> draws i c) cs \<Longrightarrow> missing i (tables (serve_history st cs s))"
  using call_keeps [OF assms] by (induction cs arbitrary: s) auto

text \<open>No token is renewed on a session that is missing, blocked, or holds another digest.\<close>

lemma dead_token:
  assumes "VerifyToken (srv_jwt srv) (srv_key srv) t raw Refresh = Inr p"
    and "replaced (pl_id p) (srv_digest srv raw) (tables (db_conn w)) \<or> blocked (pl_id p) (tables (db_conn w)) \<or>
      missing (pl_id p) (tables (db_conn w))"
    and "renewToken srv rq (GotCookie raw) w = (r, w')"
  shows "isl r \<and> tables (db_conn w') = tables (db_conn w)"
proof (rule renewToken_refused [OF assms(3)])
  fix t' q assume "VerifyToken (srv_jwt srv) (srv_key srv) t' raw Refresh = Inr q"
  then have "q = p" using verified_same_claims [OF assms(1)] by blast
  then show "\<forall>x. find_session (pl_id q) (tables (db_conn w)) = Some x \<longrightarrow>
      ses_is_blocked x \<or> ses_refresh_token x \<noteq> srv_digest srv raw"
    using assms(2) by (auto simp: replaced_def blocked_def missing_def)
qed

text \<open>
  C20 (safety). A renewal swaps the token for good. An answer 200 means the presented cookie verified,
  its user exists and is verified, and the session row held the cookie's digest; afterwards the row
  holds the digest of the token in the one cookie that is set. From then on the old cookie is worthless:
  after any history of requests and jobs, by anybody and through any failures, in which, as in this
  renewal itself, no renewal hands out a token with the old token's digest (each holds a new random
  nonce), whoever presents the old cookie, at whatever time, gets an error and changes nothing. The job
  queue is taken to add jobs only.
\<close>

theorem renewal_replaces_cookie:
  assumes run: "renewToken (site_srv st) rq (GotCookie raw) w = (Inr (status, body), w')"
    and queue: "queue_only_jobs (site_srv st)"
  defines "srv \<equiv> site_srv st"
  shows "status = 200 \<and> (\<exists>p u ck.
    VerifyToken (srv_jwt srv) (srv_key srv) (rq_now rq) raw Refresh = Inr p \<and>
    find_user (pl_username p) (tables (db_conn w)) = Some u \<and> usr_is_email_verified u \<and>
    current_hash (pl_id p) (tables (db_conn w)) = Some (srv_digest srv raw) \<and>
    current_hash (pl_id p) (tables (db_conn w')) = Some (srv_digest srv (ck_value ck)) \<and>
    set_cookies w' = set_cookies w @ [ck]) \<and>
    (\<forall>cs w2 rq2 r2 w3.
       list_all (\<lambda>c. \<not> hands_out srv (srv_digest srv raw) c) (Req_renewToken rq (GotCookie raw) # cs) \<and>
       db_conn w2 = serve_history st cs (db_conn w') \<and> renewToken srv rq2 (GotCookie raw) w2 = (r2, w3) \<longrightarrow>
       isl r2 \<and> tables (db_conn w3) = tables (db_conn w2))"
  using run
proof (cases rule: renewToken_Inr)
  case (1 p u tk y)
  note p = 1(1) [folded srv_def] and rot = 1(5) [folded srv_def]
  let ?ck = "refresh_cookie srv tk"
  have id: "rot_id (rotation srv rq raw p) = pl_id p" by (simp add: rotation_def)
  have y: "find_session (pl_id p) (tables (db_conn w')) = Some y"
    using rotated_find [OF rot, of "pl_id p"] by (simp add: id)
  have h: "ses_refresh_token y = srv_digest srv (tp_refresh tk)"
    using 1(4) rot by (auto simp: srv_def rotated_def rotation_def replacement_def)
  have old: "current_hash (pl_id p) (tables (db_conn w)) = Some (srv_digest srv raw)"
    using rot by (auto simp: rotated_def session_accepts_def rotation_def current_hash_def)
  have later: "isl r2 \<and> tables (db_conn w3) = tables (db_conn w2)"
    if new: "list_all (\<lambda>c. \<not> hands_out srv (srv_digest srv raw) c) (Req_renewToken rq (GotCookie raw) # cs)"
      and w2: "db_conn w2 = serve_history st cs (db_conn w')" and again: "renewToken srv rq2 (GotCookie raw) w2 = (r2, w3)"
    for cs w2 rq2 r2 w3
  proof -
    have "replaced (pl_id p) (srv_digest srv raw) (tables (db_conn w'))"
      using new y h p 1(4) by (simp add: replaced_def srv_def)
    then have "replaced (pl_id p) (srv_digest srv raw) (tables (db_conn w2))"
      unfolding w2 using history_keeps(1) [OF queue] new by (simp add: srv_def)
    then show ?thesis using dead_token [OF p _ again] by blast
  qed
  have "current_hash (pl_id p) (tables (db_conn w')) = Some (srv_digest srv (ck_value ?ck))"
    using y h by (simp add: current_hash_def refresh_cookie_def)
  then show ?thesis using 1(7) p 1(2,3) old 1(6) [folded srv_def] later by blast
qed


section \<open>Witnesses\<close>

text \<open>
  Alice renews, or logs out. Then somebody logs in as Alice, the new cookie is renewed, and Alice reads her
  notifications, before the old cookie is presented once more.
\<close>

definition user_site :: site where
  "user_site = sample_site\<lparr>site_srv := user_server\<rparr>"

definition busy_hour :: "call list" where
  "busy_hour =
    [Req_loginUser (user_request second) (Some alice_login) (\<lambda>_. True),
     Req_renewToken (user_request (2 * second)) (GotCookie (sample_key @ ''.r'')),
     Req_markAllNotificationsRead (Some alice_auth)]"

abbreviation an_hour_after :: "web \<Rightarrow> web" where
  "an_hour_after w \<equiv> \<lparr>db_conn = serve_history user_site busy_hour (db_conn w), set_cookies = []\<rparr>"

lemma user_site_queue: "queue_only_jobs (site_srv user_site)"
  by (auto simp: user_site_def queue_only_jobs_def only_jobs_def sample_enqueue_def run_sql_def sample_env_def)

lemma new_verifies: "VerifyToken user_lib sample_key (2 * second) (sample_key @ ''.r'') Refresh = Inr (sample_claims Refresh)"
proof -
  have "decode user_lib sample_key (sample_key @ ''.r'') = Some (sample_claims Refresh)"
    by (simp add: user_lib_def table_lib_def)
  then show ?thesis
    by (simp add: VerifyToken_def token_expired_def not_yet_valid_def validate_payload_def sample_claims_def
        Refresh_def Access_def second_def)
qed

lemma busy_hour_new:
  "list_all (\<lambda>c. \<not> hands_out user_server (srv_digest user_server old_cookie) c)
     (Req_renewToken (user_request (2 * second)) (GotCookie old_cookie) # busy_hour)"
proof -
  have "pl_id old_claims = 20" "pl_username old_claims = ''alice''" "pl_role old_claims = ''depositor''"
    "pl_id (sample_claims Refresh) = 20" "pl_username (sample_claims Refresh) = ''alice''"
    "pl_role (sample_claims Refresh) = ''depositor''"
    by (simp_all add: old_claims_def sample_claims_def)
  moreover have "VerifyToken user_lib sample_key (2 * second) old_cookie Refresh = Inr old_claims"
    by (rule old_verifies) (simp add: second_def)
  moreover have "rq_now (user_request t) = t" for t by (simp add: user_request_def)
  ultimately show ?thesis
    using new_verifies by (simp add: busy_hour_def user_issues user_pair_def)
qed

theorem renewal_replaces_cookie_witness:
  "\<not> isl (fst (renew_call (web_start [live_session]))) \<and>
   isl (fst (renew_call (an_hour_after (snd (renew_call (web_start [live_session]))))))"
proof -
  let ?w = "snd (renew_call (web_start [live_session]))"
  have srv: "site_srv user_site = user_server" by (simp add: user_site_def)
  obtain st body where r: "renew_call (web_start [live_session]) = (Inr (st, body), ?w)"
    using renew_ok by (cases "fst (renew_call (web_start [live_session]))") (auto simp: prod_eq_iff)
  from renewal_replaces_cookie [of user_site, unfolded srv, OF r] have
    "isl (fst (renew_call (an_hour_after ?w)))"
    using user_site_queue busy_hour_new surjective_pairing [of "renew_call (an_hour_after ?w)"] unfolding srv
    by (metis web.select_convs(1))
  then show ?thesis using renew_ok by simp
qed


end
