(* ===== verification/Spec2Isabelle.thy ===== *)
theory Spec2Isabelle
  imports Transfer_Refine Transfer_Decision Transfer_Witnesses Session_Tx Verify_Email_Tx User_Tx Notification_Tx Hub
    Api_Errors Api_Account Api_Transfer Api_User_Witnesses Api_Notification Notification_Stream Listener
    Command_Line Api_Server Spa Mail Worker Loopback Lifecycle Locking Transfer_Race Interleaved_Payments
    Interleaved_Progress Payment_Feed Validation Password Migrate Api_Auth Journey Store Bank_History Isolation
    Session_Race Session_History
begin

text \<open>
  SimpleBank: accounts, transfers between them, and what surrounds them.

  The program is one Go process: an HTTP API (\<open>internal/api\<close>) in front of a store
  (\<open>internal/db\<close>) whose every state is in PostgreSQL, a queue of background jobs that sends
  mail (\<open>internal/worker\<close>, \<open>internal/mail\<close>), and a listener that passes the database's notifications
  on to open event streams (\<open>internal/notification\<close>). A request goes through the middleware to a
  handler; the handler checks it, calls one method of the store, and answers; the error handler
  turns every error into a response. A transfer writes a notification row for each owner and
  announces it with NOTIFY at commit; the listener publishes it on the hub, and the event streams
  of that owner write it out. Registering queues a job in the same transaction; the job stores a
  link and mails it; the link, opened, verifies the address, and only then can the user log in.

  \<^bold>\<open>Theories.\<close> In the order of the layers.

  \<^item> \<open>Prelude\<close>: identifiers (128-bit words) and their text, instants in microseconds, the
    wrap-around of int64 and int32, the state-and-error operations in which every method is written
    (\<open>andthen\<close> is Go's \<open>if err != nil { return err }\<close>, \<open>handle\<close> continues after an error), \<open>keeps\<close>
    and its rules, and the facts on lists of rows. \<open>Go_Errors\<close>: errors as values, \<open>errors.Is\<close>,
    \<open>ClassifyError\<close> (\<open>internal/db/errors.go\<close>). \<open>Currency\<close>: \<open>internal/currency\<close>.
  \<^item> \<open>Schema\<close>: the rows of \<open>sqlc/models.go\<close>, the tables, and \<open>schema_ok\<close>, the constraints that the
    migrations leave in force. \<open>Postgres\<close>: statements, transactions and the environment \<open>pg_env\<close>;
    the locale \<open>tx_body\<close> is the contract of a transaction's body. \<open>Queries\<close>: every statement of
    \<open>internal/db/sqlc\<close>, with the errors PostgreSQL would report. \<open>Query_Facts\<close>: what the
    statements keep and change.
  \<^item> \<open>Transfer_Tx\<close>: \<open>TransferTx\<close> and its phases. \<open>Transfer_Facts\<close>, \<open>Transfer_Props\<close>,
    \<open>Transfer_Decision\<close>, \<open>Transfer_Refine\<close>: what it does to the tables, the books, retries, daily
    limits; the exact decision it makes; the abstract ledger it implements. \<open>Account_Tx\<close>,
    \<open>Session_Tx\<close>, \<open>Verify_Email_Tx\<close>, \<open>User_Tx\<close>, \<open>Notification_Tx\<close>: the other methods of the
    store, one file each, as in \<open>internal/db\<close>. \<open>Locking\<close>: several transactions at a time,
    and why they do not wait for each other for ever (locale \<open>ordered_locking\<close>).
    \<open>Transfer_Race\<close>: many transfer requests at a time, their calls of the database interleaved.
    \<open>Session_Race\<close>: many renewals at a time, the statements of \<open>RotateSessionTx\<close> interleaved.
  \<^item> Below the level of calls: \<open>Tx_Program\<close> writes the transaction of \<open>TransferTx\<close> as a program whose
    statements are data, equal to \<open>transfer_body\<close> when run in a row. \<open>Interleaving\<close> runs a
    statement of an open transaction at PostgreSQL's default level, read committed: it sees what is committed when it starts and its
    transaction's own writes. \<open>Transfer_Interleaving\<close> is the step relation \<open>bank_step\<close>: clients, each with a
    program in progress, row locks, keys that others have inserted, failures, and the rest of the
    bank. \<open>Interleaved_Payments\<close> and \<open>Interleaved_Progress\<close>: what follows for requests.
    \<open>Migrate\<close>: \<open>migrate.go\<close>. \<open>Store\<close>: \<open>store.go\<close>, the interface of the store as a type of calls, and what
    every history of calls keeps (\<open>on_record\<close>).
  \<^item> \<open>Hub\<close> and \<open>Listener\<close>: \<open>internal/notification\<close>. The hub is a state with one operation per
    method (locale \<open>pubsub\<close>); the listener's \<open>Start\<close> and \<open>Stop\<close> are a step relation, its loop
    and its back-off are functions of what connections answer.
  \<^item> \<open>Config\<close> and \<open>Command_Line\<close>: \<open>internal/config\<close>. \<open>Token\<close>: \<open>internal/token\<close>. \<open>Password\<close>:
    \<open>internal/password\<close> and \<open>internal/random\<close>.
  \<^item> \<open>Api_Errors\<close>, \<open>Api_Core\<close>, \<open>Api_Account\<close>, \<open>Api_Transfer\<close>, \<open>Api_User\<close>, \<open>Api_Notification\<close>,
    \<open>Notification_Stream\<close>: the handlers of \<open>internal/api\<close>, by file. \<open>Base64\<close>: the encoding of
    cursors. \<open>Validation\<close>: \<open>validator.go\<close> and the tags of the request structs. \<open>Api_Auth\<close>: the bearer
    token in front of a handler. \<open>Api_Server\<close>: the middleware and the routes. \<open>Spa\<close>: the catch-all route,
    and \<open>frontend/embed.go\<close>.
  \<^item> \<open>Mail\<close>: \<open>internal/mail\<close> (locale \<open>mailer\<close>). \<open>Worker\<close>: \<open>internal/worker\<close> and
    \<open>internal/secret\<close>. \<open>Loopback\<close> and \<open>Lifecycle\<close>: \<open>cmd/app/main.go\<close>.
  \<^item> The parts together: \<open>Journey\<close>, from the registration form to the first login; \<open>Payment_Feed\<close>, from a
    commit to the event streams; \<open>Bank_History\<close>, every handler and job on one database, over any history
    (locale \<open>kept_by_store\<close> and the locales it joins, what handlers rest on); \<open>Isolation\<close>, what such a history
    can do to a user in whose name nothing is asked; \<open>Session_History\<close>, what it cannot do to a session whose
    token has been replaced or that has been ended (locale \<open>session_fact\<close>).
  \<^item> \<open>Sample\<close>, \<open>Transfer_Witnesses\<close>, \<open>Api_User_Witnesses\<close>: a small bank, and a server on it, on
    which the theorems with hypotheses are applied.

  \<^bold>\<open>What is shown.\<close>

  \<^item> Money. Whatever transfers are asked for, and however they end, balances and entries agree and
    no balance is negative or too large; a request is paid at most once however often it is
    repeated, one after the other or at the same time; statements of different requests
    may interleave, and still every commit is one whole transfer that passed its checks on the tables it
    changes, and all requests return; on a working database a transfer of a positive amount goes through
    exactly when the stated checks pass, and any other is refused; read
    abstractly it is one payment of a ledger; an error means no change, but for a commit whose
    acknowledgement was lost; daily limits hold; both owners are told. After any history of requests and jobs the books are in
    order, every transfer has been announced, and nothing on record has been altered or deleted. Nothing is taken from a user
    in whose name no request is made. Only the owner can spend,
    see a history, or open an account, and to spend it takes a bearer token that this server signed.
    Concurrent transactions always finish.
  \<^item> Identity. A refresh token renews once, also when many requests present it at the same time; logging in,
    renewing and logging out do to the session what their answer says, and no later history brings back a
    token that was replaced or a session that was ended; registering and asking for another mail reveal nothing; a link works once, and
    only for its user; the mail contains a link that works, and no markup of the user's making;
    made tokens verify, and a login makes its user known to the handlers for as long as it says;
    a password that is accepted can be hashed, and a registration leads to a first login; other origins cannot use the refresh cookie; credentials are mailed
    only over encrypted connections.
  \<^item> Notifications. A payment appears on the streams of both owners and of nobody else. Following the cursors shows every notification once, newest first; a stream
    shows its owner's notifications and no others, and leaves nothing behind; committed
    notifications reach the hub; the listener reconnects with bounded delays and can be stopped.
  \<^item> The process. Every service that was started is stopped, the pool is closed last; the health check
    stays on the machine; the configuration is accepted exactly when it is valid, and its limits
    are within bounds; no internal error text reaches a client.

  \<^bold>\<open>Arguments of the model.\<close> PostgreSQL's own decisions (identifiers, clock, failures, the end of a
  commit) are the environment \<open>pg_env\<close>, and the theorems hold for all of them unless they ask for
  a \<open>healthy\<close> one. The libraries are arguments: JWT signing (\<open>jwt_library\<close> states its contract), the
  bearer middleware (\<open>echo_jwt_library\<close>), JSON (\<open>json_library\<close>), bcrypt (\<open>bcrypt_library\<close>), SHA-256,
  random bytes, URL and address parsing, the River client, goose, go-mail, the validator package's own
  rules (letters, addresses, UUIDs, the number of runes), and what the HTTP framework has read from a
  request. SQL statements, base64, \<open>path.Clean\<close>, \<open>html.EscapeString\<close>, \<open>hex\<close>, \<open>strconv.Atoi\<close>,
  \<open>net.SplitHostPort\<close> and the escaping of a URL's host are written out.

  \<^bold>\<open>Bounds and fuel.\<close> Amounts and balances are integers with \<open>wrap64\<close> wherever Go's int64 arithmetic could
  overflow; page arithmetic uses \<open>wrap32\<close>. The clients \<open>browse\<close> and \<open>api_browse\<close>, which follow cursors
  until there is none, take a number of requests; the theorems give a number that is enough, the
  number of notifications over the page size. Everything else terminates by its structure. Loops that
  run as long as the process (\<open>run\<close>, \<open>stream_loop\<close>) are given the list of what happens to them.

  At most nineteen turns bring any transfer request to its return (\<open>turns_left\<close>): the lookup, thirteen
  statements between a begin and an end, and the three calls of a replay.

  \<^bold>\<open>Not modelled.\<close> The frontend application, which runs in the browser; downgrades and the backfilling of old
  rows, which are SQL scripts that goose runs; rate limiting, routing and recovery, which are the framework's; logging, signals and the time a
  comparison takes. The statements of a transfer interleave, and those of a renewal; the other transactions
  of the store are one step each, but for the locks in \<open>Locking\<close>, and \<open>Store\<close> and \<open>Bank_History\<close> take calls one after the
  other. That River keeps a job that is declared unique only once in its
  period, and retries, is what \<open>queue_delivers\<close> and the theorems about \<open>Work\<close> allow, not a model of River.
\<close>

end
